(* ===== verification/Prelude.thy ===== *)
theory Prelude
  imports Main "HOL-Library.Word" "HOL-Library.AList" "HOL-Library.Multiset"
begin

text \<open>
  Shared vocabulary of the development: Go's 64-bit integers written out on \<^typ>\<open>int\<close>,
  panics as a value, Go maps as association lists with distinct keys, the iteration order of a
  map as a parameter, and the generic lemmas about them that the component theories use.
\<close>

unbundle bit_operations_syntax

named_theorems go_arith \<open>bounds and identities of the fixed-width integers\<close>
named_theorems go_map \<open>rewriting of association lists used as Go maps\<close>

section \<open>Names of types\<close>

type_synonym byte = "8 word"
type_synonym bytes = "byte list"
type_synonym gostring = string

section \<open>Panics\<close>

text \<open>A Go computation either returns or panics (nil dereference, slice out of range).\<close>

datatype 'a go = Ret 'a | Panic

fun go_bind :: "'a go \<Rightarrow> ('a \<Rightarrow> 'b go) \<Rightarrow> 'b go" where
  "go_bind (Ret x) f = f x"
| "go_bind Panic f = Panic"

lemma go_bind_Ret [simp]: "go_bind m f = Ret y \<longleftrightarrow> (\<exists>x. m = Ret x \<and> f x = Ret y)"
  by (cases m) auto

text \<open>A missing map entry reads as the zero value of its type.\<close>

definition the_default :: "'a \<Rightarrow> 'a option \<Rightarrow> 'a" where
  "the_default d x = (case x of None \<Rightarrow> d | Some y \<Rightarrow> y)"

lemma the_default_simps [simp]: "the_default d None = d" "the_default d (Some y) = y"
  by (simp_all add: the_default_def)

section \<open>64-bit signed integers\<close>

text \<open>\<open>i64\<close> is the wrap-around of Go's \<^verbatim>\<open>int64\<close> (and of \<^verbatim>\<open>int\<close> on the 64-bit
  platforms the project builds for).  \<open>sat64\<close> is the saturation that
  \<^verbatim>\<open>time.Time.Sub\<close> performs.\<close>

definition i64 :: "int \<Rightarrow> int" where
  "i64 x = (x + 2 ^ 63) mod 2 ^ 64 - 2 ^ 63"

definition in_i64 :: "int \<Rightarrow> bool" where
  "in_i64 x \<longleftrightarrow> - (2 ^ 63) \<le> x \<and> x < 2 ^ 63"

definition sat64 :: "int \<Rightarrow> int" where
  "sat64 x = max (- (2 ^ 63)) (min (2 ^ 63 - 1) x)"

lemma in_i64_i64 [go_arith, simp]: "in_i64 (i64 x)"
proof -
  have "0 \<le> (x + 2 ^ 63) mod (2 ^ 64 :: int)" "(x + 2 ^ 63) mod 2 ^ 64 < (2 ^ 64 :: int)"
    by simp_all
  then show ?thesis by (simp add: in_i64_def i64_def)
qed

lemma i64_id [go_arith, simp]: "in_i64 x \<Longrightarrow> i64 x = x"
  by (simp add: in_i64_def i64_def)

lemma i64_idem [go_arith, simp]: "i64 (i64 x) = i64 x"
  by simp

lemma i64_add_left [go_arith]: "i64 (i64 x + y) = i64 (x + y)"
proof -
  have "(i64 x + y + 2 ^ 63) mod 2 ^ 64 = ((x + 2 ^ 63) mod 2 ^ 64 + y) mod (2 ^ 64 :: int)"
    by (simp add: i64_def algebra_simps)
  also have "\<dots> = (x + y + 2 ^ 63) mod 2 ^ 64"
    by (simp add: mod_simps algebra_simps)
  finally show ?thesis by (simp add: i64_def)
qed

lemma sat64_id [go_arith, simp]: "in_i64 x \<Longrightarrow> sat64 x = x"
  by (simp add: in_i64_def sat64_def)

lemma in_i64_sat64 [go_arith, simp]: "in_i64 (sat64 x)"
  by (simp add: in_i64_def sat64_def)

text \<open>Go's integer division truncates towards zero.\<close>

definition go_div :: "int \<Rightarrow> int \<Rightarrow> int" where
  "go_div a b = sgn a * sgn b * (\<bar>a\<bar> div \<bar>b\<bar>)"

lemma go_div_pos [go_arith]: "0 \<le> a \<Longrightarrow> 0 < b \<Longrightarrow> go_div a b = a div b"
  by (cases "a = 0") (simp_all add: go_div_def sgn_if)

section \<open>Go maps\<close>

text \<open>
  A Go map is an association list with distinct keys: \<open>map_of\<close> looks a key up,
  \<open>AList.update\<close> assigns, \<open>AList.delete\<close> is \<^verbatim>\<open>delete(m, k)\<close>.  The order in which
  \<^verbatim>\<open>for k := range m\<close> visits the keys is not specified by Go; the operations that expose it
  take a function \<open>ord\<close> that rearranges the list of keys, and \<open>iter_order ord\<close> says that it is
  a rearrangement.
\<close>

type_synonym ('k, 'v) gomap = "('k \<times> 'v) list"

definition gm_keys :: "('k, 'v) gomap \<Rightarrow> 'k list" where
  "gm_keys m = map fst m"

definition gm_wf :: "('k, 'v) gomap \<Rightarrow> bool" where
  "gm_wf m \<longleftrightarrow> distinct (gm_keys m)"

definition iter_order :: "('k list \<Rightarrow> 'k list) \<Rightarrow> bool" where
  "iter_order ord \<longleftrightarrow> (\<forall>ks. mset (ord ks) = mset ks)"

lemma gm_wf_Nil [go_map, simp]: "gm_wf []"
  by (simp add: gm_wf_def gm_keys_def)

lemma gm_keys_Nil [go_map, simp]: "gm_keys [] = []"
  by (simp add: gm_keys_def)

lemma gm_wf_update [go_map, simp]: "gm_wf m \<Longrightarrow> gm_wf (AList.update k v m)"
  by (simp add: gm_wf_def gm_keys_def distinct_update)

lemma gm_wf_delete [go_map, simp]: "gm_wf m \<Longrightarrow> gm_wf (AList.delete k m)"
  by (simp add: gm_wf_def gm_keys_def distinct_delete)

lemma map_of_gm_update [go_map, simp]: "map_of (AList.update k v m) = (map_of m)(k \<mapsto> v)"
  by (simp add: update_conv')

lemma map_of_gm_delete [go_map, simp]: "map_of (AList.delete k m) = (map_of m)(k := None)"
  by (simp add: delete_conv')

lemma set_gm_keys [go_map]: "set (gm_keys m) = dom (map_of m)"
  by (simp add: gm_keys_def dom_map_of_conv_image_fst)

lemma gm_keys_iff [go_map]: "k \<in> set (gm_keys m) \<longleftrightarrow> map_of m k \<noteq> None"
  by (auto simp: set_gm_keys)

lemma length_gm_keys [go_map, simp]: "length (gm_keys m) = length m"
  by (simp add: gm_keys_def)

lemma length_gm_update [go_map]:
  "length (AList.update k v m) = (if map_of m k = None then Suc (length m) else length m)"
  by (induction m) (auto split: if_splits)

lemma gm_delete_absent [go_map]: "map_of m k = None \<Longrightarrow> AList.delete k m = m"
  by (induction m) (auto split: if_splits)

lemma length_gm_delete [go_map]:
  "gm_wf m \<Longrightarrow> length (AList.delete k m) = (if map_of m k = None then length m else length m - 1)"
proof (induction m)
  case Nil
  then show ?case by simp
next
  case (Cons p m)
  obtain k' v where p: "p = (k', v)" by (cases p)
  have wf: "gm_wf m" and fresh: "k' \<notin> set (gm_keys m)"
    using Cons.prems by (auto simp: gm_wf_def gm_keys_def p)
  show ?case
  proof (cases "k' = k")
    case True
    then have "map_of m k = None" using fresh by (simp add: gm_keys_iff)
    with True show ?thesis by (simp add: p gm_delete_absent)
  next
    case False
    have "map_of m k \<noteq> None \<Longrightarrow> length m \<noteq> 0" by (cases m) auto
    with False show ?thesis by (auto simp: p Cons.IH [OF wf])
  qed
qed

lemma length_gm_delete_le [go_map]: "length (AList.delete k m) \<le> length m"
  by (simp add: length_delete_le)

lemma gm_empty_iff [go_map]: "m = [] \<longleftrightarrow> (\<forall>k. map_of m k = None)"
proof (cases m)
  case (Cons p m')
  then have "map_of m (fst p) \<noteq> None" by (cases p) simp
  then show ?thesis by (metis map_of.simps(1))
qed simp

section \<open>Iteration order\<close>

lemma iter_order_set [go_map]: "iter_order ord \<Longrightarrow> set (ord ks) = set ks"
  unfolding iter_order_def by (metis set_mset_mset)

lemma iter_order_length [go_map]: "iter_order ord \<Longrightarrow> length (ord ks) = length ks"
  unfolding iter_order_def by (metis size_mset)

lemma iter_order_distinct [go_map]: "iter_order ord \<Longrightarrow> distinct (ord ks) = distinct ks"
  unfolding iter_order_def by (metis mset_eq_imp_distinct_iff)

lemma iter_order_id [simp]: "iter_order (\<lambda>ks. ks)"
  by (simp add: iter_order_def)

lemma iter_order_rev [simp]: "iter_order rev"
  by (simp add: iter_order_def)

section \<open>Lists\<close>

lemma filter_removeAll [simp]: "filter (\<lambda>y. y \<noteq> x) xs = removeAll x xs"
  by (induction xs) auto

lemma length_filter_neq_distinct:
  "distinct xs \<Longrightarrow> length (removeAll x xs) = (if x \<in> set xs then length xs - 1 else length xs)"
proof (cases "x \<in> set xs")
  case True
  assume d: "distinct xs"
  then have "length (removeAll x xs) = card (set xs - {x})"
    by (metis distinct_card distinct_removeAll set_removeAll)
  with True d show ?thesis by (simp add: distinct_card)
qed simp

end
