(* ===== verification/Strconv.thy ===== *)
theory Strconv
  imports Prelude
begin

text \<open>
  What the sources use of Go's \<^verbatim>\<open>strconv\<close>: \<^verbatim>\<open>ParseInt(s, 10, 64)\<close> and \<^verbatim>\<open>FormatInt(n, 10)\<close>, with
  the error values and the order of the checks of the standard library, and the round trip
  between them.
\<close>

datatype num_error = ErrSyntax | ErrRange

definition is_digit :: "char \<Rightarrow> bool" where
  "is_digit c \<longleftrightarrow> 48 \<le> (of_char c :: nat) \<and> (of_char c :: nat) \<le> 57"

definition digit_val :: "char \<Rightarrow> nat" where
  "digit_val c = (of_char c :: nat) - 48"

definition digit_char :: "nat \<Rightarrow> char" where
  "digit_char d = char_of (48 + d)"

fun parse_digits :: "nat \<Rightarrow> gostring \<Rightarrow> num_error + nat" where
  "parse_digits n [] = Inr n"
| "parse_digits n (c # s) =
     (if \<not> is_digit c then Inl ErrSyntax
      else if n * 10 + digit_val c \<ge> 2 ^ 64 then Inl ErrRange
      else parse_digits (n * 10 + digit_val c) s)"

definition ParseUint :: "gostring \<Rightarrow> num_error + nat" where
  "ParseUint s = (if s = [] then Inl ErrSyntax else parse_digits 0 s)"

definition ParseInt :: "gostring \<Rightarrow> num_error + int" where
  "ParseInt s =
     (if s = [] then Inl ErrSyntax
      else let neg = (hd s = CHR ''-'');
               s' = (if hd s = CHR ''+'' \<or> hd s = CHR ''-'' then tl s else s)
           in case ParseUint s' of
                Inl e \<Rightarrow> Inl e
              | Inr un \<Rightarrow>
                  if \<not> neg \<and> un \<ge> 2 ^ 63 then Inl ErrRange
                  else if neg \<and> un > 2 ^ 63 then Inl ErrRange
                  else Inr (if neg then - int un else int un))"

fun nat_digits :: "nat \<Rightarrow> gostring" where
  "nat_digits n = (if n < 10 then [digit_char n] else nat_digits (n div 10) @ [digit_char (n mod 10)])"

declare nat_digits.simps [simp del]

definition FormatInt :: "int \<Rightarrow> gostring" where
  "FormatInt n = (if n < 0 then CHR ''-'' # nat_digits (nat (- n)) else nat_digits (nat n))"

lemma of_char_digit_char [simp]: "d < 10 \<Longrightarrow> (of_char (digit_char d) :: nat) = 48 + d"
  by (simp add: digit_char_def of_char_of)

lemma is_digit_digit_char [simp]: "d < 10 \<Longrightarrow> is_digit (digit_char d)"
  by (simp add: is_digit_def)

lemma digit_val_digit_char [simp]: "d < 10 \<Longrightarrow> digit_val (digit_char d) = d"
  by (simp add: digit_val_def)

lemma parse_digits_append:
  "parse_digits n (s @ t) = (case parse_digits n s of Inl e \<Rightarrow> Inl e | Inr m \<Rightarrow> parse_digits m t)"
  by (induction s arbitrary: n) auto

lemma parse_nat_digits: "n < 2 ^ 64 \<Longrightarrow> parse_digits 0 (nat_digits n) = Inr n"
proof (induction n rule: nat_digits.induct)
  case (1 n)
  show ?case
  proof (cases "n < 10")
    case True
    then show ?thesis by (simp add: nat_digits.simps [of n])
  next
    case False
    then have "parse_digits 0 (nat_digits (n div 10)) = Inr (n div 10)" using 1 by simp
    with False "1.prems" show ?thesis by (simp add: nat_digits.simps [of n] parse_digits_append)
  qed
qed

lemma nat_digits_hd: "nat_digits n \<noteq> [] \<and> is_digit (hd (nat_digits n))"
proof (induction n rule: nat_digits.induct)
  case (1 n)
  then show ?case by (cases "n < 10") (auto simp: nat_digits.simps [of n] hd_append)
qed

lemma is_digit_not_sign: "is_digit c \<Longrightarrow> c \<noteq> CHR ''+'' \<and> c \<noteq> CHR ''-''"
  by (auto simp: is_digit_def)

lemma ParseUint_nat_digits: "n < 2 ^ 64 \<Longrightarrow> ParseUint (nat_digits n) = Inr n"
  using nat_digits_hd [of n] by (simp add: ParseUint_def parse_nat_digits)

text \<open>A formatted 64-bit integer parses back to itself.\<close>

lemma ParseInt_FormatInt [simp]:
  assumes "in_i64 n"
  shows "ParseInt (FormatInt n) = Inr n"
proof (cases "n < 0")
  case True
  then have "nat (- n) < 2 ^ 64" "nat (- n) \<le> 2 ^ 63" "- int (nat (- n)) = n"
    using assms by (auto simp: in_i64_def)
  with True show ?thesis
    by (simp add: FormatInt_def ParseInt_def ParseUint_nat_digits)
next
  case False
  then have b: "nat n < 2 ^ 64" "nat n < 2 ^ 63" "int (nat n) = n"
    using assms by (auto simp: in_i64_def)
  have d: "nat_digits (nat n) \<noteq> []" "is_digit (hd (nat_digits (nat n)))"
    using nat_digits_hd by auto
  have F: "FormatInt n = nat_digits (nat n)" using False by (simp add: FormatInt_def)
  show ?thesis unfolding F
    using b d is_digit_not_sign [OF d(2)] by (simp add: ParseInt_def ParseUint_nat_digits Let_def)
qed

lemma ParseInt_range: "ParseInt s = Inr n \<Longrightarrow> in_i64 n"
  by (auto simp: ParseInt_def in_i64_def Let_def split: if_splits sum.splits)

end
