(* ===== verification/Errors.thy ===== *)
theory Errors
  imports Strconv
begin

text \<open>
  \<^verbatim>\<open>errors.go\<close> and \<^verbatim>\<open>rehash/errors.go\<close>: the sentinel errors of the cache, as one datatype.  Errors built
  in place are constructors of their own: the error of \<^verbatim>\<open>Resize\<close> while a rehash runs, and the
  \<^verbatim>\<open>strconv\<close> errors that \<^verbatim>\<open>HIncrBy\<close> and \<^verbatim>\<open>HIncrByFloat\<close> pass on.  A Go result \<^verbatim>\<open>(T, error)\<close> is a value of
  \<open>'a result\<close>, \<^term>\<open>Inl\<close> the error.
\<close>

datatype gerror =
    ErrKeyNotFound
  | ErrKeyEmpty
  | ErrValueNil
  | ErrNegativeTTL
  | ErrCacheClosed
  | ErrInvalidShards
  | ErrUnknownPolicy
  | ErrUnknownRehasher
  | ErrFieldNotFound
  | ErrIndexOutOfRange
  | ErrInvalidIncr
  | ErrNotLeader
  | ErrRehashInProgress
  | ErrStrconv num_error

type_synonym 'a result = "gerror + 'a"

end
