(* ===== verification/Policy.thy ===== *)
theory Policy
  imports Errors
begin

text \<open>
  \<^verbatim>\<open>policy.go\<close>, \<^verbatim>\<open>lru.go\<close>, \<^verbatim>\<open>lfu.go\<close>: the eviction policies.  The part of \<^verbatim>\<open>container/list\<close> they use is
  modelled first: a list is the sequence of its elements, front first; an element is its
  identity (a number, standing for the pointer) with its value.  Identities come from a counter
  in the policy.  An element popped from a list is dead, so values can be kept by value: the
  shared \<^verbatim>\<open>*lfuItem\<close> is only changed between its removal from one bucket and its insertion in
  the next.  Reading a missing bucket (a nil pointer in Go) leaves the state unchanged in the
  model; \<open>lfu_inv\<close> says that every bucket read exists, and every operation keeps it.

  The locale \<open>eviction_policy\<close> is what a shard relies on from any policy, \<open>tracking_policy\<close> what it
  gains from LRU and LFU: the policy knows exactly the keys reported to it.
\<close>

section \<open>container/list\<close>

type_synonym 'a element = "nat \<times> 'a"
type_synonym 'a clist = "'a element list"

definition list_Remove :: "nat \<Rightarrow> 'a clist \<Rightarrow> 'a clist" where
  "list_Remove e l = filter (\<lambda>x. fst x \<noteq> e) l"

definition list_MoveToFront :: "nat \<Rightarrow> 'a clist \<Rightarrow> 'a clist" where
  "list_MoveToFront e l = filter (\<lambda>x. fst x = e) l @ filter (\<lambda>x. fst x \<noteq> e) l"

definition list_Back :: "'a clist \<Rightarrow> 'a element option" where
  "list_Back l = (if l = [] then None else Some (last l))"

definition list_Front :: "'a clist \<Rightarrow> 'a element option" where
  "list_Front l = (case l of [] \<Rightarrow> None | e # _ \<Rightarrow> Some e)"

section \<open>Model of LRU\<close>

record lru =
  lru_order :: "gostring clist"
  lru_nodes :: "(gostring, gostring element) gomap"
  lru_next :: nat

definition NewLRU :: lru where
  "NewLRU = \<lparr>lru_order = [], lru_nodes = [], lru_next = 0\<rparr>"

definition LRU_OnAccess :: "gostring \<Rightarrow> lru \<Rightarrow> lru" where
  "LRU_OnAccess key p =
     (case map_of (lru_nodes p) key of
        Some e \<Rightarrow> p\<lparr>lru_order := list_MoveToFront (fst e) (lru_order p)\<rparr>
      | None \<Rightarrow> p)"

definition LRU_OnAdd :: "gostring \<Rightarrow> lru \<Rightarrow> lru" where
  "LRU_OnAdd key p =
     (case map_of (lru_nodes p) key of
        Some e \<Rightarrow> p\<lparr>lru_order := list_MoveToFront (fst e) (lru_order p)\<rparr>
      | None \<Rightarrow>
          let e = (lru_next p, key) in
          p\<lparr>lru_order := e # lru_order p, lru_nodes := AList.update key e (lru_nodes p), lru_next := lru_next p + 1\<rparr>)"

definition LRU_OnRemove :: "gostring \<Rightarrow> lru \<Rightarrow> lru" where
  "LRU_OnRemove key p =
     (case map_of (lru_nodes p) key of
        Some e \<Rightarrow> p\<lparr>lru_order := list_Remove (fst e) (lru_order p), lru_nodes := AList.delete key (lru_nodes p)\<rparr>
      | None \<Rightarrow> p)"

definition LRU_Evict :: "lru \<Rightarrow> lru \<times> gostring option" where
  "LRU_Evict p =
     (case list_Back (lru_order p) of
        None \<Rightarrow> (p, None)
      | Some e \<Rightarrow>
          let key = snd e in
          (p\<lparr>lru_order := list_Remove (fst e) (lru_order p), lru_nodes := AList.delete key (lru_nodes p)\<rparr>, Some key))"

definition LRU_Len :: "lru \<Rightarrow> int" where
  "LRU_Len p = int (length (lru_order p))"

definition LRU_Clear :: "lru \<Rightarrow> lru" where
  "LRU_Clear p = p\<lparr>lru_order := [], lru_nodes := []\<rparr>"

section \<open>Model of LFU\<close>

record lfuItem =
  item_key :: gostring
  item_freq :: int

record lfu =
  lfu_items :: "(gostring, lfuItem element) gomap"
  freqLists :: "(int, lfuItem clist) gomap"
  minFreq :: int
  lfu_next :: nat

definition NewLFU :: lfu where
  "NewLFU = \<lparr>lfu_items = [], freqLists = [], minFreq = 0, lfu_next = 0\<rparr>"

text \<open>The range loop of \<^verbatim>\<open>scanMinFreq\<close>; its result does not depend on the iteration order.\<close>

fun scan_loop :: "int \<Rightarrow> int list \<Rightarrow> int" where
  "scan_loop mn [] = mn"
| "scan_loop mn (f # fs) = scan_loop (if mn < 0 \<or> f < mn then f else mn) fs"

definition scanMinFreq :: "lfu \<Rightarrow> int" where
  "scanMinFreq p =
     (if length (freqLists p) = 0 then 0
      else let mn = scan_loop (- 1) (gm_keys (freqLists p)) in if mn < 0 then 0 else mn)"

definition removeFromBucket :: "lfuItem element \<Rightarrow> int \<Rightarrow> lfu \<Rightarrow> lfu" where
  "removeFromBucket elem f p =
     (case map_of (freqLists p) f of
        None \<Rightarrow> p
      | Some bucket \<Rightarrow>
          let bucket = list_Remove (fst elem) bucket in
          if length bucket = 0 then
            (let p = p\<lparr>freqLists := AList.delete f (freqLists p)\<rparr> in
             if minFreq p = f then p\<lparr>minFreq := scanMinFreq p\<rparr> else p)
          else p\<lparr>freqLists := AList.update f bucket (freqLists p)\<rparr>)"

text \<open>\<^verbatim>\<open>p.items[key] = bucket.PushBack(item)\<close> on the bucket of the item's frequency, created on
  demand: the tail shared by \<^verbatim>\<open>OnAdd\<close> and \<^verbatim>\<open>bump\<close>.\<close>

definition push_item :: "gostring \<Rightarrow> lfuItem \<Rightarrow> lfu \<Rightarrow> lfu" where
  "push_item k item p =
     (let bucket = the_default [] (map_of (freqLists p) (item_freq item));
          elem = (lfu_next p, item)
      in p\<lparr>freqLists := AList.update (item_freq item) (bucket @ [elem]) (freqLists p),
           lfu_items := AList.update k elem (lfu_items p), lfu_next := lfu_next p + 1\<rparr>)"

definition bump :: "gostring \<Rightarrow> lfu \<Rightarrow> lfu" where
  "bump k p =
     (case map_of (lfu_items p) k of
        None \<Rightarrow> p
      | Some elem \<Rightarrow>
          let item = snd elem;
              oldFreq = item_freq item;
              p = removeFromBucket elem oldFreq p;
              item = item\<lparr>item_freq := item_freq item + 1\<rparr>
          in push_item k item p)"

definition LFU_OnAccess :: "gostring \<Rightarrow> lfu \<Rightarrow> lfu" where
  "LFU_OnAccess k p = bump k p"

definition LFU_OnAdd :: "gostring \<Rightarrow> lfu \<Rightarrow> lfu" where
  "LFU_OnAdd k p =
     (case map_of (lfu_items p) k of
        Some _ \<Rightarrow> bump k p
      | None \<Rightarrow> (push_item k \<lparr>item_key = k, item_freq = 1\<rparr> p)\<lparr>minFreq := 1\<rparr>)"

definition LFU_OnRemove :: "gostring \<Rightarrow> lfu \<Rightarrow> lfu" where
  "LFU_OnRemove k p =
     (case map_of (lfu_items p) k of
        None \<Rightarrow> p
      | Some elem \<Rightarrow>
          let p = removeFromBucket elem (item_freq (snd elem)) p
          in p\<lparr>lfu_items := AList.delete k (lfu_items p)\<rparr>)"

definition lfu_take_front :: "lfuItem clist \<Rightarrow> lfu \<Rightarrow> lfu \<times> gostring option" where
  "lfu_take_front bucket p =
     (case list_Front bucket of
        None \<Rightarrow> (p, None)
      | Some elem \<Rightarrow>
          let item = snd elem;
              p = removeFromBucket elem (item_freq item) p
          in (p\<lparr>lfu_items := AList.delete (item_key item) (lfu_items p)\<rparr>, Some (item_key item)))"

definition LFU_Evict :: "lfu \<Rightarrow> lfu \<times> gostring option" where
  "LFU_Evict p =
     (if length (lfu_items p) = 0 then (p, None)
      else let bucket = the_default [] (map_of (freqLists p) (minFreq p)) in
        if length bucket = 0 then
          (let p = p\<lparr>minFreq := scanMinFreq p\<rparr> in
           if minFreq p = 0 then (p, None)
           else lfu_take_front (the_default [] (map_of (freqLists p) (minFreq p))) p)
        else lfu_take_front bucket p)"

definition LFU_Len :: "lfu \<Rightarrow> int" where
  "LFU_Len p = int (length (lfu_items p))"

definition LFU_Clear :: "lfu \<Rightarrow> lfu" where
  "LFU_Clear p = p\<lparr>lfu_items := [], freqLists := [], minFreq := 0\<rparr>"

section \<open>No-op policy and dispatch\<close>

text \<open>The interface \<^verbatim>\<open>EvictionPolicy\<close> over the three built-in implementations; the no-op policy has no
  state.\<close>

datatype policy = NoopPolicy | LRUPolicy lru | LFUPolicy lfu

fun Policy_Name :: "policy \<Rightarrow> gostring" where
  "Policy_Name NoopPolicy = ''noop''"
| "Policy_Name (LRUPolicy p) = ''lru''"
| "Policy_Name (LFUPolicy p) = ''lfu''"

fun OnAccess :: "gostring \<Rightarrow> policy \<Rightarrow> policy" where
  "OnAccess k NoopPolicy = NoopPolicy"
| "OnAccess k (LRUPolicy p) = LRUPolicy (LRU_OnAccess k p)"
| "OnAccess k (LFUPolicy p) = LFUPolicy (LFU_OnAccess k p)"

fun OnAdd :: "gostring \<Rightarrow> policy \<Rightarrow> policy" where
  "OnAdd k NoopPolicy = NoopPolicy"
| "OnAdd k (LRUPolicy p) = LRUPolicy (LRU_OnAdd k p)"
| "OnAdd k (LFUPolicy p) = LFUPolicy (LFU_OnAdd k p)"

fun OnRemove :: "gostring \<Rightarrow> policy \<Rightarrow> policy" where
  "OnRemove k NoopPolicy = NoopPolicy"
| "OnRemove k (LRUPolicy p) = LRUPolicy (LRU_OnRemove k p)"
| "OnRemove k (LFUPolicy p) = LFUPolicy (LFU_OnRemove k p)"

fun Evict :: "policy \<Rightarrow> policy \<times> gostring option" where
  "Evict NoopPolicy = (NoopPolicy, None)"
| "Evict (LRUPolicy p) = (let (p, k) = LRU_Evict p in (LRUPolicy p, k))"
| "Evict (LFUPolicy p) = (let (p, k) = LFU_Evict p in (LFUPolicy p, k))"

fun Policy_Len :: "policy \<Rightarrow> int" where
  "Policy_Len NoopPolicy = 0"
| "Policy_Len (LRUPolicy p) = LRU_Len p"
| "Policy_Len (LFUPolicy p) = LFU_Len p"

fun Policy_Clear :: "policy \<Rightarrow> policy" where
  "Policy_Clear NoopPolicy = NoopPolicy"
| "Policy_Clear (LRUPolicy p) = LRUPolicy (LRU_Clear p)"
| "Policy_Clear (LFUPolicy p) = LFUPolicy (LFU_Clear p)"

text \<open>The registry maps a name to a factory; a factory is the fresh policy it returns.  A nil
  factory argument of \<^verbatim>\<open>RegisterPolicy\<close> is \<^term>\<open>None\<close>.\<close>

type_synonym registry = "(gostring, policy) gomap"

definition policyRegistry :: registry where
  "policyRegistry = [(''noop'', NoopPolicy), (''lru'', LRUPolicy NewLRU), (''lfu'', LFUPolicy NewLFU)]"

definition RegisterPolicy :: "gostring \<Rightarrow> policy option \<Rightarrow> registry \<Rightarrow> registry \<times> gerror option" where
  "RegisterPolicy name factory reg =
     (case factory of
        None \<Rightarrow> (reg, Some ErrUnknownPolicy)
      | Some f \<Rightarrow> if name = [] then (reg, Some ErrUnknownPolicy) else (AList.update name f reg, None))"

definition getPolicyFactory :: "registry \<Rightarrow> gostring \<Rightarrow> policy result" where
  "getPolicyFactory reg name =
     (case map_of reg name of None \<Rightarrow> Inl ErrUnknownPolicy | Some f \<Rightarrow> Inr f)"

section \<open>LRU: invariant and recency order\<close>

definition lru_inv :: "lru \<Rightarrow> bool" where
  "lru_inv p \<longleftrightarrow> gm_wf (lru_nodes p) \<and> distinct (map fst (lru_order p)) \<and> distinct (map snd (lru_order p))
     \<and> (\<forall>e\<in>set (lru_order p). fst e < lru_next p)
     \<and> (\<forall>k e. map_of (lru_nodes p) k = Some e \<longleftrightarrow> e \<in> set (lru_order p) \<and> snd e = k)"

definition recency :: "lru \<Rightarrow> gostring list" where
  "recency p = map snd (lru_order p)"

lemma by_id_is_by_key:
  assumes "distinct (map fst l)" "distinct (map snd l)" "(i, k) \<in> set l"
  shows "filter (\<lambda>x. fst x \<noteq> i) l = filter (\<lambda>x. snd x \<noteq> k) l" "filter (\<lambda>x. fst x = i) l = [(i, k)]"
proof -
  have "fst x \<noteq> i \<longleftrightarrow> snd x \<noteq> k" if "x \<in> set l" for x
    using assms that by (metis eq_key_imp_eq_value fst_conv inj_onD distinct_map snd_conv)
  then show "filter (\<lambda>x. fst x \<noteq> i) l = filter (\<lambda>x. snd x \<noteq> k) l" by (rule filter_cong [OF refl])
  show "filter (\<lambda>x. fst x = i) l = [(i, k)]"
    using assms(1,3) by (induction l) (auto simp: filter_empty_conv rev_image_eqI)
qed

lemma map_snd_filter_neq: "map snd (filter (\<lambda>x. snd x \<noteq> k) l) = removeAll k (map snd l)"
  by (induction l) auto

lemma lru_nodes_iff:
  assumes "lru_inv p"
  shows "map_of (lru_nodes p) k = Some e \<longleftrightarrow> e \<in> set (lru_order p) \<and> snd e = k"
proof -
  have "\<forall>k e. map_of (lru_nodes p) k = Some e \<longleftrightarrow> e \<in> set (lru_order p) \<and> snd e = k"
    using assms by (simp add: lru_inv_def)
  then show ?thesis by blast
qed

lemma lru_node_cases:
  assumes "lru_inv p"
  shows "map_of (lru_nodes p) k = None \<longleftrightarrow> k \<notin> set (recency p)"
    and "map_of (lru_nodes p) k = Some e \<Longrightarrow> snd e = k \<and> e \<in> set (lru_order p)"
proof -
  show "map_of (lru_nodes p) k = Some e \<Longrightarrow> snd e = k \<and> e \<in> set (lru_order p)"
    using lru_nodes_iff [OF assms] by simp
  have "k \<in> set (recency p) \<longleftrightarrow> (\<exists>e. e \<in> set (lru_order p) \<and> snd e = k)"
    unfolding recency_def by force
  then show "map_of (lru_nodes p) k = None \<longleftrightarrow> k \<notin> set (recency p)"
    using lru_nodes_iff [OF assms, of k] by (metis not_None_eq)
qed

lemma lru_move_front:
  assumes "lru_inv p" and "map_of (lru_nodes p) k = Some e"
  shows "lru_inv (p\<lparr>lru_order := list_MoveToFront (fst e) (lru_order p)\<rparr>)"
    and "recency (p\<lparr>lru_order := list_MoveToFront (fst e) (lru_order p)\<rparr>) = k # removeAll k (recency p)"
proof -
  have e: "e = (fst e, k)" "(fst e, k) \<in> set (lru_order p)"
    using lru_node_cases(2) [OF assms] by (metis prod.collapse)+
  have d: "distinct (map fst (lru_order p))" "distinct (map snd (lru_order p))"
    using assms(1) by (auto simp: lru_inv_def)
  note f = by_id_is_by_key [OF d e(2)]
  have mv: "list_MoveToFront (fst e) (lru_order p) = (fst e, k) # filter (\<lambda>x. snd x \<noteq> k) (lru_order p)"
    unfolding list_MoveToFront_def f by simp
  have mv': "list_MoveToFront (fst e) (lru_order p) = (fst e, k) # filter (\<lambda>x. fst x \<noteq> fst e) (lru_order p)"
    unfolding list_MoveToFront_def f(2) by simp
  show "recency (p\<lparr>lru_order := list_MoveToFront (fst e) (lru_order p)\<rparr>) = k # removeAll k (recency p)"
    by (simp add: recency_def mv map_snd_filter_neq)
  have st: "set (list_MoveToFront (fst e) (lru_order p)) = set (lru_order p)"
    using e(2) unfolding list_MoveToFront_def by auto
  have d1: "distinct (map fst (list_MoveToFront (fst e) (lru_order p)))"
    using d(1) unfolding mv' by (auto simp: distinct_map_filter)
  have d2: "distinct (map snd (list_MoveToFront (fst e) (lru_order p)))"
    using d(2) unfolding mv by (auto simp: distinct_map_filter)
  show "lru_inv (p\<lparr>lru_order := list_MoveToFront (fst e) (lru_order p)\<rparr>)"
    using assms(1) st d1 d2 by (simp add: lru_inv_def)
qed

lemma lru_remove:
  assumes "lru_inv p" and "(i, k) \<in> set (lru_order p)"
  shows "lru_inv (p\<lparr>lru_order := list_Remove i (lru_order p), lru_nodes := AList.delete k (lru_nodes p)\<rparr>)"
    and "recency (p\<lparr>lru_order := list_Remove i (lru_order p), lru_nodes := AList.delete k (lru_nodes p)\<rparr>)
         = removeAll k (recency p)"
proof -
  have d: "distinct (map fst (lru_order p))" "distinct (map snd (lru_order p))"
    using assms(1) by (auto simp: lru_inv_def)
  have rm: "list_Remove i (lru_order p) = filter (\<lambda>x. snd x \<noteq> k) (lru_order p)"
    unfolding list_Remove_def by (rule by_id_is_by_key(1) [OF d assms(2)])
  show "recency (p\<lparr>lru_order := list_Remove i (lru_order p), lru_nodes := AList.delete k (lru_nodes p)\<rparr>)
         = removeAll k (recency p)"
    by (simp add: recency_def rm map_snd_filter_neq)
  have nd: "\<forall>k' e. map_of (lru_nodes p) k' = Some e \<longleftrightarrow> e \<in> set (lru_order p) \<and> snd e = k'"
    using assms(1) by (simp add: lru_inv_def)
  show "lru_inv (p\<lparr>lru_order := list_Remove i (lru_order p), lru_nodes := AList.delete k (lru_nodes p)\<rparr>)"
    using assms(1) nd d unfolding rm by (auto simp: lru_inv_def distinct_map_filter)
qed

lemma lru_inv_New [simp]: "lru_inv NewLRU"
  by (simp add: lru_inv_def NewLRU_def gm_wf_def)

lemma recency_New [simp]: "recency NewLRU = []"
  by (simp add: recency_def NewLRU_def)

lemma recency_distinct: "lru_inv p \<Longrightarrow> distinct (recency p)"
  by (simp add: lru_inv_def recency_def)

lemma LRU_OnAccess_spec:
  assumes "lru_inv p"
  shows "lru_inv (LRU_OnAccess k p)"
    and "recency (LRU_OnAccess k p) = (if k \<in> set (recency p) then k # removeAll k (recency p) else recency p)"
  using assms lru_move_front [OF assms, of k] lru_node_cases(1) [OF assms, of k]
  by (auto simp: LRU_OnAccess_def split: option.splits)

lemma LRU_OnAdd_spec:
  assumes "lru_inv p"
  shows "lru_inv (LRU_OnAdd k p)" and "recency (LRU_OnAdd k p) = k # removeAll k (recency p)"
proof -
  show "recency (LRU_OnAdd k p) = k # removeAll k (recency p)"
    using lru_move_front(2) [OF assms, of k] lru_node_cases(1) [OF assms, of k]
    by (auto simp: LRU_OnAdd_def recency_def Let_def split: option.splits)
  show "lru_inv (LRU_OnAdd k p)"
  proof (cases "map_of (lru_nodes p) k")
    case None
    then have "k \<notin> snd ` set (lru_order p)" using lru_node_cases(1) [OF assms, of k] by (simp add: recency_def)
    moreover from this have "(a, k) \<notin> set (lru_order p)" for a by force
    moreover have "lru_next p \<notin> fst ` set (lru_order p)" using assms by (auto simp: lru_inv_def)
    moreover have "\<forall>k e. map_of (lru_nodes p) k = Some e \<longleftrightarrow> e \<in> set (lru_order p) \<and> snd e = k"
      using assms by (simp add: lru_inv_def)
    ultimately show ?thesis
      using assms None by (auto simp: LRU_OnAdd_def lru_inv_def Let_def less_Suc_eq)
  qed (use lru_move_front(1) [OF assms, of k] in \<open>simp add: LRU_OnAdd_def\<close>)
qed

lemma LRU_OnRemove_spec:
  assumes "lru_inv p"
  shows "lru_inv (LRU_OnRemove k p)" and "recency (LRU_OnRemove k p) = removeAll k (recency p)"
proof -
  have "lru_inv (LRU_OnRemove k p) \<and> recency (LRU_OnRemove k p) = removeAll k (recency p)"
  proof (cases "map_of (lru_nodes p) k")
    case None
    then show ?thesis using assms lru_node_cases(1) [OF assms, of k] by (simp add: LRU_OnRemove_def)
  next
    case (Some e)
    then have "(fst e, k) \<in> set (lru_order p)" using lru_node_cases(2) [OF assms Some] by auto
    then show ?thesis using lru_remove [OF assms] Some by (simp add: LRU_OnRemove_def)
  qed
  then show "lru_inv (LRU_OnRemove k p)" "recency (LRU_OnRemove k p) = removeAll k (recency p)" by simp_all
qed

lemma LRU_Evict_spec:
  assumes "lru_inv p"
  shows "lru_inv (fst (LRU_Evict p))"
    and "snd (LRU_Evict p) = (if recency p = [] then None else Some (last (recency p)))"
    and "recency (fst (LRU_Evict p)) = butlast (recency p)"
proof -
  have "lru_inv (fst (LRU_Evict p)) \<and>
     snd (LRU_Evict p) = (if recency p = [] then None else Some (last (recency p))) \<and>
     recency (fst (LRU_Evict p)) = butlast (recency p)"
  proof (cases "lru_order p = []")
    case True
    then show ?thesis using assms by (simp add: LRU_Evict_def list_Back_def recency_def)
  next
    case False
    obtain i k where ik: "last (lru_order p) = (i, k)" by fastforce
    have mem: "(i, k) \<in> set (lru_order p)" using False ik by (metis last_in_set)
    have r: "recency p = butlast (recency p) @ [k]"
      using False ik by (metis Nil_is_map_conv append_butlast_last_id last_map recency_def snd_conv)
    then have "k \<notin> set (butlast (recency p))"
      using recency_distinct [OF assms] by (metis distinct_append disjoint_insert(1) list.simps(15))
    then have "removeAll k (recency p) = butlast (recency p)"
      by (subst r) simp
    then show ?thesis using False ik lru_remove [OF assms mem] r
      by (auto simp: LRU_Evict_def list_Back_def Let_def last_map recency_def)
  qed
  then show "lru_inv (fst (LRU_Evict p))"
    and "snd (LRU_Evict p) = (if recency p = [] then None else Some (last (recency p)))"
    and "recency (fst (LRU_Evict p)) = butlast (recency p)" by simp_all
qed

section \<open>LFU: invariant and frequencies\<close>

definition bucket_of :: "lfu \<Rightarrow> int \<Rightarrow> lfuItem clist" where
  "bucket_of p f = the_default [] (map_of (freqLists p) f)"

definition lfu_buckets :: "lfu \<Rightarrow> bool" where
  "lfu_buckets p \<longleftrightarrow> gm_wf (freqLists p) \<and> (\<forall>f. map_of (freqLists p) f \<noteq> Some [])
     \<and> (\<forall>f. distinct (map fst (bucket_of p f)))
     \<and> (\<forall>f. \<forall>e\<in>set (bucket_of p f). item_freq (snd e) = f \<and> 1 \<le> f \<and> fst e < lfu_next p)"

text \<open>The index \<^verbatim>\<open>items\<close> lists exactly the elements of the buckets, apart from the keys in \<open>K\<close>,
  which are between two buckets.\<close>

definition lfu_indexed :: "gostring set \<Rightarrow> lfu \<Rightarrow> bool" where
  "lfu_indexed K p \<longleftrightarrow> gm_wf (lfu_items p)
     \<and> (\<forall>k e. k \<notin> K \<and> map_of (lfu_items p) k = Some e
          \<longleftrightarrow> item_key (snd e) = k \<and> e \<in> set (bucket_of p (item_freq (snd e))))"

definition lfu_inv :: "lfu \<Rightarrow> bool" where
  "lfu_inv p \<longleftrightarrow> lfu_buckets p \<and> lfu_indexed {} p"

definition lfu_freq :: "lfu \<Rightarrow> gostring \<Rightarrow> int option" where
  "lfu_freq p k = map_option (\<lambda>e. item_freq (snd e)) (map_of (lfu_items p) k)"

lemma removeFromBucket_simps [simp]:
  "lfu_items (removeFromBucket e f p) = lfu_items p"
  "lfu_next (removeFromBucket e f p) = lfu_next p"
  by (simp_all add: removeFromBucket_def Let_def split: option.splits)

lemma removeFromBucket_bucket [simp]:
  "bucket_of (removeFromBucket e f p) f' = (if f' = f then list_Remove (fst e) (bucket_of p f) else bucket_of p f')"
  by (auto simp: removeFromBucket_def bucket_of_def Let_def list_Remove_def split: option.splits)

lemma removeFromBucket_nonempty:
  "lfu_buckets p \<Longrightarrow> gm_wf (freqLists (removeFromBucket e f p)) \<and> map_of (freqLists (removeFromBucket e f p)) f' \<noteq> Some []"
  by (auto simp: lfu_buckets_def removeFromBucket_def Let_def split: option.splits)

lemma push_item_simps [simp]:
  "bucket_of (push_item k it p) f =
     (if f = item_freq it then bucket_of p f @ [(lfu_next p, it)] else bucket_of p f)"
  "lfu_items (push_item k it p) = AList.update k (lfu_next p, it) (lfu_items p)"
  "lfu_next (push_item k it p) = lfu_next p + 1"
  "minFreq (push_item k it p) = minFreq p"
  by (auto simp: push_item_def bucket_of_def Let_def)

lemma push_item_nonempty:
  "lfu_buckets p \<Longrightarrow> gm_wf (freqLists (push_item k it p)) \<and> map_of (freqLists (push_item k it p)) f' \<noteq> Some []"
  by (auto simp: lfu_buckets_def push_item_def Let_def)

lemma list_Remove_set:
  assumes "distinct (map fst l)" and "e \<in> set l"
  shows "set (list_Remove (fst e) l) = set l - {e}"
  using assms by (auto simp: list_Remove_def) (metis eq_key_imp_eq_value prod.collapse)+

lemma lfu_bucketsD:
  "lfu_buckets p \<Longrightarrow> e \<in> set (bucket_of p f) \<Longrightarrow> item_freq (snd e) = f \<and> 1 \<le> f \<and> fst e < lfu_next p"
  unfolding lfu_buckets_def by blast

lemma lfu_item:
  assumes "lfu_inv p" and "map_of (lfu_items p) k = Some e"
  shows "item_key (snd e) = k" "e \<in> set (bucket_of p (item_freq (snd e)))" "1 \<le> item_freq (snd e)"
proof -
  show a: "item_key (snd e) = k" "e \<in> set (bucket_of p (item_freq (snd e)))"
    using assms unfolding lfu_inv_def lfu_indexed_def by blast+
  then show "1 \<le> item_freq (snd e)"
    using assms(1) unfolding lfu_inv_def lfu_buckets_def by blast
qed

lemma lfu_unlink:
  assumes inv: "lfu_inv p" and e: "map_of (lfu_items p) k = Some e"
  shows "lfu_buckets (removeFromBucket e (item_freq (snd e)) p)"
    and "lfu_indexed {k} (removeFromBucket e (item_freq (snd e)) p)"
proof -
  let ?f = "item_freq (snd e)" and ?p = "removeFromBucket e (item_freq (snd e)) p"
  note ei = lfu_item [OF inv e]
  have d: "distinct (map fst (bucket_of p f))" for f using inv by (simp add: lfu_inv_def lfu_buckets_def)
  have sb: "set (bucket_of ?p f) = set (bucket_of p f) - {e}" for f
  proof (cases "f = ?f")
    case True
    then show ?thesis using list_Remove_set [OF d ei(2)] by simp
  next
    case False
    then have "e \<notin> set (bucket_of p f)" using inv lfu_bucketsD unfolding lfu_inv_def by blast
    then show ?thesis using False by simp
  qed
  show "lfu_buckets ?p"
    using inv removeFromBucket_nonempty [of p] sb d unfolding lfu_inv_def lfu_buckets_def
    by (auto simp: list_Remove_def distinct_map_filter)
  have "(k' \<notin> {k} \<and> map_of (lfu_items p) k' = Some e') \<longleftrightarrow>
      item_key (snd e') = k' \<and> e' \<in> set (bucket_of p (item_freq (snd e'))) - {e}" for k' e'
    using inv e ei unfolding lfu_inv_def lfu_indexed_def by (metis Diff_iff empty_iff insert_iff option.inject)
  then show "lfu_indexed {k} ?p" using inv unfolding lfu_indexed_def sb lfu_inv_def by simp
qed

lemma lfu_push:
  assumes b: "lfu_buckets p" and i: "lfu_indexed {k} p" and it: "item_key it = k" "1 \<le> item_freq it"
  shows "lfu_inv (push_item k it p)"
proof -
  have sb: "set (bucket_of (push_item k it p) f) =
      (if f = item_freq it then insert (lfu_next p, it) (set (bucket_of p f)) else set (bucket_of p f))" for f
    by simp
  have fresh: "lfu_next p \<notin> fst ` set (bucket_of p f)" for f using lfu_bucketsD [OF b] by force
  have "lfu_buckets (push_item k it p)"
    using b push_item_nonempty [OF b] it fresh unfolding lfu_buckets_def by (auto simp: less_Suc_eq)
  moreover have "map_of (lfu_items (push_item k it p)) k' = Some e \<longleftrightarrow>
      item_key (snd e) = k' \<and> e \<in> set (bucket_of (push_item k it p) (item_freq (snd e)))" for k' e
  proof -
    have old: "k' \<noteq> k \<and> map_of (lfu_items p) k' = Some e \<longleftrightarrow>
        item_key (snd e) = k' \<and> e \<in> set (bucket_of p (item_freq (snd e)))"
      using i unfolding lfu_indexed_def by blast
    have "e \<noteq> (lfu_next p, it)" if "e \<in> set (bucket_of p (item_freq (snd e)))"
      using that fresh by force
    then show ?thesis using old it by (cases "k' = k") auto
  qed
  ultimately show ?thesis using i by (simp add: lfu_inv_def lfu_indexed_def)
qed

lemma lfu_drop:
  assumes "lfu_buckets p" and "lfu_indexed {k} p"
  shows "lfu_inv (p\<lparr>lfu_items := AList.delete k (lfu_items p)\<rparr>)"
proof -
  have "bucket_of (p\<lparr>lfu_items := m\<rparr>) f = bucket_of p f" for m f by (simp add: bucket_of_def)
  then show ?thesis using assms by (simp add: lfu_inv_def lfu_buckets_def lfu_indexed_def) metis
qed

lemma lfu_inv_minFreq [simp]: "lfu_inv (p\<lparr>minFreq := m\<rparr>) = lfu_inv p"
  by (simp add: lfu_inv_def lfu_buckets_def lfu_indexed_def bucket_of_def)

lemma lfu_inv_New [simp]: "lfu_inv NewLFU"
  by (simp add: lfu_inv_def lfu_buckets_def lfu_indexed_def NewLFU_def bucket_of_def gm_wf_def)

lemma lfu_freq_New [simp]: "lfu_freq NewLFU = (\<lambda>_. None)"
  by (simp add: lfu_freq_def fun_eq_iff NewLFU_def)

lemma bump_spec:
  assumes "lfu_inv p"
  shows "lfu_inv (bump k p)"
    and "lfu_freq (bump k p) = (case lfu_freq p k of None \<Rightarrow> lfu_freq p | Some n \<Rightarrow> (lfu_freq p)(k \<mapsto> n + 1))"
proof -
  show "lfu_inv (bump k p)"
  proof (cases "map_of (lfu_items p) k")
    case (Some e)
    note u = lfu_unlink [OF assms Some] and it = lfu_item [OF assms Some]
    show ?thesis using lfu_push [OF u, of "snd e\<lparr>item_freq := item_freq (snd e) + 1\<rparr>"] it Some
      by (simp add: bump_def Let_def)
  qed (use assms in \<open>simp add: bump_def\<close>)
  show "lfu_freq (bump k p) = (case lfu_freq p k of None \<Rightarrow> lfu_freq p | Some n \<Rightarrow> (lfu_freq p)(k \<mapsto> n + 1))"
    by (rule ext) (auto simp: bump_def lfu_freq_def Let_def split: option.splits)
qed

lemma LFU_OnAdd_spec:
  assumes "lfu_inv p"
  shows "lfu_inv (LFU_OnAdd k p)"
    and "lfu_freq (LFU_OnAdd k p) = (lfu_freq p)(k \<mapsto> (case lfu_freq p k of None \<Rightarrow> 1 | Some n \<Rightarrow> n + 1))"
proof -
  show "lfu_inv (LFU_OnAdd k p)"
  proof (cases "map_of (lfu_items p) k")
    case None
    then have "lfu_indexed {k} p"
      using assms unfolding lfu_inv_def lfu_indexed_def by (metis empty_iff insert_iff option.distinct(1))
    then show ?thesis
      using lfu_push [of p k "\<lparr>item_key = k, item_freq = 1\<rparr>"] assms None
      by (simp add: LFU_OnAdd_def lfu_inv_def [of p])
  qed (use bump_spec(1) [OF assms] in \<open>simp add: LFU_OnAdd_def\<close>)
  show "lfu_freq (LFU_OnAdd k p) = (lfu_freq p)(k \<mapsto> (case lfu_freq p k of None \<Rightarrow> 1 | Some n \<Rightarrow> n + 1))"
  proof (cases "map_of (lfu_items p) k")
    case None
    then show ?thesis by (simp add: LFU_OnAdd_def lfu_freq_def fun_eq_iff)
  next
    case (Some e)
    then show ?thesis using bump_spec(2) [OF assms, of k] by (simp add: LFU_OnAdd_def lfu_freq_def [of p k])
  qed
qed

lemma LFU_OnRemove_spec:
  assumes "lfu_inv p"
  shows "lfu_inv (LFU_OnRemove k p)" and "lfu_freq (LFU_OnRemove k p) = (lfu_freq p)(k := None)"
proof -
  show "lfu_inv (LFU_OnRemove k p)"
    using assms lfu_drop [OF lfu_unlink [OF assms, of k]]
    by (auto simp: LFU_OnRemove_def Let_def split: option.splits)
  show "lfu_freq (LFU_OnRemove k p) = (lfu_freq p)(k := None)"
    by (auto simp: LFU_OnRemove_def lfu_freq_def Let_def fun_eq_iff split: option.splits)
qed

lemma scan_loop_Min: "0 \<le> m \<Longrightarrow> \<forall>f\<in>set fs. 0 \<le> f \<Longrightarrow> scan_loop m fs = Min (insert m (set fs))"
proof (induction fs arbitrary: m)
  case (Cons f fs)
  then have "scan_loop m (f # fs) = Min (insert (min m f) (set fs))"
    by (simp add: min_def)
  also have "\<dots> = Min (insert m (set (f # fs)))"
    by (cases "fs = []") (simp_all add: min.assoc)
  finally show ?case .
qed simp

lemma scanMinFreq_Min:
  assumes "lfu_buckets p"
  shows "scanMinFreq p = (if freqLists p = [] then 0 else Min (set (gm_keys (freqLists p))))"
    and "f \<in> set (gm_keys (freqLists p)) \<Longrightarrow> 1 \<le> f \<and> bucket_of p f \<noteq> []"
proof -
  show pos: "1 \<le> f \<and> bucket_of p f \<noteq> []" if f: "f \<in> set (gm_keys (freqLists p))" for f
  proof -
    obtain b where b: "map_of (freqLists p) f = Some b" using f by (auto simp: gm_keys_iff)
    then have ne: "bucket_of p f \<noteq> []" using assms by (auto simp: bucket_of_def lfu_buckets_def)
    then have "hd (bucket_of p f) \<in> set (bucket_of p f)" by simp
    from lfu_bucketsD [OF assms this] ne show ?thesis by blast
  qed
  show "scanMinFreq p = (if freqLists p = [] then 0 else Min (set (gm_keys (freqLists p))))"
  proof (cases "gm_keys (freqLists p)")
    case Nil
    then show ?thesis by (simp add: scanMinFreq_def gm_keys_def)
  next
    case (Cons f fs)
    have nn: "0 \<le> f" "\<forall>g\<in>set fs. 0 \<le> g" using pos Cons by fastforce+
    have "scan_loop (- 1) (f # fs) = Min (set (f # fs))" using scan_loop_Min [OF nn] nn by simp
    moreover have "\<not> Min (set (f # fs)) < 0" using nn by (subst Min_less_iff) auto
    moreover have "freqLists p \<noteq> []" using Cons by (auto simp: gm_keys_def)
    ultimately show ?thesis unfolding scanMinFreq_def Let_def Cons by (simp only: if_False length_0_conv)
  qed
qed

lemma lfu_take_front_spec:
  assumes inv: "lfu_inv p" and b: "bucket_of p f = e # es"
  shows "\<exists>p'. lfu_take_front (bucket_of p f) p = (p', Some (item_key (snd e)))
     \<and> lfu_inv p' \<and> lfu_freq p' = (lfu_freq p)(item_key (snd e) := None)
     \<and> lfu_freq p (item_key (snd e)) = Some f"
proof -
  have ef: "item_freq (snd e) = f" using lfu_bucketsD [of p e f] inv b by (simp add: lfu_inv_def)
  have it: "map_of (lfu_items p) (item_key (snd e)) = Some e"
    using inv b ef unfolding lfu_inv_def lfu_indexed_def by (metis list.set_intros(1))
  define p' where "p' = (removeFromBucket e f p)\<lparr>lfu_items := AList.delete (item_key (snd e)) (lfu_items p)\<rparr>"
  have "lfu_inv p'" using lfu_drop [OF lfu_unlink [OF inv it]] by (simp add: p'_def ef)
  moreover have "lfu_freq p' = (lfu_freq p)(item_key (snd e) := None)"
    by (auto simp: p'_def lfu_freq_def fun_eq_iff)
  moreover have "lfu_take_front (bucket_of p f) p = (p', Some (item_key (snd e)))"
    by (simp add: lfu_take_front_def list_Front_def b Let_def p'_def ef)
  ultimately show ?thesis using it ef by (auto simp: lfu_freq_def)
qed

lemma lfu_items_bucket:
  assumes "lfu_inv p" "lfu_items p \<noteq> []"
  shows "freqLists p \<noteq> []"
proof -
  obtain k e where "map_of (lfu_items p) k = Some e"
    using assms(2) by (metis gm_empty_iff not_Some_eq)
  from lfu_item(2) [OF assms(1) this] show ?thesis by (auto simp: bucket_of_def)
qed

text \<open>The bucket \<^verbatim>\<open>Evict\<close> takes its victim from: the one recorded in \<^verbatim>\<open>minFreq\<close> if it exists, else the
  one with the smallest frequency.\<close>

definition victim_freq :: "lfu \<Rightarrow> int" where
  "victim_freq p = (if bucket_of p (minFreq p) = [] then scanMinFreq p else minFreq p)"

lemma LFU_Evict_spec:
  assumes inv: "lfu_inv p"
  shows "lfu_items p = [] \<Longrightarrow> LFU_Evict p = (p, None)"
    and "lfu_items p \<noteq> [] \<Longrightarrow> \<exists>p' e es. bucket_of p (victim_freq p) = e # es
      \<and> LFU_Evict p = (p', Some (item_key (snd e))) \<and> lfu_inv p'
      \<and> lfu_freq p' = (lfu_freq p)(item_key (snd e) := None)
      \<and> lfu_freq p (item_key (snd e)) = Some (victim_freq p)"
proof -
  show "lfu_items p = [] \<Longrightarrow> LFU_Evict p = (p, None)" by (simp add: LFU_Evict_def)
  assume ne: "lfu_items p \<noteq> []"
  have lb: "lfu_buckets p" using inv by (simp add: lfu_inv_def)
  define q where "q = p\<lparr>minFreq := victim_freq p\<rparr>"
  have qb: "bucket_of q f = bucket_of p f" for f by (simp add: q_def bucket_of_def)
  have qf: "lfu_freq q = lfu_freq p" by (simp add: q_def lfu_freq_def fun_eq_iff)
  have qi: "lfu_inv q" using inv by (simp add: q_def)
  have fne: "freqLists p \<noteq> []" by (rule lfu_items_bucket [OF inv ne])
  have scan: "scanMinFreq p \<in> set (gm_keys (freqLists p))"
    using scanMinFreq_Min(1) [OF lb] fne by (simp add: gm_keys_def)
  have ev: "LFU_Evict p = lfu_take_front (bucket_of q (victim_freq p)) q"
  proof (cases "bucket_of p (minFreq p) = []")
    case True
    then have v: "victim_freq p = scanMinFreq p" by (simp add: victim_freq_def)
    have "scanMinFreq p \<noteq> 0" using scanMinFreq_Min(2) [OF lb scan] by simp
    then show ?thesis
      using True ne unfolding qb by (simp add: LFU_Evict_def Let_def bucket_of_def q_def v)
  next
    case False
    then have "victim_freq p = minFreq p" by (simp add: victim_freq_def)
    moreover from this have "q = p" by (simp add: q_def)
    ultimately show ?thesis using False ne by (simp add: LFU_Evict_def Let_def bucket_of_def)
  qed
  have "bucket_of p (victim_freq p) \<noteq> []"
    using scanMinFreq_Min(2) [OF lb scan] by (simp add: victim_freq_def)
  then obtain e es where b: "bucket_of p (victim_freq p) = e # es" by (cases "bucket_of p (victim_freq p)") auto
  then show "\<exists>p' e es. bucket_of p (victim_freq p) = e # es
      \<and> LFU_Evict p = (p', Some (item_key (snd e))) \<and> lfu_inv p'
      \<and> lfu_freq p' = (lfu_freq p)(item_key (snd e) := None)
      \<and> lfu_freq p (item_key (snd e)) = Some (victim_freq p)"
    using lfu_take_front_spec [OF qi, of "victim_freq p" e es] unfolding ev qb qf by auto
qed

lemma lfu_items_empty_iff: "lfu_items p = [] \<longleftrightarrow> dom (lfu_freq p) = {}"
  by (auto simp: lfu_freq_def dom_def fun_eq_iff map_of_eq_None_iff)

section \<open>What a shard relies on\<close>

locale eviction_policy =
  fixes inv :: "'p \<Rightarrow> bool" and tracked :: "'p \<Rightarrow> gostring set"
    and onAccess onAdd onRemove :: "gostring \<Rightarrow> 'p \<Rightarrow> 'p"
    and evict :: "'p \<Rightarrow> 'p \<times> gostring option" and len :: "'p \<Rightarrow> int"
  assumes access: "inv p \<Longrightarrow> inv (onAccess k p) \<and> tracked (onAccess k p) = tracked p"
    and add: "inv p \<Longrightarrow> inv (onAdd k p) \<and> tracked (onAdd k p) \<subseteq> insert k (tracked p)"
    and remove: "inv p \<Longrightarrow> inv (onRemove k p) \<and> tracked (onRemove k p) = tracked p - {k}"
    and evict_None: "inv p \<Longrightarrow> evict p = (p', None) \<Longrightarrow> inv p' \<and> tracked p = {} \<and> tracked p' = {}"
    and evict_Some: "inv p \<Longrightarrow> evict p = (p', Some k) \<Longrightarrow> inv p' \<and> k \<in> tracked p \<and> tracked p' = tracked p - {k}"
    and len: "inv p \<Longrightarrow> finite (tracked p) \<and> len p = int (card (tracked p))"
begin

lemma evict_len:
  assumes "inv p" and "evict p = (p', Some k)"
  shows "inv p' \<and> len p' = len p - 1 \<and> 0 < len p"
proof -
  have "inv p'" "k \<in> tracked p" "tracked p' = tracked p - {k}" using evict_Some [OF assms] by auto
  moreover have "finite (tracked p)" using len assms(1) by blast
  moreover have "0 < card (tracked p)" using calculation by (auto simp: card_gt_0_iff)
  ultimately show ?thesis using len assms(1) by (simp add: card_Diff_singleton of_nat_diff)
qed

lemma removes_inv: "inv p \<Longrightarrow> inv (fold onRemove ks p) \<and> tracked (fold onRemove ks p) = tracked p - set ks"
  by (induction ks arbitrary: p) (auto simp: remove)

end

locale tracking_policy = eviction_policy +
  assumes add_tracks: "inv p \<Longrightarrow> tracked (onAdd k p) = insert k (tracked p)"
begin

lemma adds_tracked: "inv p \<Longrightarrow> inv (fold onAdd ks p) \<and> tracked (fold onAdd ks p) = tracked p \<union> set ks"
  by (induction ks arbitrary: p) (auto simp: add add_tracks)

end

text \<open>The three policies and their dispatch satisfy the contract.\<close>

lemma lru_Len_card: "lru_inv p \<Longrightarrow> LRU_Len p = int (card (set (recency p)))"
  using recency_distinct [of p] by (simp add: LRU_Len_def distinct_card) (simp add: recency_def)

lemma lfu_Len_card:
  assumes "lfu_inv p"
  shows "finite (dom (lfu_freq p)) \<and> LFU_Len p = int (card (dom (lfu_freq p)))"
proof -
  have d: "dom (lfu_freq p) = set (map fst (lfu_items p))"
    unfolding lfu_freq_def dom_def by (auto simp: map_of_eq_None_iff)
  have "distinct (map fst (lfu_items p))" using assms by (simp add: lfu_inv_def lfu_indexed_def gm_wf_def gm_keys_def)
  from distinct_card [OF this] show ?thesis unfolding d LFU_Len_def by simp
qed

interpretation lru_policy: tracking_policy lru_inv "\<lambda>p. set (recency p)"
  LRU_OnAccess LRU_OnAdd LRU_OnRemove LRU_Evict LRU_Len
proof
  fix p :: lru and k p'
  assume inv: "lru_inv p"
  show "lru_inv (LRU_OnAccess k p) \<and> set (recency (LRU_OnAccess k p)) = set (recency p)"
    using LRU_OnAccess_spec [OF inv] by auto
  show "lru_inv (LRU_OnAdd k p) \<and> set (recency (LRU_OnAdd k p)) \<subseteq> insert k (set (recency p))"
    using LRU_OnAdd_spec [OF inv] by auto
  show "set (recency (LRU_OnAdd k p)) = insert k (set (recency p))"
    using LRU_OnAdd_spec [OF inv] by auto
  show "lru_inv (LRU_OnRemove k p) \<and> set (recency (LRU_OnRemove k p)) = set (recency p) - {k}"
    using LRU_OnRemove_spec [OF inv] by auto
  show "finite (set (recency p)) \<and> LRU_Len p = int (card (set (recency p)))"
    using lru_Len_card [OF inv] by simp
  note ev = LRU_Evict_spec [OF inv]
  show "lru_inv p' \<and> set (recency p) = {} \<and> set (recency p') = {}" if "LRU_Evict p = (p', None)"
    using ev that by (auto split: if_splits)
  show "lru_inv p' \<and> k \<in> set (recency p) \<and> set (recency p') = set (recency p) - {k}" if "LRU_Evict p = (p', Some k)"
  proof -
    have k: "recency p \<noteq> []" "k = last (recency p)" "recency p' = butlast (recency p)" "lru_inv p'"
      using ev that by (auto split: if_splits)
    then have "recency p = recency p' @ [k]" by simp
    then have "set (recency p) = insert k (set (recency p'))" "k \<notin> set (recency p')"
      using recency_distinct [OF inv] by simp_all
    then show ?thesis using k(4) by simp
  qed
qed

interpretation lfu_policy: tracking_policy lfu_inv "\<lambda>p. dom (lfu_freq p)"
  LFU_OnAccess LFU_OnAdd LFU_OnRemove LFU_Evict LFU_Len
proof
  fix p :: lfu and k p'
  assume inv: "lfu_inv p"
  show "lfu_inv (LFU_OnAccess k p) \<and> dom (lfu_freq (LFU_OnAccess k p)) = dom (lfu_freq p)"
    using bump_spec [OF inv] by (auto simp: LFU_OnAccess_def split: option.splits)
  show "lfu_inv (LFU_OnAdd k p) \<and> dom (lfu_freq (LFU_OnAdd k p)) \<subseteq> insert k (dom (lfu_freq p))"
    using LFU_OnAdd_spec [OF inv] by auto
  show "dom (lfu_freq (LFU_OnAdd k p)) = insert k (dom (lfu_freq p))"
    using LFU_OnAdd_spec [OF inv] by auto
  show "lfu_inv (LFU_OnRemove k p) \<and> dom (lfu_freq (LFU_OnRemove k p)) = dom (lfu_freq p) - {k}"
    using LFU_OnRemove_spec [OF inv] by auto
  show "finite (dom (lfu_freq p)) \<and> LFU_Len p = int (card (dom (lfu_freq p)))"
    by (rule lfu_Len_card [OF inv])
  show "lfu_inv p' \<and> dom (lfu_freq p) = {} \<and> dom (lfu_freq p') = {}" if "LFU_Evict p = (p', None)"
    using LFU_Evict_spec [OF inv] that lfu_items_empty_iff [of p] inv by (cases "lfu_items p = []") auto
  show "lfu_inv p' \<and> k \<in> dom (lfu_freq p) \<and> dom (lfu_freq p') = dom (lfu_freq p) - {k}"
    if "LFU_Evict p = (p', Some k)"
  proof -
    have ne: "lfu_items p \<noteq> []" using LFU_Evict_spec(1) [OF inv] that by auto
    from LFU_Evict_spec(2) [OF inv ne] that
    have "lfu_inv p'" "lfu_freq p' = (lfu_freq p)(k := None)" "lfu_freq p k = Some (victim_freq p)" by auto
    then show ?thesis by (auto simp: domIff)
  qed
qed

fun policy_inv :: "policy \<Rightarrow> bool" where
  "policy_inv NoopPolicy = True"
| "policy_inv (LRUPolicy p) = lru_inv p"
| "policy_inv (LFUPolicy p) = lfu_inv p"

fun policy_keys :: "policy \<Rightarrow> gostring set" where
  "policy_keys NoopPolicy = {}"
| "policy_keys (LRUPolicy p) = set (recency p)"
| "policy_keys (LFUPolicy p) = dom (lfu_freq p)"

interpretation any_policy: eviction_policy policy_inv policy_keys OnAccess OnAdd OnRemove Evict Policy_Len
proof
  fix p k p'
  assume inv: "policy_inv p"
  show "policy_inv (OnAccess k p) \<and> policy_keys (OnAccess k p) = policy_keys p"
    using inv by (cases p) (simp_all add: lru_policy.access lfu_policy.access)
  show "policy_inv (OnAdd k p) \<and> policy_keys (OnAdd k p) \<subseteq> insert k (policy_keys p)"
    using inv by (cases p) (simp_all add: lru_policy.add lfu_policy.add)
  show "policy_inv (OnRemove k p) \<and> policy_keys (OnRemove k p) = policy_keys p - {k}"
    using inv by (cases p) (simp_all add: lru_policy.remove lfu_policy.remove)
  show "policy_inv p' \<and> policy_keys p = {} \<and> policy_keys p' = {}" if ev: "Evict p = (p', None)"
  proof (cases p)
    case (LRUPolicy q)
    then obtain q' where "LRU_Evict q = (q', None)" "p' = LRUPolicy q'" using ev by (auto split: prod.splits)
    then show ?thesis using lru_policy.evict_None [of q q'] inv LRUPolicy by simp
  next
    case (LFUPolicy q)
    then obtain q' where "LFU_Evict q = (q', None)" "p' = LFUPolicy q'" using ev by (auto split: prod.splits)
    then show ?thesis using lfu_policy.evict_None [of q q'] inv LFUPolicy by simp
  qed (use ev in auto)
  show "policy_inv p' \<and> k \<in> policy_keys p \<and> policy_keys p' = policy_keys p - {k}" if ev: "Evict p = (p', Some k)"
  proof (cases p)
    case (LRUPolicy q)
    then obtain q' where "LRU_Evict q = (q', Some k)" "p' = LRUPolicy q'" using ev by (auto split: prod.splits)
    then show ?thesis using lru_policy.evict_Some [of q q' k] inv LRUPolicy by simp
  next
    case (LFUPolicy q)
    then obtain q' where "LFU_Evict q = (q', Some k)" "p' = LFUPolicy q'" using ev by (auto split: prod.splits)
    then show ?thesis using lfu_policy.evict_Some [of q q' k] inv LFUPolicy by simp
  qed (use ev in auto)
  show "finite (policy_keys p) \<and> Policy_Len p = int (card (policy_keys p))"
    using inv by (cases p) (simp_all add: lru_policy.len lfu_policy.len)
qed

definition tracking_inv :: "policy \<Rightarrow> bool" where
  "tracking_inv p \<longleftrightarrow> policy_inv p \<and> p \<noteq> NoopPolicy"

lemma noop_stays [simp]:
  "OnAccess k p = NoopPolicy \<longleftrightarrow> p = NoopPolicy" "OnAdd k p = NoopPolicy \<longleftrightarrow> p = NoopPolicy"
  "OnRemove k p = NoopPolicy \<longleftrightarrow> p = NoopPolicy" "fst (Evict p) = NoopPolicy \<longleftrightarrow> p = NoopPolicy"
  by (cases p; simp split: prod.splits)+

interpretation built_in: tracking_policy tracking_inv policy_keys OnAccess OnAdd OnRemove Evict Policy_Len
proof
  fix p k p'
  assume inv: "tracking_inv p"
  then have pi: "policy_inv p" by (simp add: tracking_inv_def)
  show "tracking_inv (OnAccess k p) \<and> policy_keys (OnAccess k p) = policy_keys p"
    using inv any_policy.access [OF pi] by (simp add: tracking_inv_def)
  show "tracking_inv (OnAdd k p) \<and> policy_keys (OnAdd k p) \<subseteq> insert k (policy_keys p)"
    using inv any_policy.add [OF pi] by (simp add: tracking_inv_def)
  show "policy_keys (OnAdd k p) = insert k (policy_keys p)"
    using inv by (cases p) (simp_all add: tracking_inv_def lru_policy.add_tracks lfu_policy.add_tracks)
  show "tracking_inv (OnRemove k p) \<and> policy_keys (OnRemove k p) = policy_keys p - {k}"
    using inv any_policy.remove [OF pi] by (simp add: tracking_inv_def)
  show "tracking_inv p' \<and> policy_keys p = {} \<and> policy_keys p' = {}" if "Evict p = (p', None)"
    using inv any_policy.evict_None [OF pi that] noop_stays(4) [of p] that by (simp add: tracking_inv_def)
  show "tracking_inv p' \<and> k \<in> policy_keys p \<and> policy_keys p' = policy_keys p - {k}" if "Evict p = (p', Some k)"
    using inv any_policy.evict_Some [OF pi that] noop_stays(4) [of p] that by (simp add: tracking_inv_def)
  show "finite (policy_keys p) \<and> Policy_Len p = int (card (policy_keys p))"
    by (rule any_policy.len [OF pi])
qed

section \<open>Sequences of policy calls\<close>

datatype policy_call = CallAccess gostring | CallAdd gostring | CallRemove gostring | CallEvict

fun policy_step :: "policy_call \<Rightarrow> policy \<Rightarrow> policy \<times> gostring option" where
  "policy_step (CallAccess k) p = (OnAccess k p, None)"
| "policy_step (CallAdd k) p = (OnAdd k p, None)"
| "policy_step (CallRemove k) p = (OnRemove k p, None)"
| "policy_step CallEvict p = Evict p"

fun policy_run :: "policy_call list \<Rightarrow> policy \<Rightarrow> policy \<times> gostring option list" where
  "policy_run [] p = (p, [])"
| "policy_run (c # cs) p = (let (p, r) = policy_step c p; (p, rs) = policy_run cs p in (p, r # rs))"

text \<open>The reference for LRU: the tracked keys, most recently used first.\<close>

fun recency_step :: "policy_call \<Rightarrow> gostring list \<Rightarrow> gostring list \<times> gostring option" where
  "recency_step (CallAccess k) ks = (if k \<in> set ks then k # removeAll k ks else ks, None)"
| "recency_step (CallAdd k) ks = (k # removeAll k ks, None)"
| "recency_step (CallRemove k) ks = (removeAll k ks, None)"
| "recency_step CallEvict ks = (butlast ks, if ks = [] then None else Some (last ks))"

fun recency_run :: "policy_call list \<Rightarrow> gostring list \<Rightarrow> gostring list \<times> gostring option list" where
  "recency_run [] ks = (ks, [])"
| "recency_run (c # cs) ks = (let (ks, r) = recency_step c ks; (ks, rs) = recency_run cs ks in (ks, r # rs))"

lemma lru_step:
  assumes "lru_inv p"
  shows "\<exists>p'. policy_step c (LRUPolicy p) = (LRUPolicy p', snd (recency_step c (recency p)))
     \<and> lru_inv p' \<and> recency p' = fst (recency_step c (recency p))"
  using LRU_OnAccess_spec [OF assms] LRU_OnAdd_spec [OF assms] LRU_OnRemove_spec [OF assms] LRU_Evict_spec [OF assms]
  by (cases c) (simp_all add: case_prod_beta)

lemma lru_run:
  "lru_inv p \<Longrightarrow> \<exists>p'. policy_run cs (LRUPolicy p) = (LRUPolicy p', snd (recency_run cs (recency p)))
     \<and> recency p' = fst (recency_run cs (recency p))"
proof (induction cs arbitrary: p)
  case (Cons c cs)
  obtain p1 where p1: "policy_step c (LRUPolicy p) = (LRUPolicy p1, snd (recency_step c (recency p)))"
    "lru_inv p1" "recency p1 = fst (recency_step c (recency p))" using lru_step [OF Cons.prems] by blast
  obtain p2 where "policy_run cs (LRUPolicy p1) = (LRUPolicy p2, snd (recency_run cs (recency p1)))"
    "recency p2 = fst (recency_run cs (recency p1))" using Cons.IH [OF p1(2)] by blast
  then show ?case using p1 by (simp add: case_prod_beta)
qed simp

text \<open>(C23) LRU refines the recency list: for every sequence of calls on a new \<^verbatim>\<open>LRUPolicy\<close>, the keys returned by
  \<^verbatim>\<open>Evict\<close> are those of the reference that keeps the keys most-recently-used first, and so are the keys
  it tracks at the end.\<close>

theorem lru_refines_recency:
  "\<exists>p. policy_run cs (LRUPolicy NewLRU) = (LRUPolicy p, snd (recency_run cs []))
     \<and> recency p = fst (recency_run cs [])"
  using lru_run [OF lru_inv_New, of cs] by simp

text \<open>Frequencies: an access or a repeated add counts one use.\<close>

fun freq_step :: "policy_call \<Rightarrow> gostring option \<Rightarrow> (gostring \<Rightarrow> int option) \<Rightarrow> (gostring \<Rightarrow> int option)" where
  "freq_step (CallAccess k) r m = (case m k of None \<Rightarrow> m | Some n \<Rightarrow> m(k \<mapsto> n + 1))"
| "freq_step (CallAdd k) r m = m(k \<mapsto> (case m k of None \<Rightarrow> 1 | Some n \<Rightarrow> n + 1))"
| "freq_step (CallRemove k) r m = m(k := None)"
| "freq_step CallEvict r m = (case r of None \<Rightarrow> m | Some k \<Rightarrow> m(k := None))"

fun freq_run :: "policy_call list \<Rightarrow> gostring option list \<Rightarrow> (gostring \<Rightarrow> int option) \<Rightarrow> (gostring \<Rightarrow> int option)" where
  "freq_run (c # cs) (r # rs) m = freq_run cs rs (freq_step c r m)"
| "freq_run _ _ m = m"

lemma lfu_step:
  assumes "lfu_inv p"
  shows "\<exists>p' r. policy_step c (LFUPolicy p) = (LFUPolicy p', r) \<and> lfu_inv p'
     \<and> lfu_freq p' = freq_step c r (lfu_freq p)"
proof (cases c)
  case CallEvict
  then show ?thesis using LFU_Evict_spec [OF assms] assms by (cases "lfu_items p = []") auto
qed (use bump_spec [OF assms] LFU_OnAdd_spec [OF assms] LFU_OnRemove_spec [OF assms] in
      \<open>simp_all add: LFU_OnAccess_def split: option.splits\<close>)

lemma lfu_run:
  "lfu_inv p \<Longrightarrow> \<exists>p' rs. policy_run cs (LFUPolicy p) = (LFUPolicy p', rs) \<and> lfu_inv p'
     \<and> lfu_freq p' = freq_run cs rs (lfu_freq p)"
proof (induction cs arbitrary: p)
  case (Cons c cs)
  obtain p1 r where p1: "policy_step c (LFUPolicy p) = (LFUPolicy p1, r)" "lfu_inv p1"
    "lfu_freq p1 = freq_step c r (lfu_freq p)" using lfu_step [OF Cons.prems] by blast
  obtain p2 rs where "policy_run cs (LFUPolicy p1) = (LFUPolicy p2, rs)" "lfu_inv p2"
    "lfu_freq p2 = freq_run cs rs (lfu_freq p1)" using Cons.IH [OF p1(2)] by blast
  then show ?case using p1 by simp
qed simp

text \<open>(C24) LFU counts uses exactly: after every sequence of calls on a new \<^verbatim>\<open>LFUPolicy\<close> the frequency recorded
  for each key is the number of adds and accesses since it was last added, removed or evicted; and
  the structure is consistent (every tracked key sits in the bucket of its frequency).\<close>

theorem lfu_counts_uses:
  "\<exists>p rs. policy_run cs (LFUPolicy NewLFU) = (LFUPolicy p, rs) \<and> lfu_inv p
     \<and> lfu_freq p = freq_run cs rs (\<lambda>_. None)"
  using lfu_run [OF lfu_inv_New, of cs] by simp

text \<open>The victim of LFU as the shard asks for it, right after \<^verbatim>\<open>OnAdd\<close> of a new key: the oldest key of
  frequency 1 if there is one, and otherwise the key that was just added, however many other
  keys the policy tracks.\<close>

theorem lfu_victim_after_add:
  assumes "lfu_inv p" and "lfu_freq p k = None"
  shows "snd (LFU_Evict (LFU_OnAdd k p)) =
    Some (case bucket_of p 1 of [] \<Rightarrow> k | e # es \<Rightarrow> item_key (snd e))"
proof -
  let ?q = "LFU_OnAdd k p"
  have none: "map_of (lfu_items p) k = None" using assms(2) by (simp add: lfu_freq_def)
  then have q: "?q = (push_item k \<lparr>item_key = k, item_freq = 1\<rparr> p)\<lparr>minFreq := 1\<rparr>"
    by (simp add: LFU_OnAdd_def)
  have b: "bucket_of ?q 1 = bucket_of p 1 @ [(lfu_next p, \<lparr>item_key = k, item_freq = 1\<rparr>)]"
    using push_item_simps(1) [of k "\<lparr>item_key = k, item_freq = 1\<rparr>" p 1] unfolding q by (simp add: bucket_of_def)
  have v: "victim_freq ?q = 1" using b by (simp add: victim_freq_def) (simp add: q)
  have inv: "lfu_inv ?q" by (rule LFU_OnAdd_spec(1) [OF assms(1)])
  have "lfu_items ?q \<noteq> []" using lfu_items_empty_iff [of ?q] LFU_OnAdd_spec(2) [OF assms(1), of k] by auto
  then show ?thesis
    using LFU_Evict_spec(2) [OF inv] b unfolding v by (auto simp: Cons_eq_append_conv split: list.splits)
qed

theorem lfu_victim_after_add_witness:
  "lfu_freq NewLFU ''a'' = None \<and> snd (LFU_Evict (LFU_OnAdd ''a'' NewLFU)) = Some ''a''"
proof -
  have "lfu_freq NewLFU ''a'' = None" by (simp add: lfu_freq_def NewLFU_def)
  from lfu_victim_after_add [OF lfu_inv_New this] this show ?thesis by (simp add: bucket_of_def NewLFU_def)
qed

text \<open>\<^verbatim>\<open>minFreq\<close> can be stale: after adding \<open>a\<close> and \<open>b\<close>, using \<open>b\<close> twice more and \<open>a\<close> once more, \<open>a\<close> has
  frequency 2 and \<open>b\<close> has 3, and yet \<^verbatim>\<open>Evict\<close> returns \<open>b\<close>: \<^verbatim>\<open>bump\<close> takes the new minimum before it puts
  the key into its next bucket.\<close>

theorem lfu_evicts_more_frequent:
  "let p = fst (policy_run [CallAdd ''a'', CallAdd ''b'', CallAccess ''b'', CallAccess ''b'', CallAccess ''a'']
                  (LFUPolicy NewLFU))
   in (case p of LFUPolicy q \<Rightarrow> lfu_freq q ''a'' = Some 2 \<and> lfu_freq q ''b'' = Some 3 | _ \<Rightarrow> False)
      \<and> snd (Evict p) = Some ''b''"
  by code_simp

end
