(* ===== verification/Ds_Set.thy ===== *)
theory Ds_Set
  imports Prelude
begin

text \<open>
  \<^verbatim>\<open>ds/set/set.go\<close> and \<^verbatim>\<open>ds/set/ops.go\<close>: the string set.  \<^verbatim>\<open>map[string]struct{}\<close> is the list of
  its keys, without repetition.  Iteration order, \<^verbatim>\<open>rand.Intn\<close> and \<^verbatim>\<open>rand.Perm\<close> are arguments:
  \<open>ord\<close> rearranges the elements, \<open>intn j n\<close> is the result of the \<open>j\<close>-th call of \<^verbatim>\<open>rand.Intn(n)\<close> and
  \<open>perm n\<close> the permutation of \<open>0..<n\<close>.  The set algebra works on pointers: each argument set
  comes with the identity of the object it lives in.
\<close>

section \<open>Model\<close>

type_synonym goset = "gostring list"

definition Set_New :: goset where
  "Set_New = []"

text \<open>\<^verbatim>\<open>s.elements[e] = struct{}{}\<close> and \<^verbatim>\<open>delete(s.elements, e)\<close>.\<close>

definition set_put :: "gostring \<Rightarrow> goset \<Rightarrow> goset" where
  "set_put e s = (if e \<in> set s then s else s @ [e])"

definition set_delete :: "gostring \<Rightarrow> goset \<Rightarrow> goset" where
  "set_delete e s = removeAll e s"

definition Set_NewFrom :: "gostring list \<Rightarrow> goset" where
  "Set_NewFrom elems = fold set_put elems Set_New"

fun add_loop :: "goset \<Rightarrow> gostring list \<Rightarrow> int \<Rightarrow> goset \<times> int" where
  "add_loop s [] added = (s, added)"
| "add_loop s (e # elems) added =
     (if e \<notin> set s then add_loop (set_put e s) elems (added + 1) else add_loop s elems added)"

definition Set_Add :: "goset \<Rightarrow> gostring list \<Rightarrow> goset \<times> int" where
  "Set_Add s elems = add_loop s elems 0"

fun rem_loop :: "goset \<Rightarrow> gostring list \<Rightarrow> int \<Rightarrow> goset \<times> int" where
  "rem_loop s [] removed = (s, removed)"
| "rem_loop s (e # elems) removed =
     (if e \<in> set s then rem_loop (set_delete e s) elems (removed + 1) else rem_loop s elems removed)"

definition Set_Rem :: "goset \<Rightarrow> gostring list \<Rightarrow> goset \<times> int" where
  "Set_Rem s elems = rem_loop s elems 0"

definition Set_IsMember :: "goset \<Rightarrow> gostring \<Rightarrow> bool" where
  "Set_IsMember s elem = (elem \<in> set s)"

definition Set_Members :: "(gostring list \<Rightarrow> gostring list) \<Rightarrow> goset \<Rightarrow> gostring list" where
  "Set_Members ord s = ord s"

definition Set_Card :: "goset \<Rightarrow> int" where
  "Set_Card s = int (length s)"

fun pop_loop :: "goset \<Rightarrow> nat \<Rightarrow> nat \<Rightarrow> gostring list \<Rightarrow> goset \<times> gostring option" where
  "pop_loop s n i [] = (s, None)"
| "pop_loop s n i (e # es) = (if i = n then (set_delete e s, Some e) else pop_loop s n (i + 1) es)"

definition Set_Pop ::
  "(gostring list \<Rightarrow> gostring list) \<Rightarrow> (nat \<Rightarrow> nat \<Rightarrow> nat) \<Rightarrow> goset \<Rightarrow> goset \<times> gostring option" where
  "Set_Pop ord intn s =
     (if length s = 0 then (s, None)
      else pop_loop s (intn 0 (length s)) 0 (ord s))"

definition set_abs :: "int \<Rightarrow> int" where
  "set_abs n = (if n < 0 then i64 (- n) else n)"

definition Set_RandMember ::
  "(gostring list \<Rightarrow> gostring list) \<Rightarrow> (nat \<Rightarrow> nat \<Rightarrow> nat) \<Rightarrow> (nat \<Rightarrow> nat list) \<Rightarrow> goset \<Rightarrow> int
     \<Rightarrow> gostring list option go" where
  "Set_RandMember ord intn perm s cnt =
     (if length s = 0 then Ret None
      else if set_abs cnt < 0 then Panic
      else let elems = ord s in
        if cnt \<ge> 0 then
          (let c = (if cnt > int (length elems) then int (length elems) else cnt)
           in Ret (Some (map (\<lambda>i. elems ! (perm (length elems) ! i)) [0..<nat c])))
        else
          Ret (Some (map (\<lambda>i. elems ! intn i (length elems)) [0..<nat (i64 (- cnt))])))"

definition Set_Clear :: "goset \<Rightarrow> goset" where
  "Set_Clear s = []"

fun Set_ForEach :: "(gostring \<Rightarrow> 's \<Rightarrow> bool \<times> 's) \<Rightarrow> gostring list \<Rightarrow> 's \<Rightarrow> 's" where
  "Set_ForEach fn [] st = st"
| "Set_ForEach fn (e # es) st = (let (continue, st') = fn e st in if continue then Set_ForEach fn es st' else st')"

text \<open>\<^verbatim>\<open>ops.go\<close>\<close>

definition Set_Union :: "('p \<times> goset) list \<Rightarrow> goset" where
  "Set_Union sets = fold (\<lambda>(p, s) result. fold set_put s result) sets Set_New"

fun smallest_loop :: "'p \<times> goset \<Rightarrow> ('p \<times> goset) list \<Rightarrow> 'p \<times> goset" where
  "smallest_loop smallest [] = smallest"
| "smallest_loop smallest (s # ss) =
     smallest_loop (if Set_Card (snd s) < Set_Card (snd smallest) then s else smallest) ss"

definition Set_Inter :: "('p \<times> goset) list \<Rightarrow> goset" where
  "Set_Inter sets =
     (case sets of
        [] \<Rightarrow> Set_New
      | s0 # rest \<Rightarrow>
          (let smallest = smallest_loop s0 rest in
           Set_ForEach
             (\<lambda>elem result.
                let ok = list_all (\<lambda>s. fst s = fst smallest \<or> Set_IsMember (snd s) elem) sets
                in (True, if ok then set_put elem result else result))
             (snd smallest) Set_New))"

definition Set_Diff :: "('p \<times> goset) list \<Rightarrow> goset" where
  "Set_Diff sets =
     (case sets of
        [] \<Rightarrow> Set_New
      | [s] \<Rightarrow> Set_Union [s]
      | s # others \<Rightarrow>
          Set_ForEach
            (\<lambda>elem result.
               let ok = \<not> list_ex (\<lambda>o'. Set_IsMember (snd o') elem) others
               in (True, if ok then set_put elem result else result))
            (snd s) Set_New)"

section \<open>Elements and distinctness\<close>

lemma set_put_set [simp]: "set (set_put e s) = insert e (set s)"
  by (auto simp: set_put_def)

lemma set_put_distinct [simp]: "distinct s \<Longrightarrow> distinct (set_put e s)"
  by (simp add: set_put_def)

lemma set_delete_set [simp]: "set (set_delete e s) = set s - {e}"
  by (simp add: set_delete_def)

lemma set_delete_distinct [simp]: "distinct s \<Longrightarrow> distinct (set_delete e s)"
  by (simp add: set_delete_def distinct_removeAll)

lemma fold_put [simp]: "set (fold set_put es s) = set s \<union> set es"
  by (induction es arbitrary: s) auto

lemma fold_put_distinct [simp]: "distinct s \<Longrightarrow> distinct (fold set_put es s)"
  by (induction es arbitrary: s) auto

lemma add_loop_spec:
  "add_loop s es n = (s', r) \<Longrightarrow>
     set s' = set s \<union> set es \<and> (distinct s \<longrightarrow> distinct s') \<and> r = n + int (card (set es - set s))"
proof (induction es arbitrary: s n)
  case (Cons e es)
  show ?case
  proof (cases "e \<in> set s")
    case True
    then have "set (e # es) - set s = set es - set s" by auto
    with True Cons show ?thesis by auto
  next
    case False
    then have rec: "add_loop (set_put e s) es (n + 1) = (s', r)" using Cons.prems by simp
    have "set (e # es) - set s = insert e (set es - insert e (set s))" using False by auto
    then have "card (set (e # es) - set s) = Suc (card (set es - insert e (set s)))" by simp
    with Cons.IH [OF rec] show ?thesis by auto
  qed
qed simp

lemma rem_loop_spec:
  "rem_loop s es n = (s', r) \<Longrightarrow>
     set s' = set s - set es \<and> (distinct s \<longrightarrow> distinct s') \<and> r = n + int (card (set es \<inter> set s))"
proof (induction es arbitrary: s n)
  case (Cons e es)
  show ?case
  proof (cases "e \<in> set s")
    case False
    then have "set (e # es) \<inter> set s = set es \<inter> set s" "set s - set (e # es) = set s - set es" by auto
    with False Cons show ?thesis by auto
  next
    case True
    then have rec: "rem_loop (set_delete e s) es (n + 1) = (s', r)" using Cons.prems by simp
    have "set (e # es) \<inter> set s = insert e (set es \<inter> (set s - {e}))" using True by auto
    then have "card (set (e # es) \<inter> set s) = Suc (card (set es \<inter> (set s - {e})))" by simp
    with Cons.IH [OF rec] show ?thesis by auto
  qed
qed simp

lemma Set_Add_spec:
  "set (fst (Set_Add s es)) = set s \<union> set es"
  "distinct s \<Longrightarrow> distinct (fst (Set_Add s es))"
  "snd (Set_Add s es) = int (card (set es - set s))"
  using add_loop_spec [OF surjective_pairing, of s es 0] by (simp_all add: Set_Add_def)

lemma Set_Rem_spec:
  "set (fst (Set_Rem s es)) = set s - set es"
  "distinct s \<Longrightarrow> distinct (fst (Set_Rem s es))"
  "snd (Set_Rem s es) = int (card (set es \<inter> set s))"
  using rem_loop_spec [OF surjective_pairing, of s es 0] by (simp_all add: Set_Rem_def)

text \<open>(C28) \<^verbatim>\<open>Add\<close> and \<^verbatim>\<open>Rem\<close> compute union and difference with the argument elements, keep the
  elements distinct, and return the number of distinct arguments that were new, respectively
  present, however often an argument is repeated.\<close>

theorem set_add_rem_spec:
  assumes "distinct s"
  shows "set (fst (Set_Add s es)) = set s \<union> set es \<and> distinct (fst (Set_Add s es))
    \<and> snd (Set_Add s es) = int (card (set es - set s))
    \<and> set (fst (Set_Rem s es)) = set s - set es \<and> distinct (fst (Set_Rem s es))
    \<and> snd (Set_Rem s es) = int (card (set es \<inter> set s))"
  using assms Set_Add_spec [of s es] Set_Rem_spec [of s es] by simp

theorem set_add_rem_spec_witness:
  "distinct [''a'', ''b''] \<and> snd (Set_Add [''a'', ''b''] [''c'', ''b'', ''c'']) = 1
   \<and> int (card (set [''c'', ''b'', ''c''] - set [''a'', ''b''])) = 1"
proof -
  have d: "distinct [''a'', ''b'']" by simp
  have "snd (Set_Add [''a'', ''b''] [''c'', ''b'', ''c'']) = 1"
    by (simp add: Set_Add_def set_put_def)
  then show ?thesis using d set_add_rem_spec [OF d, of "[''c'', ''b'', ''c'']"] by simp
qed

section \<open>Set algebra\<close>

lemma ForEach_filter:
  "Set_ForEach (\<lambda>e r. (True, if P e then set_put e r else r)) es acc = fold set_put (filter P es) acc"
  by (induction es arbitrary: acc) auto

lemma smallest_loop_mem: "smallest_loop s0 ss \<in> set (s0 # ss)"
proof (induction ss arbitrary: s0)
  case (Cons s ss)
  show ?case
    using Cons.IH [of s0] Cons.IH [of s] by (cases "Set_Card (snd s) < Set_Card (snd s0)") auto
qed simp

lemma Set_Union_acc: "set (fold (\<lambda>(p, s) r. fold set_put s r) ss acc) = set acc \<union> (\<Union>s\<in>set ss. set (snd s))"
  by (induction ss arbitrary: acc) (auto split: prod.splits)

lemma Set_Union_set [simp]: "set (Set_Union ss) = (\<Union>s\<in>set ss. set (snd s))"
  by (simp add: Set_Union_def Set_Union_acc Set_New_def)

text \<open>Two references to the same object see the same elements.\<close>

definition same_object :: "('p \<times> goset) list \<Rightarrow> bool" where
  "same_object sets \<longleftrightarrow> (\<forall>s\<in>set sets. \<forall>t\<in>set sets. fst s = fst t \<longrightarrow> snd s = snd t)"

lemma Set_Inter_set:
  assumes "same_object sets" and "sets \<noteq> []"
  shows "set (Set_Inter sets) = (\<Inter>s\<in>set sets. set (snd s))"
proof -
  obtain s0 rest where sets: "sets = s0 # rest" using assms(2) by (cases sets) auto
  define sm where "sm = smallest_loop s0 rest"
  have sm: "sm \<in> set sets" using smallest_loop_mem [of s0 rest] by (simp add: sets sm_def)
  define P where "P e \<longleftrightarrow> list_all (\<lambda>s. fst s = fst sm \<or> Set_IsMember (snd s) e) sets" for e
  have "Set_Inter sets = fold set_put (filter P (snd sm)) []"
    unfolding P_def by (simp add: Set_Inter_def sets sm_def [symmetric] ForEach_filter Set_New_def Let_def)
  then have "set (Set_Inter sets) = {e \<in> set (snd sm). P e}" by simp
  moreover have "P e \<longleftrightarrow> (\<forall>s\<in>set sets. e \<in> set (snd s))" if "e \<in> set (snd sm)" for e
  proof -
    have "e \<in> set (snd s)" if "s \<in> set sets" "fst s = fst sm" for s
      using assms(1) sm that \<open>e \<in> set (snd sm)\<close> unfolding same_object_def by metis
    then show ?thesis unfolding P_def list_all_iff Set_IsMember_def by blast
  qed
  ultimately show ?thesis using sm by auto
qed

lemma Set_Diff_set: "set (Set_Diff (s # others)) = set (snd s) - (\<Union>t\<in>set others. set (snd t))"
proof (cases others)
  case Nil
  then show ?thesis by (simp add: Set_Diff_def)
next
  case (Cons t ts)
  define P where "P e \<longleftrightarrow> \<not> list_ex (\<lambda>o'. Set_IsMember (snd o') e) others" for e
  have "Set_Diff (s # others) = fold set_put (filter P (snd s)) []"
    unfolding P_def by (simp add: Set_Diff_def Cons ForEach_filter Set_New_def Let_def)
  then show ?thesis by (auto simp: P_def list_ex_iff Set_IsMember_def)
qed

text \<open>(C29) The set algebra of \<^verbatim>\<open>ops.go\<close> is the mathematical one: union of all arguments; intersection
  of all arguments, in spite of starting from the smallest and skipping it by pointer identity;
  the first argument minus all others.\<close>

theorem set_algebra:
  assumes "same_object (s # others)"
  shows "set (Set_Union (s # others)) = (\<Union>t\<in>set (s # others). set (snd t))
    \<and> set (Set_Inter (s # others)) = (\<Inter>t\<in>set (s # others). set (snd t))
    \<and> set (Set_Diff (s # others)) = set (snd s) - (\<Union>t\<in>set others. set (snd t))"
  using assms by (simp only: Set_Union_set Set_Inter_set [OF assms list.simps(3)] Set_Diff_set simp_thms)

theorem set_algebra_witness:
  "same_object [(0::nat, [''a'', ''b'', ''c'']), (1, [''b'', ''c'']), (0, [''a'', ''b'', ''c''])]
   \<and> set (Set_Inter [(0::nat, [''a'', ''b'', ''c'']), (1, [''b'', ''c'']), (0, [''a'', ''b'', ''c''])])
     = {''b'', ''c''}"
proof -
  have h: "same_object [(0::nat, [''a'', ''b'', ''c'']), (1, [''b'', ''c'']), (0, [''a'', ''b'', ''c''])]"
    by (simp add: same_object_def)
  show ?thesis using h set_algebra [OF h] by auto
qed

section \<open>Random choice\<close>

lemma pop_loop_nth:
  "i \<le> n \<Longrightarrow> n < i + length es \<Longrightarrow> pop_loop s n i es = (set_delete (es ! (n - i)) s, Some (es ! (n - i)))"
proof (induction es arbitrary: i)
  case (Cons e es)
  then show ?case by (cases "i = n") (auto simp: nth_Cons')
qed simp

text \<open>With \<^verbatim>\<open>rand.Intn(n)\<close> below \<^verbatim>\<open>n\<close>, \<^verbatim>\<open>Pop\<close> on a non-empty set always removes and returns one
  of its elements, and nothing else.\<close>

theorem set_pop_spec:
  assumes "iter_order ord" and "\<And>j n. 0 < n \<Longrightarrow> intn j n < n" and "distinct s" and "s \<noteq> []"
  shows "\<exists>e\<in>set s. Set_Pop ord intn s = (set_delete e s, Some e) \<and> length (set_delete e s) = length s - 1"
proof -
  define n where "n = intn 0 (length s)"
  have n: "n < length (ord s)" using assms by (simp add: n_def iter_order_length)
  have "Set_Pop ord intn s = (set_delete (ord s ! n) s, Some (ord s ! n))"
    using assms(4) n pop_loop_nth [of 0 n "ord s" s] by (simp add: Set_Pop_def n_def)
  moreover have "ord s ! n \<in> set s" using nth_mem [OF n] iter_order_set [OF assms(1)] by simp
  ultimately show ?thesis using assms(3) by (auto simp: set_delete_def length_filter_neq_distinct)
qed

theorem set_pop_spec_witness:
  "iter_order rev \<and> (\<exists>e\<in>set [''a'', ''b'']. Set_Pop rev (\<lambda>j n. n - 1) [''a'', ''b''] = (set_delete e [''a'', ''b''], Some e))"
  using set_pop_spec [of rev "\<lambda>j n. n - 1" "[''a'', ''b'']"] by auto

text \<open>\<^verbatim>\<open>RandMember(count)\<close> on a non-empty set returns, for \<^verbatim>\<open>count >= 0\<close>, \<^verbatim>\<open>min(count, card)\<close> distinct
  elements of the set, and for negative \<^verbatim>\<open>count\<close> exactly \<^verbatim>\<open>-count\<close> elements of it, possibly repeated.\<close>

theorem set_randmember_spec:
  assumes ord: "iter_order ord" and intn: "\<And>j n. 0 < n \<Longrightarrow> intn j n < n"
    and perm: "\<And>n. mset (perm n) = mset [0..<n]"
    and s: "distinct s" "s \<noteq> []" and cnt: "in_i64 cnt" "cnt \<noteq> - (2 ^ 63)"
  shows "\<exists>out. Set_RandMember ord intn perm s cnt = Ret (Some out) \<and> set out \<subseteq> set s
    \<and> (if cnt \<ge> 0 then distinct out \<and> int (length out) = min cnt (int (length s))
       else int (length out) = - cnt)"
proof (cases "cnt \<ge> 0")
  case True
  define k where "k = nat (min cnt (int (length s)))"
  have k: "k \<le> length s" using True by (simp add: k_def)
  have len: "length (ord s) = length s" using ord by (rule iter_order_length)
  have p: "distinct (perm (length s))" "set (perm (length s)) = {0..<length s}" "length (perm (length s)) = length s"
    using mset_eq_imp_distinct_iff [OF perm] mset_eq_setD [OF perm] mset_eq_length [OF perm] by simp_all
  define out where "out = map (\<lambda>i. ord s ! (perm (length s) ! i)) [0..<k]"
  have eq: "Set_RandMember ord intn perm s cnt = Ret (Some out)"
    using True s(2) len by (auto simp: Set_RandMember_def set_abs_def out_def k_def Let_def min_def)
  have idx: "perm (length s) ! i < length s" if "i < k" for i
    using p(2,3) that k nth_mem [of i "perm (length s)"] by simp
  have sub: "set out \<subseteq> set s"
    using idx len nth_mem [of _ "ord s"] iter_order_set [OF ord, of s] by (auto simp: out_def)
  have dist: "distinct out"
  proof -
    have "distinct (ord s)" using ord s(1) by (simp add: iter_order_distinct)
    then have "inj_on (\<lambda>i. ord s ! (perm (length s) ! i)) {0..<k}"
      using p(1,3) idx k len by (auto simp: inj_on_def nth_eq_iff_index_eq)
    then show ?thesis by (simp add: out_def distinct_map)
  qed
  have "int (length out) = min cnt (int (length s))" using True by (simp add: out_def k_def)
  then show ?thesis using True eq sub dist by (intro exI [of _ out]) simp
next
  case False
  have neg: "i64 (- cnt) = - cnt" using cnt by (intro i64_id) (auto simp: in_i64_def)
  have len: "length (ord s) = length s" using ord by (rule iter_order_length)
  define out where "out = map (\<lambda>i. ord s ! intn i (length s)) [0..<nat (- cnt)]"
  have "intn i (length s) < length (ord s)" for i using intn s(2) len by simp
  then have "ord s ! intn i (length s) \<in> set s" for i
    using nth_mem iter_order_set [OF ord, of s] by blast
  then have "set out \<subseteq> set s" by (auto simp: out_def)
  moreover have "Set_RandMember ord intn perm s cnt = Ret (Some out)"
    using False s(2) by (simp add: Set_RandMember_def set_abs_def neg len Let_def out_def)
  ultimately show ?thesis using False by (intro exI [of _ out]) (simp add: out_def)
qed

theorem set_randmember_spec_witness:
  "\<exists>out. Set_RandMember rev (\<lambda>j n. 0) (\<lambda>n. rev [0..<n]) [''a'', ''b'', ''c''] 2 = Ret (Some out)
     \<and> set out \<subseteq> {''a'', ''b'', ''c''} \<and> distinct out \<and> int (length out) = 2"
  using set_randmember_spec [of rev "\<lambda>j n. 0" "\<lambda>n. rev [0..<n]" "[''a'', ''b'', ''c'']" 2]
  by (auto simp: in_i64_def)

end
