(* ===== verification/Ds_Hash.thy ===== *)
theory Ds_Hash
  imports Strconv
begin

text \<open>
  \<^verbatim>\<open>ds/hash/hash.go\<close>: the field map of one hash key.  \<^verbatim>\<open>h.fields\<close> is a Go map; the operations
  that list it take the iteration order as an argument.  \<^verbatim>\<open>float64\<close> parsing, printing and
  addition of the standard library are the arguments \<open>float64_ops\<close> of \<open>Hash_HIncrByFloat\<close>.
\<close>

section \<open>Model\<close>

type_synonym gohash = "(gostring, gostring) gomap"

record 'f float64_ops =
  ParseFloat :: "gostring \<Rightarrow> num_error + 'f"
  FormatFloat :: "'f \<Rightarrow> gostring"
  FloatAdd :: "'f \<Rightarrow> 'f \<Rightarrow> 'f"

definition Hash_New :: gohash where
  "Hash_New = []"

definition Hash_HSet :: "gohash \<Rightarrow> gostring \<Rightarrow> gostring \<Rightarrow> gohash \<times> int" where
  "Hash_HSet h field value =
     (case map_of h field of
        Some _ \<Rightarrow> (AList.update field value h, 0)
      | None \<Rightarrow> (AList.update field value h, 1))"

definition Hash_HSetNX :: "gohash \<Rightarrow> gostring \<Rightarrow> gostring \<Rightarrow> gohash \<times> bool" where
  "Hash_HSetNX h field value =
     (case map_of h field of
        Some _ \<Rightarrow> (h, False)
      | None \<Rightarrow> (AList.update field value h, True))"

definition Hash_HGet :: "gohash \<Rightarrow> gostring \<Rightarrow> gostring option" where
  "Hash_HGet h field = map_of h field"

fun hdel_loop :: "gohash \<Rightarrow> gostring list \<Rightarrow> int \<Rightarrow> gohash \<times> int" where
  "hdel_loop h [] removed = (h, removed)"
| "hdel_loop h (f # fs) removed =
     (case map_of h f of
        Some _ \<Rightarrow> hdel_loop (AList.delete f h) fs (removed + 1)
      | None \<Rightarrow> hdel_loop h fs removed)"

definition Hash_HDel :: "gohash \<Rightarrow> gostring list \<Rightarrow> gohash \<times> int" where
  "Hash_HDel h fs = hdel_loop h fs 0"

definition Hash_HExists :: "gohash \<Rightarrow> gostring \<Rightarrow> bool" where
  "Hash_HExists h field = (map_of h field \<noteq> None)"

definition Hash_HGetAll :: "gohash \<Rightarrow> gohash" where
  "Hash_HGetAll h = h"

definition Hash_HKeys :: "(gostring list \<Rightarrow> gostring list) \<Rightarrow> gohash \<Rightarrow> gostring list" where
  "Hash_HKeys ord h = ord (gm_keys h)"

definition Hash_HVals :: "(gostring list \<Rightarrow> gostring list) \<Rightarrow> gohash \<Rightarrow> gostring list" where
  "Hash_HVals ord h = map (\<lambda>k. the (map_of h k)) (ord (gm_keys h))"

definition Hash_HLen :: "gohash \<Rightarrow> int" where
  "Hash_HLen h = int (length h)"

definition Hash_HStrLen :: "gohash \<Rightarrow> gostring \<Rightarrow> int" where
  "Hash_HStrLen h field = (case map_of h field of None \<Rightarrow> 0 | Some v \<Rightarrow> int (length v))"

definition Hash_HIncrBy :: "gohash \<Rightarrow> gostring \<Rightarrow> int \<Rightarrow> gohash \<times> (num_error + int)" where
  "Hash_HIncrBy h field delta =
     (case map_of h field of
        None \<Rightarrow> (AList.update field (FormatInt delta) h, Inr delta)
      | Some v \<Rightarrow>
          (case ParseInt v of
             Inl err \<Rightarrow> (h, Inl err)
           | Inr n \<Rightarrow> let n' = i64 (n + delta) in (AList.update field (FormatInt n') h, Inr n')))"

definition Hash_HIncrByFloat :: "'f float64_ops \<Rightarrow> gohash \<Rightarrow> gostring \<Rightarrow> 'f \<Rightarrow> gohash \<times> (num_error + 'f)" where
  "Hash_HIncrByFloat fl h field delta =
     (case map_of h field of
        None \<Rightarrow> (AList.update field (FormatFloat fl delta) h, Inr delta)
      | Some v \<Rightarrow>
          (case ParseFloat fl v of
             Inl err \<Rightarrow> (h, Inl err)
           | Inr n \<Rightarrow> let n' = FloatAdd fl n delta in (AList.update field (FormatFloat fl n') h, Inr n')))"

definition Hash_HMGet :: "gohash \<Rightarrow> gostring list \<Rightarrow> gostring option list" where
  "Hash_HMGet h fs = map (map_of h) fs"

fun Hash_HMSet :: "gohash \<Rightarrow> gostring list \<Rightarrow> gohash" where
  "Hash_HMSet h (f # v # fvPairs) = Hash_HMSet (AList.update f v h) fvPairs"
| "Hash_HMSet h _ = h"

fun hforeach_loop :: "gohash \<Rightarrow> (gostring \<Rightarrow> gostring \<Rightarrow> 's \<Rightarrow> bool \<times> 's) \<Rightarrow> gostring list \<Rightarrow> 's \<Rightarrow> 's" where
  "hforeach_loop h fn [] s = s"
| "hforeach_loop h fn (k # ks) s =
     (let (continue, s') = fn k (the (map_of h k)) s in if continue then hforeach_loop h fn ks s' else s')"

definition Hash_ForEach ::
  "(gostring list \<Rightarrow> gostring list) \<Rightarrow> gohash \<Rightarrow> (gostring \<Rightarrow> gostring \<Rightarrow> 's \<Rightarrow> bool \<times> 's) \<Rightarrow> 's \<Rightarrow> 's" where
  "Hash_ForEach ord h fn s = hforeach_loop h fn (ord (gm_keys h)) s"

definition Hash_Fields :: "gohash \<Rightarrow> int" where
  "Hash_Fields h = int (length h)"

section \<open>Well-formedness and length\<close>

lemma hdel_loop_wf: "gm_wf h \<Longrightarrow> gm_wf (fst (hdel_loop h fs n))"
  by (induction h fs n rule: hdel_loop.induct) (auto split: option.splits)

lemma HMSet_wf [simp]: "gm_wf h \<Longrightarrow> gm_wf (Hash_HMSet h fv)"
  by (induction h fv rule: Hash_HMSet.induct) auto

lemma Hash_ops_wf [simp]:
  assumes "gm_wf h"
  shows "gm_wf (fst (Hash_HSet h f v))" "gm_wf (fst (Hash_HSetNX h f v))" "gm_wf (fst (Hash_HDel h fs))"
    "gm_wf (fst (Hash_HIncrBy h f d))" "gm_wf (fst (Hash_HIncrByFloat fl h f x))"
  using assms
  by (auto simp: Hash_HSet_def Hash_HSetNX_def Hash_HDel_def hdel_loop_wf Hash_HIncrBy_def
      Hash_HIncrByFloat_def Let_def split: option.splits sum.splits)

section \<open>Deletion\<close>

lemma hdel_loop_spec:
  "hdel_loop h fs n = (h', r) \<Longrightarrow>
     map_of h' = (map_of h) |` (- set fs) \<and> r = n + int (card (dom (map_of h) \<inter> set fs))"
proof (induction fs arbitrary: h n)
  case Nil
  then show ?case by simp
next
  case (Cons f fs)
  show ?case
  proof (cases "map_of h f")
    case None
    then have "hdel_loop h fs n = (h', r)" using Cons.prems by simp
    note ih = Cons.IH [OF this]
    have "(map_of h) |` (- set (f # fs)) = (map_of h) |` (- set fs)"
      using None by (auto simp: restrict_map_def fun_eq_iff)
    moreover have "dom (map_of h) \<inter> set (f # fs) = dom (map_of h) \<inter> set fs" using None by auto
    ultimately show ?thesis using ih by simp
  next
    case (Some v)
    then have "hdel_loop (AList.delete f h) fs (n + 1) = (h', r)" using Cons.prems by simp
    from Cons.IH [OF this]
    have ih: "map_of h' = ((map_of h)(f := None)) |` (- set fs)"
      "r = n + 1 + int (card (dom ((map_of h)(f := None)) \<inter> set fs))"
      by (simp_all only: delete_conv')
    have "((map_of h)(f := None)) |` (- set fs) = (map_of h) |` (- set (f # fs))"
      by (auto simp: restrict_map_def fun_eq_iff)
    moreover have "dom (map_of h) \<inter> set (f # fs) = insert f (dom ((map_of h)(f := None)) \<inter> set fs)"
      using Some by auto
    moreover have "card (insert f (dom ((map_of h)(f := None)) \<inter> set fs)) =
        Suc (card (dom ((map_of h)(f := None)) \<inter> set fs))"
      by (rule card_insert_disjoint) simp_all
    ultimately show ?thesis using ih by simp
  qed
qed

text \<open>\<^verbatim>\<open>HDel\<close> removes exactly the named fields, keeps every other field, and returns the number
  of distinct fields that were present, however often a field is repeated in the request.\<close>

theorem hash_del_spec:
  "map_of (fst (Hash_HDel h fs)) = (map_of h) |` (- set fs)
   \<and> snd (Hash_HDel h fs) = int (card (dom (map_of h) \<inter> set fs))"
  using hdel_loop_spec [of h fs 0] by (cases "Hash_HDel h fs") (simp add: Hash_HDel_def)

section \<open>Increments\<close>



section \<open>Multiple fields\<close>

lemma HMSet_lookup:
  "map_of (Hash_HMSet h fv) f =
     (case map_of (rev (map (\<lambda>i. (fv ! (2 * i), fv ! (2 * i + 1))) [0..<length fv div 2])) f of
        Some v \<Rightarrow> Some v | None \<Rightarrow> map_of h f)"
proof (induction h fv rule: Hash_HMSet.induct)
  case (1 h a v fv)
  have "[0..<length (a # v # fv) div 2] = 0 # map Suc [0..<length fv div 2]"
    by (simp add: map_Suc_upt upt_conv_Cons del: upt_Suc)
  then show ?case by (simp add: 1 o_def map_add_def split: option.splits del: upt_Suc)
qed auto

text \<open>After \<^verbatim>\<open>HMSet\<close> a field named in the argument pairs holds the value of its last pair, a
  field not named keeps its old value, and a trailing unpaired argument is ignored; \<^verbatim>\<open>HMGet\<close> of any
  fields then returns these values position by position.\<close>

theorem hash_mset_mget:
  "Hash_HMGet (Hash_HMSet h fv) fs =
     map (\<lambda>f. case map_of (rev (map (\<lambda>i. (fv ! (2 * i), fv ! (2 * i + 1))) [0..<length fv div 2])) f of
                Some v \<Rightarrow> Some v | None \<Rightarrow> map_of h f) fs"
  by (simp add: Hash_HMGet_def HMSet_lookup)

end
