(* ===== verification/Ds_List.thy ===== *)
theory Ds_List
  imports Prelude
begin

text \<open>
  \<^verbatim>\<open>ds/list/list.go\<close>: the Redis-style list.  The linked list \<^verbatim>\<open>l.l\<close> is the list of its
  values, front first; a walk over \<^verbatim>\<open>*list.Element\<close> is a recursion over the rest of the list.
  A nil result slice is \<^term>\<open>None\<close>.  The lemmas compare the index-juggling loops with
  declarative readings (\<^term>\<open>nths\<close>, \<^term>\<open>removeAll\<close>, the list of match positions).
\<close>

section \<open>Model\<close>

type_synonym golist = "gostring list"

definition List_New :: golist where
  "List_New = []"

fun List_LPush :: "golist \<Rightarrow> gostring list \<Rightarrow> golist \<times> int" where
  "List_LPush l [] = (l, int (length l))"
| "List_LPush l (e # elems) = List_LPush (e # l) elems"

fun List_RPush :: "golist \<Rightarrow> gostring list \<Rightarrow> golist \<times> int" where
  "List_RPush l [] = (l, int (length l))"
| "List_RPush l (e # elems) = List_RPush (l @ [e]) elems"

definition List_LPop :: "golist \<Rightarrow> golist \<times> gostring option" where
  "List_LPop l = (if length l = 0 then (l, None) else (tl l, Some (hd l)))"

definition List_RPop :: "golist \<Rightarrow> golist \<times> gostring option" where
  "List_RPop l = (if length l = 0 then (l, None) else (butlast l, Some (last l)))"

definition List_LLen :: "golist \<Rightarrow> int" where
  "List_LLen l = int (length l)"

definition normalizeRange :: "int \<Rightarrow> int \<Rightarrow> int \<Rightarrow> int \<times> int" where
  "normalizeRange start stop n =
     (let start1 = (if start < 0 then n + start else start);
          stop1 = (if stop < 0 then n + stop else stop);
          start2 = (if start1 < 0 then 0 else start1);
          stop2 = (if stop1 \<ge> n then n - 1 else stop1)
      in (start2, stop2))"

text \<open>The second loop of \<^verbatim>\<open>LRange\<close>: \<open>e\<close> is the rest of the list from the current element.\<close>

fun lrange_loop :: "int \<Rightarrow> int \<Rightarrow> golist \<Rightarrow> golist" where
  "lrange_loop i stop [] = []"
| "lrange_loop i stop (x # e) = (if i \<le> stop then x # lrange_loop (i + 1) stop e else [])"

definition List_LRange :: "golist \<Rightarrow> int \<Rightarrow> int \<Rightarrow> golist option" where
  "List_LRange l start stop =
     (let n = int (length l) in
      if n = 0 then None
      else let (start', stop') = normalizeRange start stop n in
        if start' > stop' then None
        else Some (lrange_loop start' stop' (drop (nat start') l)))"

definition List_LIndex :: "golist \<Rightarrow> int \<Rightarrow> gostring option" where
  "List_LIndex l index =
     (let n = int (length l) in
      if n = 0 then None
      else let i = (if index < 0 then n + index else index) in
        if i < 0 \<or> i \<ge> n then None else Some (l ! nat i))"

definition List_LSet :: "golist \<Rightarrow> int \<Rightarrow> gostring \<Rightarrow> golist \<times> bool" where
  "List_LSet l index value =
     (let n = int (length l);
          i = (if index < 0 then n + index else index)
      in if i < 0 \<or> i \<ge> n then (l, False) else (l[nat i := value], True))"

text \<open>The removal loop of \<^verbatim>\<open>LRem\<close>: rest of the list, removals so far.\<close>

fun lrem_loop :: "gostring \<Rightarrow> int \<Rightarrow> int \<Rightarrow> golist \<Rightarrow> golist \<times> int" where
  "lrem_loop value maxRemove removed [] = ([], removed)"
| "lrem_loop value maxRemove removed (x # e) =
     (if removed < maxRemove then
        (if x = value then lrem_loop value maxRemove (removed + 1) e
         else (let (rest, r) = lrem_loop value maxRemove removed e in (x # rest, r)))
      else (x # e, removed))"

definition List_LRem :: "golist \<Rightarrow> int \<Rightarrow> gostring \<Rightarrow> golist \<times> int" where
  "List_LRem l cnt value =
     (if length l = 0 then (l, 0)
      else if cnt \<ge> 0 then
        (let maxRemove = (if cnt = 0 then int (length l) else cnt)
         in lrem_loop value maxRemove 0 l)
      else
        (let (back, r) = lrem_loop value (i64 (- cnt)) 0 (rev l) in (rev back, r)))"

definition List_LTrim :: "golist \<Rightarrow> int \<Rightarrow> int \<Rightarrow> golist" where
  "List_LTrim l start stop =
     (let n = int (length l) in
      if n = 0 then l
      else let (start', stop') = normalizeRange start stop n in
        if start' > stop' then []
        else (butlast ^^ nat (n - (stop' + 1))) ((tl ^^ nat start') l))"

fun linsert_loop :: "bool \<Rightarrow> gostring \<Rightarrow> gostring \<Rightarrow> golist \<Rightarrow> golist option" where
  "linsert_loop before pivot value [] = None"
| "linsert_loop before pivot value (x # e) =
     (if x = pivot then Some (if before then value # x # e else x # value # e)
      else map_option ((#) x) (linsert_loop before pivot value e))"

definition List_LInsert :: "golist \<Rightarrow> bool \<Rightarrow> gostring \<Rightarrow> gostring \<Rightarrow> golist \<times> int" where
  "List_LInsert l before pivot value =
     (case linsert_loop before pivot value l of
        Some l' \<Rightarrow> (l', int (length l'))
      | None \<Rightarrow> (l, -1))"

fun lpos_loop :: "gostring \<Rightarrow> int \<Rightarrow> int \<Rightarrow> bool \<Rightarrow> int \<Rightarrow> int \<Rightarrow> int \<Rightarrow> int list \<Rightarrow> golist \<Rightarrow> int list" where
  "lpos_loop value rank cnt allMatches maxLen found i positions [] = positions"
| "lpos_loop value rank cnt allMatches maxLen found i positions (x # e) =
     (if \<not> i < maxLen then positions
      else if \<not> allMatches \<and> int (length positions) \<ge> cnt then positions
      else if x = value then
        lpos_loop value rank cnt allMatches maxLen (found + 1) (i + 1)
          (if found + 1 \<ge> rank then positions @ [i] else positions) e
      else lpos_loop value rank cnt allMatches maxLen found (i + 1) positions e)"

definition List_LPos :: "golist \<Rightarrow> gostring \<Rightarrow> int \<Rightarrow> int \<Rightarrow> int \<Rightarrow> int list" where
  "List_LPos l value rank cnt maxLen =
     (let n = int (length l);
          maxLen' = (if maxLen = 0 \<or> maxLen > n then n else maxLen);
          cnt' = (if cnt < 0 then 1 else cnt);
          allMatches = (cnt' = 0)
      in lpos_loop value rank cnt' allMatches maxLen' 0 0 [] l)"

fun List_ForEach :: "(gostring \<Rightarrow> 's \<Rightarrow> bool \<times> 's) \<Rightarrow> golist \<Rightarrow> 's \<Rightarrow> 's" where
  "List_ForEach fn [] s = s"
| "List_ForEach fn (x # e) s = (let (continue, s') = fn x s in if continue then List_ForEach fn e s' else s')"

section \<open>Push and pop\<close>

lemma List_LPush_eq [simp]: "List_LPush l elems = (rev elems @ l, int (length elems + length l))"
  by (induction elems arbitrary: l) auto

lemma List_RPush_eq [simp]: "List_RPush l elems = (l @ elems, int (length elems + length l))"
  by (induction elems arbitrary: l) auto

fun lpops :: "nat \<Rightarrow> golist \<Rightarrow> golist \<times> gostring option list" where
  "lpops 0 l = (l, [])"
| "lpops (Suc n) l = (let (l', r) = List_LPop l; (l'', rs) = lpops n l' in (l'', r # rs))"

lemma lpops_append: "n = length xs \<Longrightarrow> lpops n (xs @ l) = (l, map Some xs)"
  by (induction xs arbitrary: n) (auto simp: List_LPop_def)

section \<open>Ranges\<close>

text \<open>The positions an inclusive Redis range denotes in a list of length \<open>n\<close>.\<close>

definition range_positions :: "int \<Rightarrow> int \<Rightarrow> nat \<Rightarrow> nat set" where
  "range_positions start stop n =
     {i. (let lo = (if start < 0 then int n + start else start);
              hi = (if stop < 0 then int n + stop else stop)
          in lo \<le> int i \<and> int i \<le> hi)}"

lemma lrange_loop_take: "lrange_loop i stop e = take (nat (stop - i + 1)) e"
proof (induction e arbitrary: i)
  case (Cons x e)
  show ?case
  proof (cases "i \<le> stop")
    case True
    then have "nat (stop - i + 1) = Suc (nat (stop - (i + 1) + 1))" by simp
    with True Cons.IH show ?thesis by simp
  qed simp
qed simp

lemma funpow_tl: "(tl ^^ k) xs = drop k xs"
  by (induction k) (simp_all add: drop_Suc tl_drop)

lemma funpow_butlast: "(butlast ^^ k) xs = take (length xs - k) xs"
proof (induction k)
  case (Suc k)
  then show ?case by (simp add: butlast_take)
qed simp

lemma nths_interval: "nths xs {i. a \<le> i \<and> i \<le> b} = take (Suc b - a) (drop a xs)"
proof (induction xs arbitrary: a b rule: rev_induct)
  case (snoc x xs)
  have "nths (xs @ [x]) {i. a \<le> i \<and> i \<le> b}
      = nths xs {i. a \<le> i \<and> i \<le> b} @ nths [x] {i. i + length xs \<in> {i. a \<le> i \<and> i \<le> b}}"
    by (simp add: nths_append)
  also have "nths [x] {i. i + length xs \<in> {i. a \<le> i \<and> i \<le> b}}
      = (if a \<le> length xs \<and> length xs \<le> b then [x] else [])"
    by (simp add: nths_singleton)
  finally show ?case by (auto simp: snoc.IH)
qed simp

lemma nths_cong_set: "(\<And>i. i < length l \<Longrightarrow> i \<in> A \<longleftrightarrow> i \<in> B) \<Longrightarrow> nths l A = nths l B"
  unfolding nths_def by (rule arg_cong [of _ _ "map fst"], rule filter_cong) (auto dest: set_zip_rightD)

lemma range_positions_interval:
  assumes "normalizeRange start stop (int n) = (a, b)" and "0 < n"
  shows "i < n \<Longrightarrow> i \<in> range_positions start stop n \<longleftrightarrow> nat a \<le> i \<and> int i \<le> b"
    and "0 \<le> a" and "b < int n"
  using assms by (auto simp: normalizeRange_def range_positions_def Let_def split: if_splits)

lemma nths_range_positions:
  assumes norm: "normalizeRange start stop (int (length l)) = (a, b)" and ne: "l \<noteq> []"
  shows "nths l (range_positions start stop (length l)) =
    (if a > b then [] else take (nat (b - a + 1)) (drop (nat a) l))"
proof -
  have pos: "0 < length l" using ne by simp
  note iv = range_positions_interval [OF norm pos]
  have "nths l (range_positions start stop (length l)) =
      nths l (if a > b then {} else {i. nat a \<le> i \<and> i \<le> nat b})"
    by (rule nths_cong_set) (use iv in auto)
  also have "\<dots> = (if a > b then [] else take (Suc (nat b) - nat a) (drop (nat a) l))"
    by (simp add: nths_interval)
  also have "\<dots> = (if a > b then [] else take (nat (b - a + 1)) (drop (nat a) l))"
    using iv(2) by (auto intro!: arg_cong [of _ _ "\<lambda>k. take k _"])
  finally show ?thesis .
qed

text \<open>(C25) \<^verbatim>\<open>LRange\<close> returns exactly the elements whose position lies in the requested inclusive
  range (negative bounds counted from the end), in order, and a nil slice when there are none;
  \<^verbatim>\<open>LTrim\<close> keeps exactly the same elements.\<close>

theorem list_range_and_trim:
  "List_LRange l start stop =
     (let ys = nths l (range_positions start stop (length l)) in if ys = [] then None else Some ys)
   \<and> List_LTrim l start stop = nths l (range_positions start stop (length l))"
proof (cases "l = []")
  case True
  then show ?thesis by (simp add: List_LRange_def List_LTrim_def)
next
  case False
  obtain a b where norm: "normalizeRange start stop (int (length l)) = (a, b)" by fastforce
  have pos: "0 < length l" using False by simp
  note iv = range_positions_interval(2,3) [OF norm pos]
  note sel = nths_range_positions [OF norm False]
  show ?thesis
  proof (cases "a > b")
    case True
    with False norm sel show ?thesis by (simp add: List_LRange_def List_LTrim_def)
  next
    case le: False
    have "take (nat (b - a + 1)) (drop (nat a) l) \<noteq> []" using le iv by simp
    moreover have "length l - nat a - nat (int (length l) - (b + 1)) = nat (b - a + 1)"
      using le iv by linarith
    ultimately show ?thesis using False le norm sel
      by (simp add: List_LRange_def List_LTrim_def lrange_loop_take funpow_tl funpow_butlast)
  qed
qed

section \<open>Removal\<close>

lemma lrem_loop_split:
  assumes "lrem_loop v mx r xs = (zs, r')" and "r \<le> mx"
  shows "\<exists>ys ws. xs = ys @ ws \<and> zs = removeAll v ys @ ws \<and> r' = r + int (count_list ys v)
           \<and> r' = min mx (r + int (count_list xs v))"
  using assms
proof (induction xs arbitrary: r zs r')
  case (Cons x xs)
  show ?case
  proof (cases "r < mx")
    case False
    with Cons.prems show ?thesis by (intro exI [of _ "[]"] exI [of _ "x # xs"]) simp
  next
    case True
    obtain zs1 r1 where rec: "lrem_loop v mx (if x = v then r + 1 else r) xs = (zs1, r1)" by fastforce
    have bound: "(if x = v then r + 1 else r) \<le> mx" using True by simp
    obtain ys ws where "xs = ys @ ws" "zs1 = removeAll v ys @ ws"
      "r1 = (if x = v then r + 1 else r) + int (count_list ys v)"
      "r1 = min mx ((if x = v then r + 1 else r) + int (count_list xs v))"
      using Cons.IH [OF rec bound] by blast
    with rec True Cons.prems show ?thesis
      by (intro exI [of _ "x # ys"] exI [of _ ws]) (auto split: if_splits)
  qed
qed simp

lemma count_list_le_length: "count_list xs v \<le> length xs"
  by (induction xs) auto

lemma removeAll_rev: "removeAll v (rev ys) = rev (removeAll v ys)"
  by (simp add: filter_removeAll [symmetric] rev_filter del: filter_removeAll)

lemma count_list_rev_eq: "count_list (rev xs) v = count_list xs v"
  by (induction xs) auto

text \<open>(C26) \<^verbatim>\<open>LRem(count, value)\<close> removes the first \<^verbatim>\<open>count\<close> occurrences from the head when
  \<^verbatim>\<open>count\<close> is positive, the last \<^verbatim>\<open>-count\<close> from the tail when it is negative and all of them when
  it is zero, leaves every other element in place and reports how many went.  The excluded
  count is the one whose negation overflows.\<close>

theorem list_rem_spec:
  assumes res: "List_LRem l cnt v = (l', r)" and cnt: "in_i64 cnt" "cnt \<noteq> - (2 ^ 63)"
  shows "r = (if cnt = 0 then int (count_list l v) else min \<bar>cnt\<bar> (int (count_list l v)))
    \<and> (\<exists>ys ws. int (count_list ys v) = r
         \<and> (if cnt \<ge> 0 then l = ys @ ws \<and> l' = removeAll v ys @ ws
            else l = ws @ ys \<and> l' = ws @ removeAll v ys))"
proof (cases "l = []")
  case True
  with res show ?thesis by (auto simp: List_LRem_def intro!: exI [of _ "[]"])
next
  case ne: False
  have le: "int (count_list l v) \<le> int (length l)" by (simp add: count_list_le_length)
  show ?thesis
  proof (cases "cnt \<ge> 0")
    case True
    with res ne have loop: "lrem_loop v (if cnt = 0 then int (length l) else cnt) 0 l = (l', r)"
      by (simp add: List_LRem_def)
    have bound: "0 \<le> (if cnt = 0 then int (length l) else cnt)" using True by simp
    obtain ys ws where split: "l = ys @ ws" "l' = removeAll v ys @ ws" "r = 0 + int (count_list ys v)"
      "r = min (if cnt = 0 then int (length l) else cnt) (0 + int (count_list l v))"
      using lrem_loop_split [OF loop bound] by blast
    have "r = (if cnt = 0 then int (count_list l v) else min \<bar>cnt\<bar> (int (count_list l v)))"
      using split(4) True le by simp
    moreover have "int (count_list ys v) = r \<and>
        (if cnt \<ge> 0 then l = ys @ ws \<and> l' = removeAll v ys @ ws else l = ws @ ys \<and> l' = ws @ removeAll v ys)"
      using split(1-3) True by simp
    ultimately show ?thesis by blast
  next
    case False
    have neg: "i64 (- cnt) = - cnt" using cnt by (intro i64_id) (auto simp: in_i64_def)
    obtain bk where loop: "lrem_loop v (- cnt) 0 (rev l) = (bk, r)" and l': "l' = rev bk"
      using res ne False by (auto simp: List_LRem_def neg split: prod.splits)
    have bound: "0 \<le> - cnt" using False by simp
    obtain ys ws where split: "rev l = ys @ ws" "bk = removeAll v ys @ ws"
      "r = 0 + int (count_list ys v)" "r = min (- cnt) (0 + int (count_list (rev l) v))"
      using lrem_loop_split [OF loop bound] by blast
    then have l: "l = rev ws @ rev ys" by (metis rev_append rev_rev_ident)
    have "r = (if cnt = 0 then int (count_list l v) else min \<bar>cnt\<bar> (int (count_list l v)))"
      using split(4) False by (simp add: count_list_rev_eq)
    moreover have "int (count_list (rev ys) v) = r \<and>
        (if cnt \<ge> 0 then l = rev ys @ rev ws \<and> l' = removeAll v (rev ys) @ rev ws
         else l = rev ws @ rev ys \<and> l' = rev ws @ removeAll v (rev ys))"
      using split l l' False by (simp add: removeAll_rev count_list_rev_eq)
    ultimately show ?thesis by blast
  qed
qed

theorem list_rem_spec_witness:
  "List_LRem [''a'', ''b'', ''a'', ''a''] (-2) ''a'' = ([''a'', ''b''], 2)
   \<and> (\<exists>ys ws. int (count_list ys ''a'') = 2 \<and> [''a'', ''b'', ''a'', ''a''] = ws @ ys
        \<and> [''a'', ''b''] = ws @ removeAll ''a'' ys)"
proof -
  have h: "List_LRem [''a'', ''b'', ''a'', ''a''] (-2) ''a'' = ([''a'', ''b''], 2)"
    by (simp add: List_LRem_def i64_def)
  show ?thesis using h list_rem_spec [OF h] by (simp add: in_i64_def)
qed

section \<open>Positions\<close>

fun matches_from :: "gostring \<Rightarrow> int \<Rightarrow> int \<Rightarrow> golist \<Rightarrow> int list" where
  "matches_from v m i [] = []"
| "matches_from v m i (x # e) =
     (if i < m then (if x = v then i # matches_from v m (i + 1) e else matches_from v m (i + 1) e) else [])"

lemma lpos_loop_all:
  "lpos_loop v rank c True m found i P e = P @ drop (nat (rank - 1 - found)) (matches_from v m i e)"
proof (induction e arbitrary: found i P)
  case (Cons x e)
  have "found + 1 \<ge> rank \<Longrightarrow> nat (rank - 1 - found) = 0 \<and> nat (rank - 1 - (found + 1)) = 0"
    and "\<not> found + 1 \<ge> rank \<Longrightarrow> nat (rank - 1 - found) = Suc (nat (rank - 1 - (found + 1)))"
    by auto
  then show ?case by (cases "found + 1 \<ge> rank") (auto simp: Cons.IH)
qed simp

lemma lpos_loop_some:
  "0 \<le> c \<Longrightarrow> lpos_loop v rank c False m found i P e =
     P @ take (nat c - length P) (drop (nat (rank - 1 - found)) (matches_from v m i e))"
proof (induction e arbitrary: found i P)
  case (Cons x e)
  have "found + 1 \<ge> rank \<Longrightarrow> nat (rank - 1 - found) = 0 \<and> nat (rank - 1 - (found + 1)) = 0"
    and "\<not> found + 1 \<ge> rank \<Longrightarrow> nat (rank - 1 - found) = Suc (nat (rank - 1 - (found + 1)))"
    and "\<not> int (length P) \<ge> c \<Longrightarrow> nat c - length P = Suc (nat c - Suc (length P))"
    and "int (length P) \<ge> c \<Longrightarrow> nat c - length P = 0"
    using Cons.prems by auto
  then show ?case using Cons.prems
    by (cases "found + 1 \<ge> rank"; cases "int (length P) \<ge> c") (auto simp: Cons.IH)
qed simp

lemma matches_from_filter:
  "matches_from v m i e = map (\<lambda>j. i + int j) (filter (\<lambda>j. e ! j = v) [0..<min (nat (m - i)) (length e)])"
proof (induction e arbitrary: i)
  case (Cons x e)
  show ?case
  proof (cases "i < m")
    case True
    define k where "k = nat (m - (i + 1))"
    have k: "nat (m - i) = Suc k" "nat (m - (i + 1)) = k" using True by (simp_all add: k_def)
    have "[0..<Suc (min k (length e))] = 0 # map Suc [0..<min k (length e)]"
      by (simp add: upt_conv_Cons map_Suc_upt del: upt_Suc)
    with True k show ?thesis
      by (simp add: Cons.IH filter_map o_def algebra_simps del: upt_Suc)
  qed simp
qed simp

text \<open>\<^verbatim>\<open>LPos\<close> lists, in increasing order, the positions of \<^verbatim>\<open>value\<close> among the first
  \<^verbatim>\<open>maxLen\<close> elements (all of them when it is 0 or too large), skips the first \<^verbatim>\<open>rank - 1\<close> matches
  and returns at most \<^verbatim>\<open>count\<close> of the rest (0: all of them, negative: one).\<close>

theorem list_pos_spec:
  "List_LPos l v rank cnt maxLen =
     (let m = (if maxLen = 0 \<or> maxLen > int (length l) then length l else nat maxLen);
          ps = drop (nat (rank - 1)) (map int (filter (\<lambda>i. l ! i = v) [0..<m]))
      in if cnt = 0 then ps else take (if cnt < 0 then 1 else nat cnt) ps)"
proof -
  have "min (nat m) (length l) = (if m > int (length l) then length l else nat m)" for m by auto
  then show ?thesis
    by (auto simp: List_LPos_def lpos_loop_all lpos_loop_some matches_from_filter Let_def)
qed

end
