(* ===== verification/Shard.thy ===== *)
theory Shard
  imports Policy Ds_Set Ds_Hash Ds_List
begin

text \<open>
  \<^verbatim>\<open>entry.go\<close> and the key-value and key-management parts of \<^verbatim>\<open>shard.go\<close>.  A shard owns eight sub-shard
  slots, of which the first \<^verbatim>\<open>numSubs\<close> are filled; each filled one has its entries and its own
  eviction policy.  Every operation takes the instant \<open>now\<close> (Unix nanoseconds) at which it runs: the
  clock reads inside one operation give that instant.  A nil sub-shard is \<^term>\<open>None\<close>; using it is
  a panic.  Locks are not modelled: every operation holds the sub-shard's mutex while it reads or
  writes, so an operation on one sub-shard is atomic.

  The lemmas establish the shard invariant (keys sit in the sub-shard their hash selects, the
  policy tracks exactly the entries, no sub-shard exceeds its limit) and what each operation does
  to the entry stored under every key.
\<close>

section \<open>Entries\<close>

record cacheEntry =
  ce_value :: bytes
  expiresAt :: int

definition newEntry :: "int \<Rightarrow> bytes \<Rightarrow> int \<Rightarrow> cacheEntry" where
  "newEntry now value ttl =
     (let expires = (if ttl > 0 then i64 (now + ttl) else 0)
      in \<lparr>ce_value = value, expiresAt = expires\<rparr>)"

definition isExpired :: "int \<Rightarrow> cacheEntry \<Rightarrow> bool" where
  "isExpired now e = (if expiresAt e = 0 then False else now \<ge> expiresAt e)"

section \<open>Shards\<close>

definition subShardsPerShard :: nat where
  "subShardsPerShard = 8"

record subShard =
  entries :: "(gostring, cacheEntry) gomap"
  sub_policy :: policy

record shard =
  subs :: "subShard option list"
  numSubs :: nat
  maxSubSize :: int
  sets :: "(gostring, goset) gomap"
  hashes :: "(gostring, gohash) gomap"
  lists :: "(gostring, golist) gomap"

definition effectiveSubShards :: "int \<Rightarrow> nat" where
  "effectiveSubShards maxSize =
     (if maxSize \<le> 0 then subShardsPerShard
      else let n = nat (maxSize div 2);
               n = (if n < 1 then 1 else n);
               n = (if n > subShardsPerShard then subShardsPerShard else n)
           in n)"

definition newShard :: "policy \<Rightarrow> int \<Rightarrow> shard" where
  "newShard policyFactory maxSize =
     (let nSub = effectiveSubShards maxSize;
          subMax = go_div maxSize (int nSub);
          subMax = (if subMax < 1 \<and> maxSize > 0 then 1 else subMax)
      in \<lparr>subs = map (\<lambda>i. if i < nSub then Some \<lparr>entries = [], sub_policy = policyFactory\<rparr> else None)
                   [0..<subShardsPerShard],
          numSubs = nSub, maxSubSize = subMax, sets = [], hashes = [], lists = []\<rparr>)"

text \<open>FNV-1a, 32 bits, over the bytes of the key.\<close>

fun fnv_loop :: "32 word \<Rightarrow> gostring \<Rightarrow> 32 word" where
  "fnv_loop h [] = h"
| "fnv_loop h (c # cs) = fnv_loop ((h XOR of_char c) * 16777619) cs"

definition fnv1a :: "gostring \<Rightarrow> 32 word" where
  "fnv1a k = fnv_loop 2166136261 k"

definition subIndex :: "shard \<Rightarrow> gostring \<Rightarrow> nat" where
  "subIndex s k = unat (fnv1a k mod of_nat (numSubs s))"

text \<open>\<^verbatim>\<open>sub := s.subs[s.subIndex(key)]\<close> followed by the body of the operation on it.\<close>

definition with_sub :: "shard \<Rightarrow> gostring \<Rightarrow> (subShard \<Rightarrow> subShard \<times> 'a) \<Rightarrow> (shard \<times> 'a) go" where
  "with_sub s k body =
     (let idx = subIndex s k in
      if idx < length (subs s) then
        (case subs s ! idx of
           None \<Rightarrow> Panic
         | Some sub \<Rightarrow> let (sub, r) = body sub in Ret (s\<lparr>subs := (subs s)[idx := Some sub]\<rparr>, r))
      else Panic)"

text \<open>The sub-shards a loop over \<^verbatim>\<open>s.subs[i]\<close> visits.\<close>

fun deref_subs :: "subShard option list \<Rightarrow> subShard list go" where
  "deref_subs [] = Ret []"
| "deref_subs (None # ss) = Panic"
| "deref_subs (Some sub # ss) = go_bind (deref_subs ss) (\<lambda>r. Ret (sub # r))"

definition map_subs :: "(subShard \<Rightarrow> subShard) \<Rightarrow> shard \<Rightarrow> shard go" where
  "map_subs f s =
     go_bind (deref_subs (take (numSubs s) (subs s)))
       (\<lambda>act. Ret (s\<lparr>subs := map (\<lambda>x. Some (f x)) act @ drop (numSubs s) (subs s)\<rparr>))"

section \<open>Key-value operations\<close>

definition sub_remove :: "gostring \<Rightarrow> subShard \<Rightarrow> subShard" where
  "sub_remove k sub = sub\<lparr>entries := AList.delete k (entries sub), sub_policy := OnRemove k (sub_policy sub)\<rparr>"

definition sub_get :: "int \<Rightarrow> gostring \<Rightarrow> subShard \<Rightarrow> subShard \<times> bytes option" where
  "sub_get now k sub =
     (case map_of (entries sub) k of
        None \<Rightarrow> (sub, None)
      | Some entry \<Rightarrow> if isExpired now entry then (sub_remove k sub, None) else (sub, Some (ce_value entry)))"

definition shard_get :: "int \<Rightarrow> shard \<Rightarrow> gostring \<Rightarrow> (shard \<times> bytes option) go" where
  "shard_get now s k = with_sub s k (sub_get now k)"

text \<open>The eviction loop of \<^verbatim>\<open>Set\<close>, over the policy's \<^verbatim>\<open>Evict\<close> method.  The fuel is one more than the
  number of keys the policy tracks; every iteration that goes on untracks one.\<close>

fun evict_loop :: "('p \<Rightarrow> 'p \<times> gostring option) \<Rightarrow> nat \<Rightarrow> int \<Rightarrow> (gostring, 'v) gomap \<Rightarrow> 'p \<Rightarrow> gostring list
    \<Rightarrow> (gostring, 'v) gomap \<times> 'p \<times> gostring list" where
  "evict_loop ev 0 mx es p evicted = (es, p, evicted)"
| "evict_loop ev (Suc fuel) mx es p evicted =
     (if mx > 0 \<and> int (length es) > mx then
        (case ev p of
           (p, None) \<Rightarrow> (es, p, evicted)
         | (p, Some evictKey) \<Rightarrow> evict_loop ev fuel mx (AList.delete evictKey es) p (evicted @ [evictKey]))
      else (es, p, evicted))"

definition sub_Set :: "int \<Rightarrow> int \<Rightarrow> gostring \<Rightarrow> bytes \<Rightarrow> int \<Rightarrow> subShard \<Rightarrow> subShard \<times> gostring list" where
  "sub_Set now mx k value ttl sub =
     (let existed = map_of (entries sub) k \<noteq> None;
          es = AList.update k (newEntry now value ttl) (entries sub)
      in if existed then (sub\<lparr>entries := es, sub_policy := OnAccess k (sub_policy sub)\<rparr>, [])
         else let p = OnAdd k (sub_policy sub);
                  (es, p, evicted) = evict_loop Evict (Suc (nat (Policy_Len p))) mx es p []
              in (sub\<lparr>entries := es, sub_policy := p\<rparr>, evicted))"

definition shard_Set :: "int \<Rightarrow> shard \<Rightarrow> gostring \<Rightarrow> bytes \<Rightarrow> int \<Rightarrow> (shard \<times> gostring list) go" where
  "shard_Set now s k value ttl = with_sub s k (sub_Set now (maxSubSize s) k value ttl)"

definition sub_Del :: "gostring \<Rightarrow> subShard \<Rightarrow> subShard \<times> unit" where
  "sub_Del k sub = (if map_of (entries sub) k \<noteq> None then sub_remove k sub else sub, ())"

definition shard_Del :: "shard \<Rightarrow> gostring \<Rightarrow> shard go" where
  "shard_Del s k =
     go_bind (with_sub s k (sub_Del k))
       (\<lambda>(s, _). Ret (s\<lparr>sets := AList.delete k (sets s), hashes := AList.delete k (hashes s),
                        lists := AList.delete k (lists s)\<rparr>))"

definition shard_Len :: "int \<Rightarrow> shard \<Rightarrow> int go" where
  "shard_Len now s =
     go_bind (deref_subs (take (numSubs s) (subs s)))
       (\<lambda>act. Ret (sum_list (map (\<lambda>sub. int (length (filter (\<lambda>(k, e). \<not> isExpired now e) (entries sub)))) act)))"

text \<open>The range loop of \<^verbatim>\<open>cleanup\<close> removes the expired keys of the sub-shard in iteration order.\<close>

definition sub_expired :: "int \<Rightarrow> subShard \<Rightarrow> gostring list" where
  "sub_expired now sub = map fst (filter (\<lambda>(k, e). isExpired now e) (entries sub))"

definition sub_cleanup :: "(gostring list \<Rightarrow> gostring list) \<Rightarrow> int \<Rightarrow> subShard \<Rightarrow> subShard" where
  "sub_cleanup ord now sub = fold sub_remove (ord (sub_expired now sub)) sub"

definition cleanup :: "(gostring list \<Rightarrow> gostring list) \<Rightarrow> int \<Rightarrow> shard \<Rightarrow> (shard \<times> int) go" where
  "cleanup ord now s =
     go_bind (deref_subs (take (numSubs s) (subs s)))
       (\<lambda>act. go_bind (map_subs (sub_cleanup ord now) s)
         (\<lambda>s. Ret (s, sum_list (map (\<lambda>sub. int (length (sub_expired now sub))) act))))"

definition swapPolicy :: "(gostring list \<Rightarrow> gostring list) \<Rightarrow> policy \<Rightarrow> shard \<Rightarrow> shard go" where
  "swapPolicy ord newPolicyFunc s =
     map_subs (\<lambda>sub. sub\<lparr>sub_policy := fold OnAdd (ord (gm_keys (entries sub))) newPolicyFunc\<rparr>) s"

record rehash_item =
  Key :: gostring
  Value :: bytes
  TTL :: int

text \<open>The range loop of \<^verbatim>\<open>ExtractN\<close> over one sub-shard, from the keys still to visit.\<close>

fun extract_sub :: "int \<Rightarrow> int \<Rightarrow> gostring list \<Rightarrow> subShard \<Rightarrow> rehash_item list \<Rightarrow> subShard \<times> rehash_item list" where
  "extract_sub now n [] sub acc = (sub, acc)"
| "extract_sub now n (k # ks) sub acc =
     (case map_of (entries sub) k of
        None \<Rightarrow> extract_sub now n ks sub acc
      | Some e \<Rightarrow>
          if expiresAt e > 0 \<and> now \<ge> expiresAt e then extract_sub now n ks (sub_remove k sub) acc
          else
            let ttl = (if expiresAt e > 0 then sat64 (expiresAt e - now) else 0) in
            if expiresAt e > 0 \<and> ttl \<le> 0 then extract_sub now n ks (sub_remove k sub) acc
            else
              let acc = acc @ [\<lparr>Key = k, Value = ce_value e, TTL = ttl\<rparr>];
                  sub = sub_remove k sub
              in if int (length acc) \<ge> n then (sub, acc) else extract_sub now n ks sub acc)"

fun extract_subs :: "(gostring list \<Rightarrow> gostring list) \<Rightarrow> int \<Rightarrow> int \<Rightarrow> subShard option list \<Rightarrow> rehash_item list
    \<Rightarrow> (subShard option list \<times> rehash_item list) go" where
  "extract_subs ord now n [] acc = Ret ([], acc)"
| "extract_subs ord now n (slot # slots) acc =
     (if int (length acc) < n then
        (case slot of
           None \<Rightarrow> Panic
         | Some sub \<Rightarrow>
             let (sub, acc) = extract_sub now n (ord (gm_keys (entries sub))) sub acc
             in go_bind (extract_subs ord now n slots acc) (\<lambda>(slots, acc). Ret (Some sub # slots, acc)))
      else Ret (slot # slots, acc))"

definition ExtractN :: "(gostring list \<Rightarrow> gostring list) \<Rightarrow> int \<Rightarrow> shard \<Rightarrow> int \<Rightarrow> (shard \<times> rehash_item list) go" where
  "ExtractN ord now s n =
     (if n < 0 then Panic
      else go_bind (extract_subs ord now n (take subShardsPerShard (subs s)) [])
             (\<lambda>(ss, acc). Ret (s\<lparr>subs := ss @ drop subShardsPerShard (subs s)\<rparr>, acc)))"

section \<open>Key management\<close>

definition keyExists :: "int \<Rightarrow> shard \<Rightarrow> gostring \<Rightarrow> bool go" where
  "keyExists now s k =
     go_bind (with_sub s k (\<lambda>sub. (sub, map_of (entries sub) k)))
       (\<lambda>(_, e). Ret (
          if (case e of Some e \<Rightarrow> \<not> isExpired now e | None \<Rightarrow> False) then True
          else if map_of (sets s) k \<noteq> None then True
          else if map_of (hashes s) k \<noteq> None then True
          else map_of (lists s) k \<noteq> None))"

definition keyType :: "int \<Rightarrow> shard \<Rightarrow> gostring \<Rightarrow> byte go" where
  "keyType now s k =
     go_bind (with_sub s k (\<lambda>sub. (sub, map_of (entries sub) k)))
       (\<lambda>(_, e). Ret (
          if (case e of Some e \<Rightarrow> \<not> isExpired now e | None \<Rightarrow> False) then 1
          else if map_of (sets s) k \<noteq> None then 2
          else if map_of (hashes s) k \<noteq> None then 3
          else if map_of (lists s) k \<noteq> None then 4
          else 0))"

definition sub_expire :: "int \<Rightarrow> gostring \<Rightarrow> int \<Rightarrow> subShard \<Rightarrow> subShard \<times> bool" where
  "sub_expire now k ttl sub =
     (case map_of (entries sub) k of
        None \<Rightarrow> (sub, False)
      | Some e \<Rightarrow>
          if isExpired now e then (sub, False)
          else (sub\<lparr>entries := AList.update k (e\<lparr>expiresAt := i64 (now + ttl)\<rparr>) (entries sub)\<rparr>, True))"

definition shard_expire :: "int \<Rightarrow> shard \<Rightarrow> gostring \<Rightarrow> int \<Rightarrow> (shard \<times> bool) go" where
  "shard_expire now s k ttl = with_sub s k (sub_expire now k ttl)"

definition sub_persist :: "int \<Rightarrow> gostring \<Rightarrow> subShard \<Rightarrow> subShard \<times> bool" where
  "sub_persist now k sub =
     (case map_of (entries sub) k of
        None \<Rightarrow> (sub, False)
      | Some e \<Rightarrow>
          if isExpired now e then (sub, False)
          else (sub\<lparr>entries := AList.update k (e\<lparr>expiresAt := 0\<rparr>) (entries sub)\<rparr>, True))"

definition shard_persist :: "int \<Rightarrow> shard \<Rightarrow> gostring \<Rightarrow> (shard \<times> bool) go" where
  "shard_persist now s k = with_sub s k (sub_persist now k)"

definition sub_ttlSeconds :: "int \<Rightarrow> gostring \<Rightarrow> subShard \<Rightarrow> int" where
  "sub_ttlSeconds now k sub =
     (case map_of (entries sub) k of
        None \<Rightarrow> - 2
      | Some e \<Rightarrow>
          if expiresAt e \<le> 0 then - 1
          else let remaining = sat64 (expiresAt e - now) in
               if remaining \<le> 0 then - 2 else go_div remaining 1000000000)"

definition shard_ttlSeconds :: "int \<Rightarrow> shard \<Rightarrow> gostring \<Rightarrow> int go" where
  "shard_ttlSeconds now s k = go_bind (with_sub s k (\<lambda>sub. (sub, sub_ttlSeconds now k sub))) (\<lambda>(_, r). Ret r)"

definition sub_ttlMillis :: "int \<Rightarrow> gostring \<Rightarrow> subShard \<Rightarrow> int" where
  "sub_ttlMillis now k sub =
     (case map_of (entries sub) k of
        None \<Rightarrow> - 2
      | Some e \<Rightarrow>
          if expiresAt e \<le> 0 then - 1
          else let remaining = sat64 (expiresAt e - now) in
               if remaining \<le> 0 then - 2 else go_div remaining 1000000)"

definition shard_ttlMillis :: "int \<Rightarrow> shard \<Rightarrow> gostring \<Rightarrow> int go" where
  "shard_ttlMillis now s k = go_bind (with_sub s k (\<lambda>sub. (sub, sub_ttlMillis now k sub))) (\<lambda>(_, r). Ret r)"

text \<open>\<open>matches\<close> is \<^verbatim>\<open>filepath.Match(pattern, _)\<close>, with an error read as \<open>False\<close>.\<close>

definition matchKeys :: "(gostring list \<Rightarrow> gostring list) \<Rightarrow> int \<Rightarrow> (gostring \<Rightarrow> bool) \<Rightarrow> shard \<Rightarrow> gostring list go" where
  "matchKeys ord now matches s =
     go_bind (deref_subs (take (numSubs s) (subs s)))
       (\<lambda>act. Ret (
          concat (map (\<lambda>sub. filter (\<lambda>k. (case map_of (entries sub) k of Some e \<Rightarrow> \<not> isExpired now e | None \<Rightarrow> False)
                                        \<and> matches k) (ord (gm_keys (entries sub)))) act)
          @ filter matches (ord (gm_keys (sets s)))
          @ filter matches (ord (gm_keys (hashes s)))
          @ filter matches (ord (gm_keys (lists s)))))"

section \<open>The eviction loop, for any policy\<close>

context eviction_policy
begin

lemma evict_loop_fuel:
  "inv p \<Longrightarrow> nat (len p) < n \<Longrightarrow> evict_loop evict (Suc n) mx es p acc = evict_loop evict n mx es p acc"
proof (induction n arbitrary: es p acc)
  case (Suc n)
  show ?case
  proof (cases "evict p")
    case (Pair p' r)
    show ?thesis
    proof (cases r)
      case (Some k)
      have l: "inv p'" "len p' = len p - 1" "0 < len p" using evict_len [of p p' k] Suc.prems Pair Some by auto
      then have "nat (len p') < n" using Suc.prems by simp
      then have "evict_loop evict (Suc n) mx (AList.delete k es) p' (acc @ [k]) =
          evict_loop evict n mx (AList.delete k es) p' (acc @ [k])" by (rule Suc.IH [OF l(1)])
      then show ?thesis by (simp only: evict_loop.simps(2) [of _ "Suc n"] evict_loop.simps(2) [of _ n] Pair Some
            prod.case option.case)
    qed (simp add: Pair)
  qed
qed simp

lemma evict_loop_effect:
  "inv p \<Longrightarrow> gm_wf es \<Longrightarrow> evict_loop evict n mx es p acc = (es', p', acc') \<Longrightarrow>
     inv p' \<and> gm_wf es' \<and> tracked p' \<subseteq> tracked p \<and> (\<exists>out. acc' = acc @ out \<and> set out = tracked p - tracked p'
       \<and> (\<forall>k. map_of es' k = (if k \<in> set out then None else map_of es k)))"
proof (induction n arbitrary: es p acc)
  case (Suc n)
  show ?case
  proof (cases "mx > 0 \<and> int (length es) > mx")
    case True
    obtain q r where ev: "evict p = (q, r)" by fastforce
    show ?thesis
    proof (cases r)
      case None
      then have "es' = es" "p' = q" "acc' = acc" using Suc.prems(3) True ev by auto
      then show ?thesis using evict_None [of p q] Suc.prems ev None by auto
    next
      case (Some k)
      note e = evict_Some [OF Suc.prems(1), of q k, OF ev [unfolded Some]]
      have rec: "evict_loop evict n mx (AList.delete k es) q (acc @ [k]) = (es', p', acc')"
        using Suc.prems(3) True ev Some by simp
      from Suc.IH [OF _ _ rec] e Suc.prems(2) obtain out where o: "inv p'" "gm_wf es'" "tracked p' \<subseteq> tracked q"
        "acc' = (acc @ [k]) @ out" "set out = tracked q - tracked p'"
        "\<forall>k'. map_of es' k' = (if k' \<in> set out then None else map_of (AList.delete k es) k')" by auto
      have "set (k # out) = tracked p - tracked p'" using o e by auto
      moreover have "\<forall>k'. map_of es' k' = (if k' \<in> set (k # out) then None else map_of es k')" using o(6) by auto
      moreover have "acc' = acc @ (k # out)" using o(4) by simp
      ultimately show ?thesis using o e by blast
    qed
  qed (use Suc.prems in auto)
qed auto

lemma evict_loop_exit:
  "inv p \<Longrightarrow> nat (len p) < n \<Longrightarrow> evict_loop evict n mx es p acc = (es', p', acc') \<Longrightarrow>
     0 < mx \<Longrightarrow> int (length es') \<le> mx \<or> tracked p' = {}"
proof (induction n arbitrary: es p acc)
  case (Suc n)
  show ?case
  proof (cases "int (length es) > mx")
    case True
    obtain q r where ev: "evict p = (q, r)" by fastforce
    show ?thesis
    proof (cases r)
      case None
      then show ?thesis using evict_None [of p q] Suc.prems True ev by auto
    next
      case (Some k)
      then have l: "inv q" "nat (len q) < n" using evict_len [of p q k] ev Suc.prems(1,2) by auto
      show ?thesis using Suc.IH [OF l _ Suc.prems(4)] Suc.prems(3,4) True ev Some by simp
    qed
  qed (use Suc.prems in auto)
qed simp

end

context tracking_policy
begin

lemma evict_loop_tracked:
  assumes "inv p" "gm_wf es" "tracked p = set (gm_keys es)"
    and run: "evict_loop evict n mx es p acc = (es', p', acc')"
  shows "tracked p' = set (gm_keys es')"
proof -
  from evict_loop_effect [OF assms(1,2) run] obtain out where
    o: "tracked p' \<subseteq> tracked p" "set out = tracked p - tracked p'"
       "\<forall>k. map_of es' k = (if k \<in> set out then None else map_of es k)" by blast
  then show ?thesis using assms(3) by (auto simp: set_gm_keys dom_def split: if_splits)
qed

text \<open>When the policy tracks exactly the entries, the loop leaves at most \<open>mx\<close> of them.\<close>

lemma evict_loop_capacity:
  assumes "inv p" "gm_wf es" "tracked p = set (gm_keys es)" "0 < mx"
    and run: "evict_loop evict (Suc (nat (len p))) mx es p acc = (es', p', acc')"
  shows "int (length es') \<le> mx"
  using evict_loop_exit [OF assms(1) _ run assms(4)] evict_loop_tracked [OF assms(1-3) run] assms(4)
  by (auto simp: gm_keys_def)

end

section \<open>Invariant of a sub-shard\<close>

definition tracks :: "subShard \<Rightarrow> bool" where
  "tracks sub \<longleftrightarrow> policy_inv (sub_policy sub)
     \<and> (sub_policy sub = NoopPolicy \<or> policy_keys (sub_policy sub) = set (gm_keys (entries sub)))"

definition sub_wf :: "subShard \<Rightarrow> bool" where
  "sub_wf sub \<longleftrightarrow> gm_wf (entries sub) \<and> tracks sub
     \<and> (\<forall>k e. map_of (entries sub) k = Some e \<longrightarrow> in_i64 (expiresAt e))"

definition sub_capped :: "int \<Rightarrow> subShard \<Rightarrow> bool" where
  "sub_capped mx sub \<longleftrightarrow> (sub_policy sub \<noteq> NoopPolicy \<and> 0 < mx \<longrightarrow> int (length (entries sub)) \<le> mx)"

lemma sub_remove_simps [simp]:
  "map_of (entries (sub_remove k sub)) = (map_of (entries sub))(k := None)"
  "sub_policy (sub_remove k sub) = OnRemove k (sub_policy sub)"
  by (simp_all add: sub_remove_def)

lemma sub_remove_wf [simp]: "sub_wf sub \<Longrightarrow> sub_wf (sub_remove k sub)"
  using any_policy.remove [of "sub_policy sub" k]
  by (auto simp: sub_wf_def tracks_def set_gm_keys) (auto simp: sub_remove_def)

lemma sub_remove_capped: "sub_capped mx sub \<Longrightarrow> sub_capped mx (sub_remove k sub)"
  using length_delete_le [of k "entries sub"] by (auto simp: sub_capped_def sub_remove_def)

lemma sub_get_spec:
  assumes "sub_wf sub"
  shows "sub_wf (fst (sub_get now k sub))" and "sub_capped mx sub \<Longrightarrow> sub_capped mx (fst (sub_get now k sub))"
    and "snd (sub_get now k sub) =
      (case map_of (entries sub) k of Some e \<Rightarrow> if isExpired now e then None else Some (ce_value e) | None \<Rightarrow> None)"
    and "map_of (entries (fst (sub_get now k sub))) = (map_of (entries sub))(k :=
      (case map_of (entries sub) k of Some e \<Rightarrow> if isExpired now e then None else Some e | None \<Rightarrow> None))"
  using assms sub_remove_capped by (auto simp: sub_get_def fun_eq_iff split: option.splits)

lemma sub_Del_spec:
  assumes "sub_wf sub"
  shows "sub_wf (fst (sub_Del k sub))" and "sub_capped mx sub \<Longrightarrow> sub_capped mx (fst (sub_Del k sub))"
    and "map_of (entries (fst (sub_Del k sub))) = (map_of (entries sub))(k := None)"
  using assms sub_remove_capped by (auto simp: sub_Del_def fun_eq_iff)

lemma newEntry_i64 [simp]: "in_i64 (expiresAt (newEntry now v ttl))"
  by (simp add: newEntry_def Let_def) (simp add: in_i64_def)

text \<open>\<^verbatim>\<open>Set\<close> on a sub-shard: the new entry is stored, the keys returned as evicted are gone, every other
  entry is unchanged.\<close>

lemma sub_Set_spec:
  assumes wf: "sub_wf sub" and run: "sub_Set now mx k v ttl sub = (sub', ev)"
  shows "sub_wf sub'"
    and "map_of (entries sub') k' = (if k' \<in> set ev then None else ((map_of (entries sub))(k \<mapsto> newEntry now v ttl)) k')"
    and "set ev \<subseteq> insert k (set (gm_keys (entries sub)))"
    and "sub_capped mx sub \<Longrightarrow> sub_capped mx sub'"
    and "map_of (entries sub) k = None \<Longrightarrow> sub_capped mx sub'"
    and "(sub_policy sub' = NoopPolicy) = (sub_policy sub = NoopPolicy)"
    and "sub_policy sub = NoopPolicy \<Longrightarrow> ev = []"
proof -
  let ?es = "AList.update k (newEntry now v ttl) (entries sub)"
  have g: "gm_wf ?es" using wf by (simp add: sub_wf_def)
  have pi: "policy_inv (sub_policy sub)" using wf by (simp add: sub_wf_def tracks_def)
  have goal: "sub_wf sub' \<and> (\<forall>k'. map_of (entries sub') k' = (if k' \<in> set ev then None else ((map_of (entries sub))(k \<mapsto> newEntry now v ttl)) k'))
     \<and> set ev \<subseteq> insert k (set (gm_keys (entries sub))) \<and> (sub_capped mx sub \<longrightarrow> sub_capped mx sub')
     \<and> (map_of (entries sub) k = None \<longrightarrow> sub_capped mx sub')
     \<and> (sub_policy sub' = NoopPolicy) = (sub_policy sub = NoopPolicy) \<and> (sub_policy sub = NoopPolicy \<longrightarrow> ev = [])"
  proof (cases "map_of (entries sub) k")
    case (Some e)
    then have s': "sub' = sub\<lparr>entries := ?es, sub_policy := OnAccess k (sub_policy sub)\<rparr>" "ev = []"
      using run by (auto simp: sub_Set_def Let_def)
    have "length ?es = length (entries sub)" using Some by (simp add: length_gm_update)
    moreover have "set (gm_keys ?es) = set (gm_keys (entries sub))" using Some by (auto simp: set_gm_keys)
    ultimately show ?thesis
      using wf any_policy.access [OF pi, of k] Some g by (auto simp: s' sub_wf_def tracks_def sub_capped_def)
  next
    case None
    define p where "p = OnAdd k (sub_policy sub)"
    obtain es' p' where el: "evict_loop Evict (Suc (nat (Policy_Len p))) mx ?es p [] = (es', p', ev)"
      and s': "sub' = sub\<lparr>entries := es', sub_policy := p'\<rparr>"
      using run None by (auto simp: sub_Set_def Let_def p_def split: prod.splits)
    have p: "policy_inv p" using any_policy.add [OF pi] by (simp add: p_def)
    from any_policy.evict_loop_effect [OF p g el] have
      e: "policy_inv p'" "gm_wf es'" "policy_keys p' \<subseteq> policy_keys p" "set ev = policy_keys p - policy_keys p'"
         "\<forall>k. map_of es' k = (if k \<in> set ev then None else map_of ?es k)" by auto
    have i64: "in_i64 (expiresAt x)" if "map_of es' k' = Some x" for k' x
      using that e(5) wf by (auto simp: sub_wf_def split: if_splits)
    show ?thesis
    proof (cases "sub_policy sub = NoopPolicy")
      case True
      then have "es' = ?es" "p' = NoopPolicy" "ev = []" using el by (auto simp: p_def split: if_splits)
      then show ?thesis using True g i64 by (auto simp: s' sub_wf_def tracks_def sub_capped_def)
    next
      case False
      then have ti: "tracking_inv p" using p by (simp add: tracking_inv_def p_def)
      have ti0: "tracking_inv (sub_policy sub)" using False pi by (simp add: tracking_inv_def)
      have keys: "policy_keys p = set (gm_keys ?es)"
        using built_in.add_tracks [OF ti0, of k] wf False by (auto simp: p_def sub_wf_def tracks_def set_gm_keys)
      have tr: "policy_keys p' = set (gm_keys es')" by (rule built_in.evict_loop_tracked [OF ti g keys el])
      have ti': "tracking_inv p'" using built_in.evict_loop_effect [OF ti g el] by blast
      have cap: "sub_capped mx sub'"
        using built_in.evict_loop_capacity [OF ti g keys _ el] by (auto simp: sub_capped_def s')
      have "set ev \<subseteq> insert k (set (gm_keys (entries sub)))" using e(4) keys by (auto simp: set_gm_keys)
      then show ?thesis
        using cap e tr i64 ti' False by (auto simp: s' sub_wf_def tracks_def tracking_inv_def)
    qed
  qed
  show "sub_wf sub'" using goal by blast
  show "map_of (entries sub') k' = (if k' \<in> set ev then None else ((map_of (entries sub))(k \<mapsto> newEntry now v ttl)) k')"
    using goal by blast
  show "set ev \<subseteq> insert k (set (gm_keys (entries sub)))" using goal by blast
  show "sub_capped mx sub \<Longrightarrow> sub_capped mx sub'" using goal by blast
  show "map_of (entries sub) k = None \<Longrightarrow> sub_capped mx sub'" using goal by blast
  show "(sub_policy sub' = NoopPolicy) = (sub_policy sub = NoopPolicy)" using goal by blast
  show "sub_policy sub = NoopPolicy \<Longrightarrow> ev = []" using goal by blast
qed

lemma sub_update_wf:
  assumes "sub_wf sub" "map_of (entries sub) k = Some e" "in_i64 (expiresAt e')"
  shows "sub_wf (sub\<lparr>entries := AList.update k e' (entries sub)\<rparr>)"
    and "sub_capped mx sub \<Longrightarrow> sub_capped mx (sub\<lparr>entries := AList.update k e' (entries sub)\<rparr>)"
proof -
  have "set (gm_keys (AList.update k e' (entries sub))) = set (gm_keys (entries sub))"
    using assms(2) by (auto simp: set_gm_keys)
  then show "sub_wf (sub\<lparr>entries := AList.update k e' (entries sub)\<rparr>)"
    using assms by (auto simp: sub_wf_def tracks_def)
  show "sub_capped mx sub \<Longrightarrow> sub_capped mx (sub\<lparr>entries := AList.update k e' (entries sub)\<rparr>)"
    using assms(2) by (simp add: sub_capped_def length_gm_update)
qed

lemma sub_expire_spec:
  assumes "sub_wf sub"
  shows "sub_wf (fst (sub_expire now k ttl sub))"
    and "sub_capped mx sub \<Longrightarrow> sub_capped mx (fst (sub_expire now k ttl sub))"
    and "map_of (entries (fst (sub_expire now k ttl sub))) = (map_of (entries sub))(k :=
      (case map_of (entries sub) k of
         Some e \<Rightarrow> if isExpired now e then Some e else Some (e\<lparr>expiresAt := i64 (now + ttl)\<rparr>) | None \<Rightarrow> None))"
    and "snd (sub_expire now k ttl sub) \<longleftrightarrow> (\<exists>e. map_of (entries sub) k = Some e \<and> \<not> isExpired now e)"
  using assms sub_update_wf [OF assms]
  by (auto simp: sub_expire_def fun_eq_iff simp del: i64_id split: option.splits)

lemma sub_persist_spec:
  assumes "sub_wf sub"
  shows "sub_wf (fst (sub_persist now k sub))"
    and "sub_capped mx sub \<Longrightarrow> sub_capped mx (fst (sub_persist now k sub))"
    and "map_of (entries (fst (sub_persist now k sub))) = (map_of (entries sub))(k :=
      (case map_of (entries sub) k of
         Some e \<Rightarrow> if isExpired now e then Some e else Some (e\<lparr>expiresAt := 0\<rparr>) | None \<Rightarrow> None))"
    and "snd (sub_persist now k sub) \<longleftrightarrow> (\<exists>e. map_of (entries sub) k = Some e \<and> \<not> isExpired now e)"
  using assms sub_update_wf [OF assms]
  by (auto simp: sub_persist_def fun_eq_iff in_i64_def split: option.splits)

lemma removes_spec:
  "sub_wf sub \<Longrightarrow> sub_wf (fold sub_remove ks sub)
     \<and> map_of (entries (fold sub_remove ks sub)) = (\<lambda>k. if k \<in> set ks then None else map_of (entries sub) k)
     \<and> (sub_capped mx sub \<longrightarrow> sub_capped mx (fold sub_remove ks sub))"
  by (induction ks arbitrary: sub) (auto simp: sub_remove_capped fun_eq_iff)

lemma sub_cleanup_spec:
  assumes "sub_wf sub" and "iter_order ord"
  shows "sub_wf (sub_cleanup ord now sub)" and "sub_capped mx sub \<Longrightarrow> sub_capped mx (sub_cleanup ord now sub)"
    and "map_of (entries (sub_cleanup ord now sub)) = (\<lambda>k. case map_of (entries sub) k of
      Some e \<Rightarrow> if isExpired now e then None else Some e | None \<Rightarrow> None)"
proof -
  have g: "gm_wf (entries sub)" using assms(1) by (simp add: sub_wf_def)
  have mem: "k \<in> set (sub_expired now sub) \<longleftrightarrow> (\<exists>e. map_of (entries sub) k = Some e \<and> isExpired now e)" for k
    using g by (force simp: sub_expired_def gm_wf_def gm_keys_def)
  show "sub_wf (sub_cleanup ord now sub)" "sub_capped mx sub \<Longrightarrow> sub_capped mx (sub_cleanup ord now sub)"
    using removes_spec [OF assms(1)] by (auto simp: sub_cleanup_def)
  show "map_of (entries (sub_cleanup ord now sub)) = (\<lambda>k. case map_of (entries sub) k of
      Some e \<Rightarrow> if isExpired now e then None else Some e | None \<Rightarrow> None)"
    using removes_spec [OF assms(1)] iter_order_set [OF assms(2)]
    by (auto simp: sub_cleanup_def fun_eq_iff mem split: option.splits)
qed

text \<open>A policy as a factory returns it: it tracks nothing.\<close>

definition fresh_policy :: "policy \<Rightarrow> bool" where
  "fresh_policy p \<longleftrightarrow> policy_inv p \<and> policy_keys p = {}"

lemma fresh_built_in [simp]:
  "fresh_policy NoopPolicy" "fresh_policy (LRUPolicy NewLRU)" "fresh_policy (LFUPolicy NewLFU)"
  by (simp_all add: fresh_policy_def)

lemma adds_noop: "(fold OnAdd ks p = NoopPolicy) = (p = NoopPolicy)"
  by (induction ks arbitrary: p) auto

lemma swap_sub_wf:
  assumes "sub_wf sub" "iter_order ord" "fresh_policy np"
  shows "sub_wf (sub\<lparr>sub_policy := fold OnAdd (ord (gm_keys (entries sub))) np\<rparr>)"
proof (cases "np = NoopPolicy")
  case True
  then have "fold OnAdd (ord (gm_keys (entries sub))) np = NoopPolicy" by (simp add: adds_noop)
  then show ?thesis using assms(1) by (simp add: sub_wf_def tracks_def)
next
  case False
  then have "tracking_inv np" using assms(3) by (simp add: tracking_inv_def fresh_policy_def)
  from built_in.adds_tracked [OF this] show ?thesis
    using assms False by (simp add: sub_wf_def tracks_def tracking_inv_def fresh_policy_def iter_order_set)
qed

section \<open>Invariant of a shard\<close>

definition shard_lookup :: "shard \<Rightarrow> gostring \<Rightarrow> cacheEntry option" where
  "shard_lookup s k =
     (if subIndex s k < length (subs s)
      then (case subs s ! subIndex s k of Some sub \<Rightarrow> map_of (entries sub) k | None \<Rightarrow> None) else None)"

definition shard_wf :: "shard \<Rightarrow> bool" where
  "shard_wf s \<longleftrightarrow> 1 \<le> numSubs s \<and> numSubs s \<le> subShardsPerShard \<and> length (subs s) = subShardsPerShard
     \<and> (\<forall>i < subShardsPerShard. (subs s ! i \<noteq> None) = (i < numSubs s))
     \<and> (\<forall>i sub. i < numSubs s \<longrightarrow> subs s ! i = Some sub \<longrightarrow>
          sub_wf sub \<and> (\<forall>k\<in>set (gm_keys (entries sub)). subIndex s k = i))"

definition shard_capped :: "shard \<Rightarrow> bool" where
  "shard_capped s \<longleftrightarrow> (\<forall>sub. Some sub \<in> set (subs s) \<longrightarrow> sub_capped (maxSubSize s) sub)"

lemma unat_mod_word:
  fixes h :: "32 word"
  assumes "n < 2 ^ 32"
  shows "unat (h mod of_nat n) = unat h mod n"
  using assms by (simp add: unat_mod_distrib unsigned_of_nat take_bit_nat_eq_self)

lemma subIndex_less: "1 \<le> numSubs s \<Longrightarrow> numSubs s \<le> subShardsPerShard \<Longrightarrow> subIndex s k < numSubs s"
  by (simp add: subIndex_def subShardsPerShard_def unat_mod_word)

lemma subIndex_upd [simp]:
  "subIndex (s\<lparr>subs := x\<rparr>) k = subIndex s k" "subIndex (s\<lparr>sets := a\<rparr>) k = subIndex s k"
  "subIndex (s\<lparr>hashes := b\<rparr>) k = subIndex s k" "subIndex (s\<lparr>lists := c\<rparr>) k = subIndex s k"
  by (simp_all add: subIndex_def)

lemma shard_wf_typed [simp]:
  "shard_wf (s\<lparr>sets := a\<rparr>) = shard_wf s" "shard_wf (s\<lparr>hashes := b\<rparr>) = shard_wf s" "shard_wf (s\<lparr>lists := c\<rparr>) = shard_wf s"
  "shard_capped (s\<lparr>sets := a\<rparr>) = shard_capped s" "shard_capped (s\<lparr>hashes := b\<rparr>) = shard_capped s"
  "shard_capped (s\<lparr>lists := c\<rparr>) = shard_capped s"
  "shard_lookup (s\<lparr>sets := a\<rparr>) = shard_lookup s" "shard_lookup (s\<lparr>hashes := b\<rparr>) = shard_lookup s"
  "shard_lookup (s\<lparr>lists := c\<rparr>) = shard_lookup s"
  by (simp_all add: shard_wf_def shard_capped_def shard_lookup_def fun_eq_iff)

lemma shard_sub:
  assumes "shard_wf s"
  obtains sub where "subIndex s k < numSubs s" "subIndex s k < length (subs s)" "subs s ! subIndex s k = Some sub"
    "sub_wf sub" "\<forall>k'\<in>set (gm_keys (entries sub)). subIndex s k' = subIndex s k"
    "shard_lookup s k = map_of (entries sub) k"
proof -
  have i: "subIndex s k < numSubs s" using assms subIndex_less by (simp add: shard_wf_def)
  then obtain sub where "subs s ! subIndex s k = Some sub" using assms by (fastforce simp: shard_wf_def)
  then show ?thesis using assms i by (intro that [of sub]) (auto simp: shard_wf_def shard_lookup_def)
qed

text \<open>An operation on the sub-shard of a key, in terms of what it does to that sub-shard.\<close>

lemma with_sub_rule:
  assumes wf: "shard_wf s"
    and body: "\<And>sub. sub_wf sub \<Longrightarrow> sub_wf (fst (body sub)) \<and> set (gm_keys (entries (fst (body sub)))) \<subseteq> insert k (set (gm_keys (entries sub)))"
  obtains s' sub where "with_sub s k body = Ret (s', snd (body sub))" "shard_wf s'"
    "sub_wf sub" "subs s ! subIndex s k = Some sub" "shard_lookup s k = map_of (entries sub) k"
    "\<And>k'. shard_lookup s' k' =
       (if subIndex s k' = subIndex s k then map_of (entries (fst (body sub))) k' else shard_lookup s k')"
    "(\<And>sub. sub_wf sub \<Longrightarrow> sub_capped (maxSubSize s) sub \<Longrightarrow> sub_capped (maxSubSize s) (fst (body sub))) \<Longrightarrow>
       shard_capped s \<Longrightarrow> shard_capped s'"
    "numSubs s' = numSubs s" "maxSubSize s' = maxSubSize s" "sets s' = sets s" "hashes s' = hashes s" "lists s' = lists s"
    "\<forall>k'\<in>set (gm_keys (entries sub)). subIndex s k' = subIndex s k"
proof -
  obtain sub where sub: "subIndex s k < numSubs s" "subIndex s k < length (subs s)" "subs s ! subIndex s k = Some sub"
    "sub_wf sub" "\<forall>k'\<in>set (gm_keys (entries sub)). subIndex s k' = subIndex s k"
    "shard_lookup s k = map_of (entries sub) k" using shard_sub [OF wf] by blast
  define s' where "s' = s\<lparr>subs := (subs s)[subIndex s k := Some (fst (body sub))]\<rparr>"
  note b = body [OF sub(4)]
  have "with_sub s k body = Ret (s', snd (body sub))"
    using sub by (simp add: with_sub_def s'_def case_prod_beta)
  moreover have "shard_wf s'"
    using wf sub b unfolding shard_wf_def s'_def by (auto simp: nth_list_update)
  moreover have "shard_lookup s' k' =
      (if subIndex s k' = subIndex s k then map_of (entries (fst (body sub))) k' else shard_lookup s k')" for k'
    using sub by (auto simp: shard_lookup_def s'_def nth_list_update)
  moreover have "shard_capped s'" if "shard_capped s"
    "\<And>sub. sub_wf sub \<Longrightarrow> sub_capped (maxSubSize s) sub \<Longrightarrow> sub_capped (maxSubSize s) (fst (body sub))"
  proof -
    have "sub_capped (maxSubSize s) sub" using that(1) sub by (metis nth_mem shard_capped_def)
    then show ?thesis using that sub(4)
      by (auto simp: shard_capped_def s'_def dest!: subsetD [OF set_update_subset_insert])
  qed
  ultimately show ?thesis using that [of s' sub] sub by (simp add: s'_def)
qed

end
