(* ===== verification/Shard_Inv.thy ===== *)
theory Shard_Inv
  imports Shard
begin

text \<open>
  The operations of a shard on the map from keys to entries they maintain, and the shard's
  invariant: every operation returns (no nil sub-shard is touched), keeps the invariant, and
  changes the entries exactly as its name says.
\<close>

section \<open>Reading and updating one key\<close>

definition live :: "int \<Rightarrow> cacheEntry option \<Rightarrow> bytes option" where
  "live now eo = (case eo of Some e \<Rightarrow> if isExpired now e then None else Some (ce_value e) | None \<Rightarrow> None)"

definition purge :: "int \<Rightarrow> cacheEntry option \<Rightarrow> cacheEntry option" where
  "purge now eo = (case eo of Some e \<Rightarrow> if isExpired now e then None else Some e | None \<Rightarrow> None)"

text \<open>What no key-value operation touches.\<close>

definition same_frame :: "shard \<Rightarrow> shard \<Rightarrow> bool" where
  "same_frame s s' \<longleftrightarrow> numSubs s' = numSubs s \<and> maxSubSize s' = maxSubSize s
     \<and> sets s' = sets s \<and> hashes s' = hashes s \<and> lists s' = lists s"

lemma live_simps [simp]: "live now None = None" "purge now None = None"
  by (simp_all add: live_def purge_def)

lemma live_purge [simp]: "live now (purge now e) = live now e"
  by (auto simp: live_def purge_def split: option.splits)

lemma with_sub_upd:
  assumes wf: "shard_wf s"
    and body: "\<And>sub. sub_wf sub \<Longrightarrow> sub_wf (fst (body sub))"
    and eff: "\<And>sub. sub_wf sub \<Longrightarrow> map_of (entries (fst (body sub))) = (map_of (entries sub))(k := g (map_of (entries sub) k))"
    and res: "\<And>sub. sub_wf sub \<Longrightarrow> snd (body sub) = r (map_of (entries sub) k)"
    and cap: "\<And>sub. sub_wf sub \<Longrightarrow> sub_capped (maxSubSize s) sub \<Longrightarrow> sub_capped (maxSubSize s) (fst (body sub))"
  shows "\<exists>s'. with_sub s k body = Ret (s', r (shard_lookup s k)) \<and> shard_wf s'
     \<and> shard_lookup s' = (shard_lookup s)(k := g (shard_lookup s k)) \<and> (shard_capped s \<longrightarrow> shard_capped s')
     \<and> same_frame s s'"
proof -
  have b: "sub_wf (fst (body sub)) \<and> set (gm_keys (entries (fst (body sub)))) \<subseteq> insert k (set (gm_keys (entries sub)))"
    if "sub_wf sub" for sub
    using body [OF that] eff [OF that] by (auto simp: set_gm_keys dom_def split: if_splits)
  obtain s' sub where s': "with_sub s k body = Ret (s', snd (body sub))" "shard_wf s'"
    "sub_wf sub" "subs s ! subIndex s k = Some sub" "shard_lookup s k = map_of (entries sub) k"
    "\<And>k'. shard_lookup s' k' =
       (if subIndex s k' = subIndex s k then map_of (entries (fst (body sub))) k' else shard_lookup s k')"
    "shard_capped s \<Longrightarrow> shard_capped s'" "same_frame s s'"
    using with_sub_rule [OF wf b] cap unfolding same_frame_def by metis
  have len: "subIndex s k < length (subs s)" using shard_sub [OF wf] by blast
  have "shard_lookup s' k' = ((shard_lookup s)(k := g (shard_lookup s k))) k'" for k'
    using s'(6) [of k'] eff [OF s'(3)] s'(4,5) len by (auto simp: shard_lookup_def [of s k'])
  then show ?thesis using s' res [OF s'(3)] by auto
qed

lemma shard_get_spec:
  assumes "shard_wf s"
  shows "\<exists>s'. shard_get now s k = Ret (s', live now (shard_lookup s k)) \<and> shard_wf s'
     \<and> shard_lookup s' = (shard_lookup s)(k := purge now (shard_lookup s k)) \<and> (shard_capped s \<longrightarrow> shard_capped s')
     \<and> same_frame s s'"
  unfolding shard_get_def live_def purge_def
  by (rule with_sub_upd [OF assms]) (simp_all add: sub_get_spec)

lemma shard_expire_spec:
  assumes "shard_wf s"
  shows "\<exists>s'. shard_expire now s k ttl = Ret (s', purge now (shard_lookup s k) \<noteq> None) \<and> shard_wf s'
     \<and> shard_lookup s' = (shard_lookup s)(k := (case shard_lookup s k of
          Some e \<Rightarrow> if isExpired now e then Some e else Some (e\<lparr>expiresAt := i64 (now + ttl)\<rparr>) | None \<Rightarrow> None))
     \<and> (shard_capped s \<longrightarrow> shard_capped s') \<and> same_frame s s'"
  unfolding shard_expire_def purge_def
  by (rule with_sub_upd [OF assms]) (auto simp: sub_expire_spec split: option.splits)

lemma shard_persist_spec:
  assumes "shard_wf s"
  shows "\<exists>s'. shard_persist now s k = Ret (s', purge now (shard_lookup s k) \<noteq> None) \<and> shard_wf s'
     \<and> shard_lookup s' = (shard_lookup s)(k := (case shard_lookup s k of
          Some e \<Rightarrow> if isExpired now e then Some e else Some (e\<lparr>expiresAt := 0\<rparr>) | None \<Rightarrow> None))
     \<and> (shard_capped s \<longrightarrow> shard_capped s') \<and> same_frame s s'"
  unfolding shard_persist_def purge_def
  by (rule with_sub_upd [OF assms]) (auto simp: sub_persist_spec split: option.splits)

lemma shard_Del_spec:
  assumes "shard_wf s"
  shows "\<exists>s'. shard_Del s k = Ret s' \<and> shard_wf s' \<and> shard_lookup s' = (shard_lookup s)(k := None)
     \<and> (shard_capped s \<longrightarrow> shard_capped s') \<and> numSubs s' = numSubs s \<and> maxSubSize s' = maxSubSize s
     \<and> sets s' = AList.delete k (sets s) \<and> hashes s' = AList.delete k (hashes s) \<and> lists s' = AList.delete k (lists s)"
proof -
  have "\<exists>s'. with_sub s k (sub_Del k) = Ret (s', ()) \<and> shard_wf s'
     \<and> shard_lookup s' = (shard_lookup s)(k := None) \<and> (shard_capped s \<longrightarrow> shard_capped s') \<and> same_frame s s'"
    by (rule with_sub_upd [OF assms]) (simp_all add: sub_Del_spec)
  then show ?thesis by (auto simp: shard_Del_def same_frame_def)
qed

lemma shard_Set_spec:
  assumes wf: "shard_wf s"
  obtains s' ev where "shard_Set now s k v ttl = Ret (s', ev)" "shard_wf s'" "same_frame s s'"
    "\<And>k'. shard_lookup s' k' = (if k' \<in> set ev then None else ((shard_lookup s)(k \<mapsto> newEntry now v ttl)) k')"
    "shard_capped s \<Longrightarrow> shard_capped s'"
    "\<And>k'. k' \<in> set ev \<Longrightarrow> k' = k \<or> (shard_lookup s k' \<noteq> None \<and> subIndex s k' = subIndex s k)"
proof -
  let ?b = "sub_Set now (maxSubSize s) k v ttl"
  have b: "sub_wf (fst (?b sub)) \<and> set (gm_keys (entries (fst (?b sub)))) \<subseteq> insert k (set (gm_keys (entries sub)))"
    if "sub_wf sub" for sub
    using sub_Set_spec(1,2) [OF that, of now "maxSubSize s" k v ttl "fst (?b sub)" "snd (?b sub)"]
    by (auto simp: set_gm_keys dom_def split: if_splits)
  have c: "sub_capped (maxSubSize s) (fst (?b sub))" if "sub_wf sub" "sub_capped (maxSubSize s) sub" for sub
    using sub_Set_spec(4) [OF that(1), of now "maxSubSize s" k v ttl "fst (?b sub)" "snd (?b sub)"] that by simp
  obtain s' sub where s': "with_sub s k ?b = Ret (s', snd (?b sub))" "shard_wf s'"
    "sub_wf sub" "subs s ! subIndex s k = Some sub"
    "\<And>k'. shard_lookup s' k' =
       (if subIndex s k' = subIndex s k then map_of (entries (fst (?b sub))) k' else shard_lookup s k')"
    "shard_capped s \<Longrightarrow> shard_capped s'" "same_frame s s'"
    "\<forall>k'\<in>set (gm_keys (entries sub)). subIndex s k' = subIndex s k"
    using with_sub_rule [OF wf b] c unfolding same_frame_def by metis
  have len: "subIndex s k < length (subs s)" using shard_sub [OF wf] by blast
  let ?ev = "snd (?b sub)"
  have same: "shard_lookup s k' = map_of (entries sub) k'" if "subIndex s k' = subIndex s k" for k'
    using that s'(4) len by (simp add: shard_lookup_def)
  note sp = sub_Set_spec [OF s'(3), of now "maxSubSize s" k v ttl "fst (?b sub)" ?ev, OF surjective_pairing]
  have evi: "subIndex s k' = subIndex s k" if "k' \<in> set ?ev" for k'
    using sp(3) s'(8) that by blast
  have lk: "shard_lookup s' k' = (if k' \<in> set ?ev then None else ((shard_lookup s)(k \<mapsto> newEntry now v ttl)) k')" for k'
    using s'(5) [of k'] sp(2) [of k'] same [of k'] evi [of k'] by auto
  have "k' = k \<or> (shard_lookup s k' \<noteq> None \<and> subIndex s k' = subIndex s k)" if "k' \<in> set ?ev" for k'
    using sp(3) that evi [OF that] same [OF evi [OF that]] by (auto simp: set_gm_keys)
  then show ?thesis
    using that [of s' ?ev] s' lk by (simp add: shard_Set_def)
qed

section \<open>Operations on all sub-shards\<close>

lemma deref_subs_Some: "\<forall>x\<in>set xs. x \<noteq> None \<Longrightarrow> deref_subs xs = Ret (map the xs)"
  by (induction xs rule: deref_subs.induct) auto

lemma shard_active:
  assumes "shard_wf s"
  shows "deref_subs (take (numSubs s) (subs s)) = Ret (map the (take (numSubs s) (subs s)))"
    and "drop (numSubs s) (subs s) = replicate (subShardsPerShard - numSubs s) None"
proof -
  show "deref_subs (take (numSubs s) (subs s)) = Ret (map the (take (numSubs s) (subs s)))"
    using assms by (intro deref_subs_Some) (auto simp: shard_wf_def in_set_conv_nth)
  show "drop (numSubs s) (subs s) = replicate (subShardsPerShard - numSubs s) None"
  proof (intro nth_equalityI)
    fix i assume "i < length (drop (numSubs s) (subs s))"
    moreover have "length (subs s) = subShardsPerShard" using assms by (simp add: shard_wf_def)
    moreover have "subs s ! j = None" if "j < subShardsPerShard" "numSubs s \<le> j" for j
      using assms that unfolding shard_wf_def by (metis leD)
    ultimately show "drop (numSubs s) (subs s) ! i = replicate (subShardsPerShard - numSubs s) None ! i" by simp
  qed (use assms in \<open>simp add: shard_wf_def\<close>)
qed

lemma map_subs_eq:
  assumes "shard_wf s"
  shows "map_subs f s = Ret (s\<lparr>subs := map (map_option f) (subs s)\<rparr>)"
proof -
  have "map (\<lambda>x. Some (f x)) (map the (take (numSubs s) (subs s))) = map (map_option f) (take (numSubs s) (subs s))"
  proof -
    have "x \<noteq> None" if "x \<in> set (take (numSubs s) (subs s))" for x
      using assms that by (auto simp: shard_wf_def in_set_conv_nth)
    then show ?thesis by fastforce
  qed
  moreover have "drop (numSubs s) (subs s) = map (map_option f) (drop (numSubs s) (subs s))"
    using shard_active(2) [OF assms] by simp
  ultimately have "map (\<lambda>x. Some (f x)) (map the (take (numSubs s) (subs s))) @ drop (numSubs s) (subs s)
      = map (map_option f) (subs s)" by (metis append_take_drop_id map_append)
  then show ?thesis by (simp add: map_subs_def shard_active(1) [OF assms])
qed

lemma map_subs_wf:
  assumes "shard_wf s" and "\<And>sub. sub_wf sub \<Longrightarrow> sub_wf (f sub) \<and> set (gm_keys (entries (f sub))) \<subseteq> set (gm_keys (entries sub))"
  shows "shard_wf (s\<lparr>subs := map (map_option f) (subs s)\<rparr>)"
proof -
  have "sub_wf (f sub) \<and> (\<forall>k\<in>set (gm_keys (entries (f sub))). subIndex s k = i)"
    if "i < numSubs s" "subs s ! i = Some sub" for i sub
  proof -
    have "sub_wf sub" "\<forall>k\<in>set (gm_keys (entries sub)). subIndex s k = i"
      using assms(1) that unfolding shard_wf_def by simp_all
    with assms(2) [of sub] show ?thesis by blast
  qed
  then show ?thesis using assms(1) unfolding shard_wf_def by auto
qed

lemma map_subs_lookup:
  "shard_lookup (s\<lparr>subs := map (map_option f) (subs s)\<rparr>) k =
     (if subIndex s k < length (subs s)
      then (case subs s ! subIndex s k of Some sub \<Rightarrow> map_of (entries (f sub)) k | None \<Rightarrow> None) else None)"
  by (auto simp: shard_lookup_def split: option.splits)

lemma shard_wf_sub:
  assumes "shard_wf s" "Some sub \<in> set (subs s)"
  shows "sub_wf sub"
proof -
  obtain i where i: "i < length (subs s)" "subs s ! i = Some sub" using assms(2) by (auto simp: in_set_conv_nth)
  then have "i < numSubs s" using assms(1) unfolding shard_wf_def by (metis option.distinct(1))
  then show ?thesis using i assms(1) unfolding shard_wf_def by blast
qed

lemma cleanup_spec:
  assumes wf: "shard_wf s" and ord: "iter_order ord"
  shows "\<exists>s' n. cleanup ord now s = Ret (s', n) \<and> shard_wf s' \<and> shard_lookup s' = (\<lambda>k. purge now (shard_lookup s k))
     \<and> same_frame s s' \<and> (shard_capped s \<longrightarrow> shard_capped s')"
proof -
  define s' where "s' = s\<lparr>subs := map (map_option (sub_cleanup ord now)) (subs s)\<rparr>"
  have keys: "set (gm_keys (entries (sub_cleanup ord now sub))) \<subseteq> set (gm_keys (entries sub))" if "sub_wf sub" for sub
    using sub_cleanup_spec(3) [OF that ord] by (auto simp: set_gm_keys dom_def split: option.splits if_splits)
  have "shard_wf s'"
    unfolding s'_def using keys sub_cleanup_spec(1) [OF _ ord] by (intro map_subs_wf [OF wf]) auto
  moreover have "shard_lookup s' k = purge now (shard_lookup s k)" for k
  proof -
    obtain sub where "subIndex s k < length (subs s)" "subs s ! subIndex s k = Some sub" "sub_wf sub"
      "shard_lookup s k = map_of (entries sub) k" using shard_sub [OF wf] by blast
    then show ?thesis
      using sub_cleanup_spec(3) [OF _ ord, of sub now] by (simp add: s'_def map_subs_lookup purge_def)
  qed
  moreover have "shard_capped s'" if c: "shard_capped s"
    unfolding shard_capped_def
  proof (intro allI impI)
    fix sub assume "Some sub \<in> set (subs s')"
    then obtain sub0 where "Some sub0 \<in> set (subs s)" "sub = sub_cleanup ord now sub0"
      by (auto simp: s'_def map_option_eq_Some eq_commute [of "Some _"])
    then show "sub_capped (maxSubSize s') sub"
      using c sub_cleanup_spec(2) [OF shard_wf_sub [OF wf] ord] by (simp add: shard_capped_def s'_def)
  qed
  moreover have "same_frame s s'" by (simp add: same_frame_def s'_def)
  ultimately show ?thesis
    by (auto simp: cleanup_def shard_active(1) [OF wf] map_subs_eq [OF wf] s'_def [symmetric])
qed

lemma swapPolicy_spec:
  assumes wf: "shard_wf s" and ord: "iter_order ord" and np: "fresh_policy np"
  shows "\<exists>s'. swapPolicy ord np s = Ret s' \<and> shard_wf s' \<and> shard_lookup s' = shard_lookup s \<and> same_frame s s'"
proof -
  let ?f = "\<lambda>sub. sub\<lparr>sub_policy := fold OnAdd (ord (gm_keys (entries sub))) np\<rparr>"
  define s' where "s' = s\<lparr>subs := map (map_option ?f) (subs s)\<rparr>"
  have "shard_wf s'"
    unfolding s'_def using swap_sub_wf [OF _ ord np] by (intro map_subs_wf [OF wf]) auto
  moreover have "shard_lookup s' = shard_lookup s"
    by (rule ext) (auto simp: s'_def map_subs_lookup shard_lookup_def [of s] split: option.splits)
  ultimately show ?thesis by (auto simp: swapPolicy_def map_subs_eq [OF wf] s'_def same_frame_def)
qed

lemma newShard_spec:
  assumes "fresh_policy pf"
  shows "shard_wf (newShard pf mx)" "shard_capped (newShard pf mx)" "shard_lookup (newShard pf mx) k = None"
proof -
  have n: "1 \<le> effectiveSubShards mx" "effectiveSubShards mx \<le> subShardsPerShard"
    by (auto simp: effectiveSubShards_def Let_def subShardsPerShard_def)
  show "shard_wf (newShard pf mx)"
    using n assms by (auto simp: shard_wf_def newShard_def Let_def sub_wf_def tracks_def fresh_policy_def gm_wf_def gm_keys_def)
  show "shard_capped (newShard pf mx)"
    by (auto simp: shard_capped_def newShard_def Let_def sub_capped_def)
  show "shard_lookup (newShard pf mx) k = None"
    by (auto simp: shard_lookup_def newShard_def Let_def)
qed

section \<open>Extraction for rehashing\<close>

definition item_of :: "int \<Rightarrow> gostring \<Rightarrow> cacheEntry \<Rightarrow> rehash_item" where
  "item_of now k e =
     \<lparr>Key = k, Value = ce_value e, TTL = (if 0 < expiresAt e then expiresAt e - now else 0)\<rparr>"

text \<open>\<open>moved now m m' out\<close>: going from entries \<open>m\<close> to \<open>m'\<close>, some keys left; those that had not expired are
  in \<open>out\<close>, once each, with value and remaining lifetime.\<close>

definition moved :: "int \<Rightarrow> (gostring \<Rightarrow> cacheEntry option) \<Rightarrow> (gostring \<Rightarrow> cacheEntry option) \<Rightarrow> rehash_item list \<Rightarrow> bool" where
  "moved now m m' out \<longleftrightarrow> distinct (map Key out) \<and> (\<forall>k.
     (m' k = m k \<and> k \<notin> Key ` set out)
     \<or> (m' k = None \<and> (\<exists>e. m k = Some e \<and>
          (if 0 < expiresAt e \<and> expiresAt e \<le> now then k \<notin> Key ` set out else item_of now k e \<in> set out))))"

lemma moved_refl [simp]: "moved now m m []"
  by (simp add: moved_def)

lemma moved_cases:
  assumes "moved now m m' out"
  shows "(m' k = m k \<and> k \<notin> Key ` set out)
     \<or> (m' k = None \<and> (\<exists>e. m k = Some e \<and>
          (if 0 < expiresAt e \<and> expiresAt e \<le> now then k \<notin> Key ` set out else item_of now k e \<in> set out)))"
  using assms unfolding moved_def by blast

lemma moved_key:
  assumes "moved now m m' out" "k \<in> Key ` set out"
  shows "m' k = None" "m k \<noteq> None"
  using moved_cases [OF assms(1), of k] assms(2) by auto

lemma moved_trans:
  assumes a: "moved now m m1 out1" and b: "moved now m1 m2 out2"
  shows "moved now m m2 (out1 @ out2)"
proof -
  have "Key ` set out1 \<inter> Key ` set out2 = {}"
    using moved_key(1) [OF a] moved_key(2) [OF b] by blast
  then have "distinct (map Key (out1 @ out2))" using a b by (simp add: moved_def)
  moreover have "(m2 k = m k \<and> k \<notin> Key ` set (out1 @ out2))
     \<or> (m2 k = None \<and> (\<exists>e. m k = Some e \<and>
          (if 0 < expiresAt e \<and> expiresAt e \<le> now then k \<notin> Key ` set (out1 @ out2)
           else item_of now k e \<in> set (out1 @ out2))))" for k
    using moved_cases [OF a, of k] moved_cases [OF b, of k] by (auto split: if_splits)
  ultimately show ?thesis unfolding moved_def by blast
qed

lemma moved_drop:
  assumes "m k = Some e" "0 < expiresAt e" "expiresAt e \<le> now"
  shows "moved now m (m(k := None)) []"
  using assms by (auto simp: moved_def)

lemma moved_take:
  assumes "m k = Some e" "\<not> (0 < expiresAt e \<and> expiresAt e \<le> now)"
  shows "moved now m (m(k := None)) [item_of now k e]"
  using assms by (auto simp: moved_def item_of_def)

lemma extract_sub_spec:
  assumes "0 \<le> now"
  shows "sub_wf sub \<Longrightarrow> int (length acc) < n \<Longrightarrow> extract_sub now n ks sub acc = (sub', acc') \<Longrightarrow>
     \<exists>out. acc' = acc @ out \<and> int (length acc') \<le> n \<and> sub_wf sub'
     \<and> moved now (map_of (entries sub)) (map_of (entries sub')) out
     \<and> (int (length acc') < n \<longrightarrow> (\<forall>k\<in>set ks. map_of (entries sub') k = None))"
proof (induction ks arbitrary: sub acc)
  case Nil
  then show ?case by auto
next
  case (Cons k ks)
  show ?case
  proof (cases "map_of (entries sub) k")
    case None
    have rec: "extract_sub now n ks sub acc = (sub', acc')" using Cons.prems(3) None by simp
    from Cons.IH [OF Cons.prems(1,2) rec] obtain out where
      o: "acc' = acc @ out" "int (length acc') \<le> n" "sub_wf sub'"
         "moved now (map_of (entries sub)) (map_of (entries sub')) out"
         "int (length acc') < n \<longrightarrow> (\<forall>k\<in>set ks. map_of (entries sub') k = None)" by blast
    then show ?thesis using None moved_cases [OF o(4), of k] by auto
  next
    case (Some e)
    let ?sub = "sub_remove k sub"
    have wf: "sub_wf ?sub" using Cons.prems(1) by simp
    have gone: "map_of (entries sub') k = None" if "moved now (map_of (entries ?sub)) (map_of (entries sub')) out" for out
      using moved_cases [OF that, of k] by auto
    show ?thesis
    proof (cases "0 < expiresAt e \<and> expiresAt e \<le> now")
      case True
      have rec: "extract_sub now n ks ?sub acc = (sub', acc')" using Cons.prems(3) Some True by simp
      from Cons.IH [OF wf Cons.prems(2) rec] obtain out where
        o: "acc' = acc @ out" "int (length acc') \<le> n" "sub_wf sub'"
           "moved now (map_of (entries ?sub)) (map_of (entries sub')) out"
           "int (length acc') < n \<longrightarrow> (\<forall>k\<in>set ks. map_of (entries sub') k = None)" by blast
      have "moved now (map_of (entries sub)) (map_of (entries ?sub)) []"
        unfolding sub_remove_simps using Some True by (intro moved_drop) auto
      from moved_trans [OF this o(4)] show ?thesis using o(1-3,5) gone [OF o(4)] by auto
    next
      case False
      let ?ttl = "if 0 < expiresAt e then sat64 (expiresAt e - now) else 0" and ?acc = "acc @ [item_of now k e]"
      have "in_i64 (expiresAt e)" using Cons.prems(1) Some by (auto simp: sub_wf_def)
      then have sat: "sat64 (expiresAt e - now) = expiresAt e - now" if "now < expiresAt e"
        using that assms by (simp add: sat64_def in_i64_def)
      have it: "\<lparr>Key = k, Value = ce_value e, TTL = ?ttl\<rparr> = item_of now k e" using sat False by (auto simp: item_of_def)
      have ttl: "\<not> (0 < expiresAt e \<and> ?ttl \<le> 0)" using False sat by auto
      have step: "extract_sub now n (k # ks) sub acc =
          (if n \<le> int (length ?acc) then (?sub, ?acc) else extract_sub now n ks ?sub ?acc)"
        using Some False ttl it by (simp add: Let_def)
      have mv: "moved now (map_of (entries sub)) (map_of (entries ?sub)) [item_of now k e]"
        unfolding sub_remove_simps using Some False by (intro moved_take) auto
      show ?thesis
      proof (cases "n \<le> int (length ?acc)")
        case True
        then have "sub' = ?sub" "acc' = ?acc" using Cons.prems(3) unfolding step by auto
        moreover have "int (length ?acc) \<le> n" using Cons.prems(2) by simp
        ultimately show ?thesis using wf mv True by (intro exI [of _ "[item_of now k e]"]) (simp del: sub_remove_simps)
      next
        case le: False
        have rec: "extract_sub now n ks ?sub ?acc = (sub', acc')" using Cons.prems(3) le unfolding step by simp
        from Cons.IH [OF wf _ rec] le obtain out where
          o: "acc' = ?acc @ out" "int (length acc') \<le> n" "sub_wf sub'"
             "moved now (map_of (entries ?sub)) (map_of (entries sub')) out"
             "int (length acc') < n \<longrightarrow> (\<forall>k\<in>set ks. map_of (entries sub') k = None)" by fastforce
        show ?thesis using o(1-3,5) moved_trans [OF mv o(4)] gone [OF o(4)] by (intro exI [of _ "item_of now k e # out"]) simp
      qed
    qed
  qed
qed

lemma extract_sub_drains:
  assumes "0 \<le> now" "iter_order ord" "sub_wf sub" "int (length acc) < n"
    and "extract_sub now n (ord (gm_keys (entries sub))) sub acc = (sub', acc')"
  shows "\<exists>out. acc' = acc @ out \<and> int (length acc') \<le> n \<and> sub_wf sub'
     \<and> moved now (map_of (entries sub)) (map_of (entries sub')) out
     \<and> (int (length acc') < n \<longrightarrow> entries sub' = [])"
proof -
  from extract_sub_spec [OF assms(1,3-5)] obtain out where
    o: "acc' = acc @ out" "int (length acc') \<le> n" "sub_wf sub'"
       "moved now (map_of (entries sub)) (map_of (entries sub')) out"
       "int (length acc') < n \<longrightarrow> (\<forall>k\<in>set (ord (gm_keys (entries sub))). map_of (entries sub') k = None)" by blast
  have "map_of (entries sub') k = None" if "int (length acc') < n" for k
  proof (cases "k \<in> set (gm_keys (entries sub))")
    case True
    then show ?thesis using o(5) that iter_order_set [OF assms(2)] by blast
  next
    case False
    then show ?thesis using moved_cases [OF o(4), of k] by (auto simp: gm_keys_iff)
  qed
  then show ?thesis using o(1-4) gm_empty_iff [of "entries sub'"] by blast
qed

definition slot_map :: "subShard option \<Rightarrow> gostring \<Rightarrow> cacheEntry option" where
  "slot_map slot k = (case slot of Some sub \<Rightarrow> map_of (entries sub) k | None \<Rightarrow> None)"

lemma slot_map_Some [simp]: "slot_map (Some sub) = map_of (entries sub)"
  by (simp add: slot_map_def fun_eq_iff)

lemma extract_subs_spec:
  assumes now: "0 \<le> now" and ord: "iter_order ord"
  shows "\<forall>slot\<in>set slots. \<exists>sub. slot = Some sub \<and> sub_wf sub \<Longrightarrow> int (length acc) \<le> n \<Longrightarrow>
    \<exists>slots' outs. extract_subs ord now n slots acc = Ret (slots', acc @ concat outs)
      \<and> list_all2 (\<lambda>(slot, slot') out. moved now (slot_map slot) (slot_map slot') out) (zip slots slots') outs
      \<and> length slots' = length slots \<and> (\<forall>slot\<in>set slots'. \<exists>sub. slot = Some sub \<and> sub_wf sub)
      \<and> int (length (acc @ concat outs)) \<le> n
      \<and> (int (length (acc @ concat outs)) < n \<longrightarrow> (\<forall>slot\<in>set slots'. \<exists>sub. slot = Some sub \<and> entries sub = []))"
proof (induction slots arbitrary: acc)
  case Nil
  show ?case using Nil.prems by (intro exI [of _ "[]"]) simp
next
  case (Cons slot slots)
  show ?case
  proof (cases "int (length acc) < n")
    case False
    then have "extract_subs ord now n (slot # slots) acc = Ret (slot # slots, acc @ concat (replicate (length (slot # slots)) []))"
      by (simp add: concat_eq_Nil_conv [THEN iffD2])
    moreover have "list_all2 (\<lambda>(slot, slot') out. moved now (slot_map slot) (slot_map slot') out)
        (zip (slot # slots) (slot # slots)) (replicate (length (slot # slots)) [])"
      by (auto simp: list_all2_conv_all_nth nth_Cons')
    moreover have "concat (replicate (length (slot # slots)) []) = []" by simp
    ultimately show ?thesis using Cons.prems False by (metis append.right_neutral)
  next
    case True
    obtain sub where sub: "slot = Some sub" "sub_wf sub" using Cons.prems(1) by auto
    obtain sub' acc' where ex: "extract_sub now n (ord (gm_keys (entries sub))) sub acc = (sub', acc')" by fastforce
    from extract_sub_drains [OF now ord sub(2) True ex] obtain out where
      o: "acc' = acc @ out" "int (length acc') \<le> n" "sub_wf sub'"
         "moved now (map_of (entries sub)) (map_of (entries sub')) out"
         "int (length acc') < n \<longrightarrow> entries sub' = []" by blast
    from Cons.IH [of acc'] Cons.prems(1) o(2) obtain slots' outs where
      r: "extract_subs ord now n slots acc' = Ret (slots', acc' @ concat outs)"
         "list_all2 (\<lambda>(slot, slot') out. moved now (slot_map slot) (slot_map slot') out) (zip slots slots') outs"
         "length slots' = length slots" "\<forall>slot\<in>set slots'. \<exists>sub. slot = Some sub \<and> sub_wf sub"
         "int (length (acc' @ concat outs)) \<le> n"
         "int (length (acc' @ concat outs)) < n \<longrightarrow> (\<forall>slot\<in>set slots'. \<exists>sub. slot = Some sub \<and> entries sub = [])"
      by auto
    have "extract_subs ord now n (slot # slots) acc = Ret (Some sub' # slots', acc @ concat (out # outs))"
      using True sub(1) ex r(1) o(1) by simp
    then show ?thesis using o r sub
      by (intro exI [of _ "Some sub' # slots'"] exI [of _ "out # outs"]) auto
  qed
qed

lemma in_concat_nth: "x \<in> set (concat outs) \<longleftrightarrow> (\<exists>i<length outs. x \<in> set (outs ! i))"
  by (simp add: Bex_def) (metis in_set_conv_nth)

lemma distinct_concat_keys:
  assumes "\<And>i. i < length outs \<Longrightarrow> distinct (map Key (outs ! i))"
    and "\<And>i x. i < length outs \<Longrightarrow> x \<in> set (outs ! i) \<Longrightarrow> idx (Key x) = off + i"
  shows "distinct (map Key (concat outs))"
  using assms
proof (induction outs arbitrary: off)
  case (Cons out outs)
  have t: "idx (Key x) = off + Suc i" if "i < length outs" "x \<in> set (outs ! i)" for i x
    using Cons.prems(2) [of "Suc i" x] that by simp
  have far: "idx (Key x) \<noteq> off" if x: "x \<in> set (concat outs)" for x
  proof -
    obtain i where "i < length outs" "x \<in> set (outs ! i)" using x [unfolded in_concat_nth] by blast
    then show ?thesis using t [of i x] by simp
  qed
  have near: "idx (Key x) = off" if "x \<in> set out" for x using Cons.prems(2) [of 0 x] that by simp
  have "Key ` set out \<inter> Key ` set (concat outs) = {}"
  proof (rule ccontr)
    assume "\<not> ?thesis"
    then obtain x y where "x \<in> set out" "y \<in> set (concat outs)" "Key x = Key y" by blast
    then show False using near [of x] far [of y] by simp
  qed
  moreover have "distinct (map Key (concat outs))"
  proof (rule Cons.IH [of "Suc off"])
    show "distinct (map Key (outs ! i))" if "i < length outs" for i using Cons.prems(1) [of "Suc i"] that by simp
    show "idx (Key x) = Suc off + i" if "i < length outs" "x \<in> set (outs ! i)" for i x using t [OF that] by simp
  qed
  ultimately show ?case using Cons.prems(1) [of 0] by simp
qed simp

lemma moved_concat:
  assumes mv: "\<And>i. i < length outs \<Longrightarrow> moved now (ms i) (ms' i) (outs ! i)"
    and idx: "\<And>k. idx k < length outs" and m: "\<And>k. m k = ms (idx k) k" "\<And>k. m' k = ms' (idx k) k"
    and keys: "\<And>i x. i < length outs \<Longrightarrow> x \<in> set (outs ! i) \<Longrightarrow> idx (Key x) = i"
  shows "moved now m m' (concat outs)"
proof -
  have dist: "distinct (map Key (concat outs))"
  proof (rule distinct_concat_keys [where idx = idx and off = 0])
    show "distinct (map Key (outs ! i))" if "i < length outs" for i using mv [OF that] by (simp add: moved_def)
    show "idx (Key x) = 0 + i" if "i < length outs" "x \<in> set (outs ! i)" for i x using keys [OF that] by simp
  qed
  have sub: "x \<in> set (concat outs)" if "x \<in> set (outs ! idx k)" for x k
    using that idx [of k] in_concat_nth [of x outs] by blast
  have mem: "k \<in> Key ` set (concat outs) \<longleftrightarrow> k \<in> Key ` set (outs ! idx k)" for k
  proof
    assume "k \<in> Key ` set (concat outs)"
    then obtain x where x: "x \<in> set (concat outs)" "k = Key x" by (rule imageE)
    then obtain i where "i < length outs" "x \<in> set (outs ! i)" using in_concat_nth [of x outs] by blast
    then show "k \<in> Key ` set (outs ! idx k)" using keys [of i x] x(2) by simp
  next
    assume "k \<in> Key ` set (outs ! idx k)"
    then obtain x where "x \<in> set (outs ! idx k)" "k = Key x" by (rule imageE)
    then show "k \<in> Key ` set (concat outs)" using sub [of x k] by simp
  qed
  show ?thesis
    unfolding moved_def
  proof (intro conjI allI dist)
    fix k
    consider (keep) "m' k = m k" "k \<notin> Key ` set (outs ! idx k)"
      | (gone) e where "m' k = None" "m k = Some e" "0 < expiresAt e \<and> expiresAt e \<le> now" "k \<notin> Key ` set (outs ! idx k)"
      | (out) e where "m' k = None" "m k = Some e" "\<not> (0 < expiresAt e \<and> expiresAt e \<le> now)"
          "item_of now k e \<in> set (outs ! idx k)"
      using moved_cases [OF mv [OF idx [of k]], of k] unfolding m by (metis (full_types))
    then show "(m' k = m k \<and> k \<notin> Key ` set (concat outs))
     \<or> (m' k = None \<and> (\<exists>e. m k = Some e \<and>
          (if 0 < expiresAt e \<and> expiresAt e \<le> now then k \<notin> Key ` set (concat outs)
           else item_of now k e \<in> set (concat outs))))"
    proof cases
      case keep
      then show ?thesis unfolding mem by blast
    next
      case gone
      then show ?thesis unfolding mem by simp
    next
      case out
      have "if 0 < expiresAt e \<and> expiresAt e \<le> now then k \<notin> Key ` set (concat outs)
          else item_of now k e \<in> set (concat outs)"
        unfolding if_not_P [OF out(3)] by (rule sub [OF out(4)])
      then show ?thesis using out(1,2) by blast
    qed
  qed
qed

lemma ExtractN_spec:
  assumes wf: "shard_wf s" and full: "numSubs s = subShardsPerShard"
    and now: "0 \<le> now" and ord: "iter_order ord" and n: "0 \<le> n"
  shows "\<exists>s' out. ExtractN ord now s n = Ret (s', out) \<and> shard_wf s' \<and> same_frame s s'
     \<and> moved now (shard_lookup s) (shard_lookup s') out \<and> int (length out) \<le> n
     \<and> (int (length out) < n \<longrightarrow> shard_lookup s' = (\<lambda>_. None))"
proof -
  have len: "length (subs s) = subShardsPerShard" using wf by (simp add: shard_wf_def)
  have all: "\<forall>slot\<in>set (subs s). \<exists>sub. slot = Some sub \<and> sub_wf sub"
  proof
    fix slot assume m: "slot \<in> set (subs s)"
    then have "slot \<noteq> None" using wf full by (auto simp: shard_wf_def in_set_conv_nth)
    then show "\<exists>sub. slot = Some sub \<and> sub_wf sub" using shard_wf_sub [OF wf] m by auto
  qed
  from extract_subs_spec [OF now ord all, of "[]" n] n obtain slots' outs where
    r: "extract_subs ord now n (subs s) [] = Ret (slots', concat outs)"
       "list_all2 (\<lambda>(slot, slot') out. moved now (slot_map slot) (slot_map slot') out) (zip (subs s) slots') outs"
       "length slots' = length (subs s)" "\<forall>slot\<in>set slots'. \<exists>sub. slot = Some sub \<and> sub_wf sub"
       "int (length (concat outs)) \<le> n"
       "int (length (concat outs)) < n \<longrightarrow> (\<forall>slot\<in>set slots'. \<exists>sub. slot = Some sub \<and> entries sub = [])"
    by auto
  define s' where "s' = s\<lparr>subs := slots'\<rparr>"
  have lo: "length outs = length (subs s)" using r(2,3) by (auto dest: list_all2_lengthD)
  have mv: "moved now (slot_map (subs s ! i)) (slot_map (slots' ! i)) (outs ! i)" if "i < length (subs s)" for i
    using r(2) that r(3) by (auto simp: list_all2_conv_all_nth)
  have idx: "subIndex s k < length (subs s)" for k using shard_sub [OF wf, of k] by blast
  have lk: "shard_lookup s k = slot_map (subs s ! subIndex s k) k" "shard_lookup s' k = slot_map (slots' ! subIndex s k) k" for k
    using idx [of k] r(3) by (simp_all add: shard_lookup_def slot_map_def s'_def)
  have home: "subIndex s k = i" if ne: "slot_map (subs s ! i) k \<noteq> None" and il: "i < length (subs s)" for i k
  proof -
    obtain sub where "subs s ! i = Some sub" using ne by (cases "subs s ! i") (auto simp: slot_map_def)
    moreover have "i < numSubs s" using il full len by simp
    ultimately have "\<forall>k\<in>set (gm_keys (entries sub)). subIndex s k = i" using wf unfolding shard_wf_def by blast
    then show ?thesis using ne \<open>subs s ! i = Some sub\<close> by (simp add: gm_keys_iff)
  qed
  have keys: "subIndex s (Key x) = i" if "x \<in> set (outs ! i)" "i < length (subs s)" for i x
    using home moved_key(2) [OF mv [OF that(2)]] that by blast
  have "moved now (shard_lookup s) (shard_lookup s') (concat outs)"
    using mv idx lk keys unfolding lo [symmetric]
    by (intro moved_concat [where idx = "subIndex s" and ms = "\<lambda>i. slot_map (subs s ! i)" and ms' = "\<lambda>i. slot_map (slots' ! i)"])
  moreover have some: "subs s' ! i \<noteq> None" if "i < subShardsPerShard" for i
    using r(4) nth_mem [of i slots'] that r(3) len by (auto simp: s'_def)
  moreover have "shard_wf s'"
    unfolding shard_wf_def
  proof (intro conjI allI impI)
    show "1 \<le> numSubs s'" "numSubs s' \<le> subShardsPerShard" "length (subs s') = subShardsPerShard"
      using full len r(3) by (simp_all add: s'_def subShardsPerShard_def)
    show "(subs s' ! i \<noteq> None) = (i < numSubs s')" if "i < subShardsPerShard" for i
      using some [OF that] that full by (simp add: s'_def)
  next
    fix i sub assume i: "i < numSubs s'" "subs s' ! i = Some sub"
    then have il: "i < length (subs s)" "slots' ! i = Some sub" using full len by (simp_all add: s'_def)
    then have "Some sub \<in> set slots'" using r(3) by (metis nth_mem)
    then show "sub_wf sub" using r(4) by blast
    show "\<forall>k\<in>set (gm_keys (entries sub)). subIndex s' k = i"
    proof
      fix k assume "k \<in> set (gm_keys (entries sub))"
      then have "slot_map (slots' ! i) k \<noteq> None" using il by (simp add: gm_keys_iff)
      then have "slot_map (subs s ! i) k \<noteq> None" using moved_cases [OF mv [OF il(1)], of k] by auto
      then show "subIndex s' k = i" using home il by (simp add: s'_def)
    qed
  qed
  moreover have "shard_lookup s' = (\<lambda>_. None)" if few: "int (length (concat outs)) < n"
  proof
    fix k
    have "slots' ! subIndex s k \<in> set slots'" using idx [of k] r(3) by simp
    then obtain sub where "slots' ! subIndex s k = Some sub" "entries sub = []" using r(6) few by blast
    then show "shard_lookup s' k = None" using lk(2) [of k] by simp
  qed
  moreover have "ExtractN ord now s n = Ret (s', concat outs)"
    using r(1) n len by (simp add: ExtractN_def s'_def)
  moreover have "same_frame s s'" by (simp add: same_frame_def s'_def)
  ultimately show ?thesis using r(5) by blast
qed

end
