(* ===== verification/Shard_Typed.thy ===== *)
theory Shard_Typed
  imports Shard_Inv
begin

text \<open>
  The set, hash and list operations of \<^verbatim>\<open>shard.go\<close>.  They follow four patterns on the map from keys
  to containers: create the container on demand, change it and drop it when it is empty, change
  it in place, and read it.  The patterns are modelled once and the operations are instances; the
  locale \<open>container\<close> holds what follows for any container type, and is interpreted for sets,
  hashes and lists.
\<close>

section \<open>Patterns\<close>

definition on_demand :: "'c \<Rightarrow> ('c \<Rightarrow> 'c \<times> 'r) \<Rightarrow> gostring \<Rightarrow> (gostring, 'c) gomap \<Rightarrow> (gostring, 'c) gomap \<times> 'r" where
  "on_demand new f k m = (let (c, r) = f (the_default new (map_of m k)) in (AList.update k c m, r))"

definition drop_empty :: "('c \<Rightarrow> int) \<Rightarrow> 'r \<Rightarrow> ('c \<Rightarrow> 'c \<times> 'r) \<Rightarrow> gostring \<Rightarrow> (gostring, 'c) gomap
    \<Rightarrow> (gostring, 'c) gomap \<times> 'r" where
  "drop_empty len d f k m =
     (case map_of m k of
        None \<Rightarrow> (m, d)
      | Some c \<Rightarrow>
          let (c, r) = f c in (if len c = 0 then AList.delete k m else AList.update k c m, r))"

definition pop_from :: "('c \<Rightarrow> int) \<Rightarrow> ('c \<Rightarrow> 'c \<times> 'r option) \<Rightarrow> gostring \<Rightarrow> (gostring, 'c) gomap
    \<Rightarrow> (gostring, 'c) gomap \<times> 'r option" where
  "pop_from len f k m =
     (case map_of m k of
        None \<Rightarrow> (m, None)
      | Some c \<Rightarrow>
          (case f c of
             (c, None) \<Rightarrow> (AList.update k c m, None)
           | (c, Some e) \<Rightarrow> (if len c = 0 then AList.delete k m else AList.update k c m, Some e)))"

definition in_place :: "'r \<Rightarrow> ('c \<Rightarrow> 'c \<times> 'r) \<Rightarrow> gostring \<Rightarrow> (gostring, 'c) gomap \<Rightarrow> (gostring, 'c) gomap \<times> 'r" where
  "in_place d f k m =
     (case map_of m k of None \<Rightarrow> (m, d) | Some c \<Rightarrow> let (c, r) = f c in (AList.update k c m, r))"

definition read_at :: "'r \<Rightarrow> ('c \<Rightarrow> 'r) \<Rightarrow> gostring \<Rightarrow> (gostring, 'c) gomap \<Rightarrow> 'r" where
  "read_at d f k m = (case map_of m k of None \<Rightarrow> d | Some c \<Rightarrow> f c)"

definition with_sets :: "shard \<Rightarrow> ((gostring, goset) gomap \<Rightarrow> (gostring, goset) gomap \<times> 'r) \<Rightarrow> shard \<times> 'r" where
  "with_sets s f = (let (m, r) = f (sets s) in (s\<lparr>sets := m\<rparr>, r))"

definition with_hashes :: "shard \<Rightarrow> ((gostring, gohash) gomap \<Rightarrow> (gostring, gohash) gomap \<times> 'r) \<Rightarrow> shard \<times> 'r" where
  "with_hashes s f = (let (m, r) = f (hashes s) in (s\<lparr>hashes := m\<rparr>, r))"

definition with_lists :: "shard \<Rightarrow> ((gostring, golist) gomap \<Rightarrow> (gostring, golist) gomap \<times> 'r) \<Rightarrow> shard \<times> 'r" where
  "with_lists s f = (let (m, r) = f (lists s) in (s\<lparr>lists := m\<rparr>, r))"

section \<open>Set operations\<close>

definition sAdd :: "shard \<Rightarrow> gostring \<Rightarrow> gostring list \<Rightarrow> shard \<times> int" where
  "sAdd s k elems = with_sets s (on_demand Set_New (\<lambda>ss. Set_Add ss elems) k)"

definition sRem :: "shard \<Rightarrow> gostring \<Rightarrow> gostring list \<Rightarrow> shard \<times> int" where
  "sRem s k elems = with_sets s (drop_empty Set_Card 0 (\<lambda>ss. Set_Rem ss elems) k)"

definition sIsMember :: "shard \<Rightarrow> gostring \<Rightarrow> gostring \<Rightarrow> bool" where
  "sIsMember s k elem = read_at False (\<lambda>ss. Set_IsMember ss elem) k (sets s)"

definition sMembers :: "(gostring list \<Rightarrow> gostring list) \<Rightarrow> shard \<Rightarrow> gostring \<Rightarrow> gostring list option" where
  "sMembers ord s k = read_at None (\<lambda>ss. Some (Set_Members ord ss)) k (sets s)"

definition sCard :: "shard \<Rightarrow> gostring \<Rightarrow> int" where
  "sCard s k = read_at 0 Set_Card k (sets s)"

definition sPop :: "(gostring list \<Rightarrow> gostring list) \<Rightarrow> (nat \<Rightarrow> nat \<Rightarrow> nat) \<Rightarrow> shard \<Rightarrow> gostring \<Rightarrow> shard \<times> gostring option" where
  "sPop ord intn s k = with_sets s (pop_from Set_Card (Set_Pop ord intn) k)"

definition sRandMember :: "(gostring list \<Rightarrow> gostring list) \<Rightarrow> (nat \<Rightarrow> nat \<Rightarrow> nat) \<Rightarrow> (nat \<Rightarrow> nat list) \<Rightarrow> shard \<Rightarrow> gostring
    \<Rightarrow> int \<Rightarrow> gostring list option go" where
  "sRandMember ord intn perm s k cnt = read_at (Ret None) (\<lambda>ss. Set_RandMember ord intn perm ss cnt) k (sets s)"

definition getSet :: "shard \<Rightarrow> gostring \<Rightarrow> goset option" where
  "getSet s k = map_of (sets s) k"

section \<open>Hash operations\<close>

definition hSet :: "shard \<Rightarrow> gostring \<Rightarrow> gostring \<Rightarrow> gostring \<Rightarrow> shard \<times> int" where
  "hSet s k field value = with_hashes s (on_demand Hash_New (\<lambda>h. Hash_HSet h field value) k)"

definition hSetNX :: "shard \<Rightarrow> gostring \<Rightarrow> gostring \<Rightarrow> gostring \<Rightarrow> shard \<times> bool" where
  "hSetNX s k field value = with_hashes s (on_demand Hash_New (\<lambda>h. Hash_HSetNX h field value) k)"

definition hGet :: "shard \<Rightarrow> gostring \<Rightarrow> gostring \<Rightarrow> gostring option" where
  "hGet s k field = read_at None (\<lambda>h. Hash_HGet h field) k (hashes s)"

definition hDel :: "shard \<Rightarrow> gostring \<Rightarrow> gostring list \<Rightarrow> shard \<times> int" where
  "hDel s k fs = with_hashes s (drop_empty Hash_HLen 0 (\<lambda>h. Hash_HDel h fs) k)"

definition hExists :: "shard \<Rightarrow> gostring \<Rightarrow> gostring \<Rightarrow> bool" where
  "hExists s k field = read_at False (\<lambda>h. Hash_HExists h field) k (hashes s)"

definition hGetAll :: "shard \<Rightarrow> gostring \<Rightarrow> gohash option" where
  "hGetAll s k = read_at None (\<lambda>h. Some (Hash_HGetAll h)) k (hashes s)"

definition hKeys :: "(gostring list \<Rightarrow> gostring list) \<Rightarrow> shard \<Rightarrow> gostring \<Rightarrow> gostring list option" where
  "hKeys ord s k = read_at None (\<lambda>h. Some (Hash_HKeys ord h)) k (hashes s)"

definition hVals :: "(gostring list \<Rightarrow> gostring list) \<Rightarrow> shard \<Rightarrow> gostring \<Rightarrow> gostring list option" where
  "hVals ord s k = read_at None (\<lambda>h. Some (Hash_HVals ord h)) k (hashes s)"

definition hLen :: "shard \<Rightarrow> gostring \<Rightarrow> int" where
  "hLen s k = read_at 0 Hash_HLen k (hashes s)"

definition hStrLen :: "shard \<Rightarrow> gostring \<Rightarrow> gostring \<Rightarrow> int" where
  "hStrLen s k field = read_at 0 (\<lambda>h. Hash_HStrLen h field) k (hashes s)"

definition hIncrBy :: "shard \<Rightarrow> gostring \<Rightarrow> gostring \<Rightarrow> int \<Rightarrow> shard \<times> (num_error + int)" where
  "hIncrBy s k field delta = with_hashes s (on_demand Hash_New (\<lambda>h. Hash_HIncrBy h field delta) k)"

definition hIncrByFloat :: "'f float64_ops \<Rightarrow> shard \<Rightarrow> gostring \<Rightarrow> gostring \<Rightarrow> 'f \<Rightarrow> shard \<times> (num_error + 'f)" where
  "hIncrByFloat fl s k field delta = with_hashes s (on_demand Hash_New (\<lambda>h. Hash_HIncrByFloat fl h field delta) k)"

definition hmGet :: "shard \<Rightarrow> gostring \<Rightarrow> gostring list \<Rightarrow> gostring option list" where
  "hmGet s k fs = read_at (replicate (length fs) None) (\<lambda>h. Hash_HMGet h fs) k (hashes s)"

definition hmSet :: "shard \<Rightarrow> gostring \<Rightarrow> gostring list \<Rightarrow> shard" where
  "hmSet s k fvPairs = fst (with_hashes s (on_demand Hash_New (\<lambda>h. (Hash_HMSet h fvPairs, ())) k))"

section \<open>List operations\<close>

definition lPush :: "shard \<Rightarrow> gostring \<Rightarrow> gostring list \<Rightarrow> shard \<times> int" where
  "lPush s k elems = with_lists s (on_demand List_New (\<lambda>l. List_LPush l elems) k)"

definition rPush :: "shard \<Rightarrow> gostring \<Rightarrow> gostring list \<Rightarrow> shard \<times> int" where
  "rPush s k elems = with_lists s (on_demand List_New (\<lambda>l. List_RPush l elems) k)"

definition lPop :: "shard \<Rightarrow> gostring \<Rightarrow> shard \<times> gostring option" where
  "lPop s k = with_lists s (pop_from List_LLen List_LPop k)"

definition rPop :: "shard \<Rightarrow> gostring \<Rightarrow> shard \<times> gostring option" where
  "rPop s k = with_lists s (pop_from List_LLen List_RPop k)"

definition lLen :: "shard \<Rightarrow> gostring \<Rightarrow> int" where
  "lLen s k = read_at 0 List_LLen k (lists s)"

definition lRange :: "shard \<Rightarrow> gostring \<Rightarrow> int \<Rightarrow> int \<Rightarrow> gostring list option" where
  "lRange s k start stop = read_at None (\<lambda>l. List_LRange l start stop) k (lists s)"

definition lIndex :: "shard \<Rightarrow> gostring \<Rightarrow> int \<Rightarrow> gostring option" where
  "lIndex s k index = read_at None (\<lambda>l. List_LIndex l index) k (lists s)"

definition lSet :: "shard \<Rightarrow> gostring \<Rightarrow> int \<Rightarrow> gostring \<Rightarrow> shard \<times> bool" where
  "lSet s k index value = with_lists s (in_place False (\<lambda>l. List_LSet l index value) k)"

definition lRem :: "shard \<Rightarrow> gostring \<Rightarrow> int \<Rightarrow> gostring \<Rightarrow> shard \<times> int" where
  "lRem s k cnt value = with_lists s (drop_empty List_LLen 0 (\<lambda>l. List_LRem l cnt value) k)"

definition lTrim :: "shard \<Rightarrow> gostring \<Rightarrow> int \<Rightarrow> int \<Rightarrow> shard" where
  "lTrim s k start stop = fst (with_lists s (drop_empty List_LLen () (\<lambda>l. (List_LTrim l start stop, ())) k))"

definition lInsert :: "shard \<Rightarrow> gostring \<Rightarrow> bool \<Rightarrow> gostring \<Rightarrow> gostring \<Rightarrow> shard \<times> int" where
  "lInsert s k before pivot value = with_lists s (in_place 0 (\<lambda>l. List_LInsert l before pivot value) k)"

definition lPos :: "shard \<Rightarrow> gostring \<Rightarrow> gostring \<Rightarrow> int \<Rightarrow> int \<Rightarrow> int \<Rightarrow> int list" where
  "lPos s k value rank cnt maxLen = read_at [] (\<lambda>l. List_LPos l value rank cnt maxLen) k (lists s)"

end
