(* ===== verification/Rehash.thy ===== *)
theory Rehash
  imports Shard_Typed
begin

text \<open>
  \<^verbatim>\<open>rehash/\<close>: the strategies that move entries from an old shard table to a new one.  A rehasher
  holds the old table while it runs; \<^verbatim>\<open>oldShards == nil\<close> is \<^term>\<open>None\<close>.  The steps are modelled in
  sequential use: between the two critical sections of \<^verbatim>\<open>Step\<close> nothing else runs, so the second check of
  \<^verbatim>\<open>rehashing\<close> and of \<^verbatim>\<open>rehashIdx\<close> sees the values the first critical section saw.
\<close>

record rehash_state =
  rehashing :: bool
  oldShards :: "shard list option"
  oldMask :: "32 word"
  rehashIdx :: nat
  batchSize :: int

datatype rehasher = IncrementalRehasher rehash_state | BatchRehasher rehash_state | NoopRehasher

definition NewIncrementalRehasher :: rehasher where
  "NewIncrementalRehasher =
     IncrementalRehasher \<lparr>rehashing = False, oldShards = None, oldMask = 0, rehashIdx = 0, batchSize = 16\<rparr>"

definition NewBatchRehasher :: rehasher where
  "NewBatchRehasher =
     BatchRehasher \<lparr>rehashing = False, oldShards = None, oldMask = 0, rehashIdx = 0, batchSize = 0\<rparr>"

type_synonym rehash_registry = "(gostring, rehasher) gomap"

definition rehashRegistry :: rehash_registry where
  "rehashRegistry =
     [(''incremental'', NewIncrementalRehasher), (''batch'', NewBatchRehasher), (''noop'', NoopRehasher)]"

definition rehash_Register :: "gostring \<Rightarrow> rehasher option \<Rightarrow> rehash_registry \<Rightarrow> rehash_registry \<times> gerror option" where
  "rehash_Register name factory reg =
     (case factory of
        None \<Rightarrow> (reg, Some ErrUnknownRehasher)
      | Some f \<Rightarrow> if name = [] then (reg, Some ErrUnknownRehasher) else (AList.update name f reg, None))"

definition GetFactory :: "rehash_registry \<Rightarrow> gostring \<Rightarrow> rehasher result" where
  "GetFactory reg name = (case map_of reg name of None \<Rightarrow> Inl ErrUnknownRehasher | Some f \<Rightarrow> Inr f)"

definition OldShardIndex :: "gostring \<Rightarrow> 32 word \<Rightarrow> nat" where
  "OldShardIndex k msk = unat (fnv1a k AND msk)"

fun Rehasher_Name :: "rehasher \<Rightarrow> gostring" where
  "Rehasher_Name (IncrementalRehasher r) = ''incremental''"
| "Rehasher_Name (BatchRehasher r) = ''batch''"
| "Rehasher_Name NoopRehasher = ''noop''"

definition Incremental_Start :: "shard list \<Rightarrow> 32 word \<Rightarrow> rehash_state \<Rightarrow> rehash_state" where
  "Incremental_Start old msk r = r\<lparr>oldShards := Some old, oldMask := msk, rehashIdx := 0, rehashing := True\<rparr>"

definition Batch_Start :: "shard list \<Rightarrow> 32 word \<Rightarrow> rehash_state \<Rightarrow> rehash_state" where
  "Batch_Start old msk r = r\<lparr>oldShards := Some old, oldMask := msk, rehashing := True\<rparr>"

fun Rehasher_Start :: "shard list \<Rightarrow> 32 word \<Rightarrow> rehasher \<Rightarrow> rehasher" where
  "Rehasher_Start old msk (IncrementalRehasher r) = IncrementalRehasher (Incremental_Start old msk r)"
| "Rehasher_Start old msk (BatchRehasher r) = BatchRehasher (Batch_Start old msk r)"
| "Rehasher_Start old msk NoopRehasher = NoopRehasher"

text \<open>\<^verbatim>\<open>newShards[indexFunc(it.Key)].Set(it.Key, it.Value, it.TTL)\<close> for every item; the evicted keys are
  dropped.\<close>

fun migrate_loop :: "int \<Rightarrow> (gostring \<Rightarrow> nat) \<Rightarrow> rehash_item list \<Rightarrow> shard list \<Rightarrow> shard list go" where
  "migrate_loop now indexFunc [] newShards = Ret newShards"
| "migrate_loop now indexFunc (it # its) newShards =
     (let i = indexFunc (Key it) in
      if i < length newShards then
        go_bind (shard_Set now (newShards ! i) (Key it) (Value it) (TTL it))
          (\<lambda>(s, evicted). migrate_loop now indexFunc its (newShards[i := s]))
      else Panic)"

text \<open>Result of a step: the rehasher, the new shards, \<open>done\<close>, \<open>justCompleted\<close>.\<close>

definition Incremental_Step :: "(gostring list \<Rightarrow> gostring list) \<Rightarrow> int \<Rightarrow> (gostring \<Rightarrow> nat) \<Rightarrow> rehash_state \<Rightarrow> shard list
    \<Rightarrow> (rehash_state \<times> shard list \<times> bool \<times> bool) go" where
  "Incremental_Step ord now indexFunc r newShards =
     (if \<not> rehashing r then Ret (r, newShards, True, False)
      else
        (let idx = rehashIdx r in
         case oldShards r of
           None \<Rightarrow> Panic
         | Some old \<Rightarrow>
             if \<not> idx < length old then Panic
             else go_bind (ExtractN ord now (old ! idx) (batchSize r)) (\<lambda>(oldShard, its).
               go_bind (migrate_loop now indexFunc its newShards) (\<lambda>newShards.
                 let r = r\<lparr>oldShards := Some (old[idx := oldShard])\<rparr> in
                 if length its = 0 then
                   (let r = r\<lparr>rehashIdx := rehashIdx r + 1\<rparr> in
                    if rehashIdx r \<ge> length old
                    then Ret (r\<lparr>rehashing := False, oldShards := None\<rparr>, newShards, True, True)
                    else Ret (r, newShards, False, False))
                 else Ret (r, newShards, False, False)))))"

text \<open>The inner loop of the batch step: \<^verbatim>\<open>ExtractN(1000)\<close> until it returns nothing.  Every round that
  goes on removes at least one entry, so the number of entries plus one rounds are enough.\<close>

definition shard_entries :: "shard \<Rightarrow> nat" where
  "shard_entries s = sum_list (map (\<lambda>slot. case slot of Some sub \<Rightarrow> length (entries sub) | None \<Rightarrow> 0) (subs s))"

fun drain_loop :: "nat \<Rightarrow> (gostring list \<Rightarrow> gostring list) \<Rightarrow> int \<Rightarrow> (gostring \<Rightarrow> nat) \<Rightarrow> shard \<Rightarrow> shard list
    \<Rightarrow> (shard \<times> shard list) go" where
  "drain_loop 0 ord now indexFunc oldShard newShards = Ret (oldShard, newShards)"
| "drain_loop (Suc fuel) ord now indexFunc oldShard newShards =
     go_bind (ExtractN ord now oldShard 1000) (\<lambda>(oldShard, its).
       if length its = 0 then Ret (oldShard, newShards)
       else go_bind (migrate_loop now indexFunc its newShards) (\<lambda>newShards.
              drain_loop fuel ord now indexFunc oldShard newShards))"

fun batch_loop :: "(gostring list \<Rightarrow> gostring list) \<Rightarrow> int \<Rightarrow> (gostring \<Rightarrow> nat) \<Rightarrow> shard list \<Rightarrow> shard list \<Rightarrow> shard list go" where
  "batch_loop ord now indexFunc [] newShards = Ret newShards"
| "batch_loop ord now indexFunc (oldShard # old) newShards =
     go_bind (drain_loop (Suc (shard_entries oldShard)) ord now indexFunc oldShard newShards)
       (\<lambda>(_, newShards). batch_loop ord now indexFunc old newShards)"

definition Batch_Step :: "(gostring list \<Rightarrow> gostring list) \<Rightarrow> int \<Rightarrow> (gostring \<Rightarrow> nat) \<Rightarrow> rehash_state \<Rightarrow> shard list
    \<Rightarrow> (rehash_state \<times> shard list \<times> bool \<times> bool) go" where
  "Batch_Step ord now indexFunc r newShards =
     (if \<not> rehashing r then Ret (r, newShards, True, False)
      else go_bind (batch_loop ord now indexFunc (the_default [] (oldShards r)) newShards)
             (\<lambda>newShards. Ret (r\<lparr>rehashing := False, oldShards := None\<rparr>, newShards, True, True)))"

fun Rehasher_Step :: "(gostring list \<Rightarrow> gostring list) \<Rightarrow> int \<Rightarrow> (gostring \<Rightarrow> nat) \<Rightarrow> rehasher \<Rightarrow> shard list
    \<Rightarrow> (rehasher \<times> shard list \<times> bool \<times> bool) go" where
  "Rehasher_Step ord now indexFunc (IncrementalRehasher r) newShards =
     go_bind (Incremental_Step ord now indexFunc r newShards) (\<lambda>(r, x). Ret (IncrementalRehasher r, x))"
| "Rehasher_Step ord now indexFunc (BatchRehasher r) newShards =
     go_bind (Batch_Step ord now indexFunc r newShards) (\<lambda>(r, x). Ret (BatchRehasher r, x))"
| "Rehasher_Step ord now indexFunc NoopRehasher newShards = Ret (NoopRehasher, newShards, True, False)"

definition Incremental_IsRehashing :: "rehash_state \<Rightarrow> bool" where
  "Incremental_IsRehashing r = rehashing r"

definition Batch_IsRehashing :: "rehash_state \<Rightarrow> bool" where
  "Batch_IsRehashing r = rehashing r"

fun IsRehashing :: "rehasher \<Rightarrow> bool" where
  "IsRehashing (IncrementalRehasher r) = Incremental_IsRehashing r"
| "IsRehashing (BatchRehasher r) = Batch_IsRehashing r"
| "IsRehashing NoopRehasher = False"

text \<open>\<^verbatim>\<open>OldShards()\<close>: the old table while a rehash runs, else nil.\<close>

definition Incremental_OldShards :: "rehash_state \<Rightarrow> shard list option" where
  "Incremental_OldShards r = (if \<not> rehashing r then None else oldShards r)"

definition Batch_OldShards :: "rehash_state \<Rightarrow> shard list option" where
  "Batch_OldShards r = (if \<not> rehashing r then None else oldShards r)"

fun OldShards :: "rehasher \<Rightarrow> shard list option" where
  "OldShards (IncrementalRehasher r) = Incremental_OldShards r"
| "OldShards (BatchRehasher r) = Batch_OldShards r"
| "OldShards NoopRehasher = None"

fun rehasher_mask :: "rehasher \<Rightarrow> 32 word" where
  "rehasher_mask (IncrementalRehasher r) = oldMask r"
| "rehasher_mask (BatchRehasher r) = oldMask r"
| "rehasher_mask NoopRehasher = 0"

fun set_old_shards :: "shard list \<Rightarrow> rehasher \<Rightarrow> rehasher" where
  "set_old_shards ss (IncrementalRehasher r) = IncrementalRehasher (r\<lparr>oldShards := Some ss\<rparr>)"
| "set_old_shards ss (BatchRehasher r) = BatchRehasher (r\<lparr>oldShards := Some ss\<rparr>)"
| "set_old_shards ss NoopRehasher = NoopRehasher"

text \<open>\<^verbatim>\<open>if oldShard := r.OldShard(key); oldShard != nil { ... }\<close>: run an operation on the old shard of a
  key; the shard is shared, so the operation's effect stays in the old table.\<close>

definition Incremental_OldShard :: "rehash_state \<Rightarrow> gostring \<Rightarrow> (shard \<Rightarrow> (shard \<times> 'a) go) \<Rightarrow> (rehash_state \<times> 'a option) go" where
  "Incremental_OldShard r k f =
     (if \<not> rehashing r then Ret (r, None)
      else case oldShards r of
        None \<Rightarrow> Ret (r, None)
      | Some old \<Rightarrow>
          let i = OldShardIndex k (oldMask r) in
          if i < length old then go_bind (f (old ! i)) (\<lambda>(s, x). Ret (r\<lparr>oldShards := Some (old[i := s])\<rparr>, Some x))
          else Panic)"

definition Batch_OldShard :: "rehash_state \<Rightarrow> gostring \<Rightarrow> (shard \<Rightarrow> (shard \<times> 'a) go) \<Rightarrow> (rehash_state \<times> 'a option) go" where
  "Batch_OldShard r k f =
     (if \<not> rehashing r then Ret (r, None)
      else case oldShards r of
        None \<Rightarrow> Ret (r, None)
      | Some old \<Rightarrow>
          let i = OldShardIndex k (oldMask r) in
          if i < length old then go_bind (f (old ! i)) (\<lambda>(s, x). Ret (r\<lparr>oldShards := Some (old[i := s])\<rparr>, Some x))
          else Panic)"

fun with_OldShard :: "rehasher \<Rightarrow> gostring \<Rightarrow> (shard \<Rightarrow> (shard \<times> 'a) go) \<Rightarrow> (rehasher \<times> 'a option) go" where
  "with_OldShard (IncrementalRehasher r) k f =
     go_bind (Incremental_OldShard r k f) (\<lambda>(r, x). Ret (IncrementalRehasher r, x))"
| "with_OldShard (BatchRehasher r) k f =
     go_bind (Batch_OldShard r k f) (\<lambda>(r, x). Ret (BatchRehasher r, x))"
| "with_OldShard NoopRehasher k f = Ret (NoopRehasher, None)"

definition Incremental_Stop :: "rehash_state \<Rightarrow> rehash_state" where
  "Incremental_Stop r = r\<lparr>rehashing := False, oldShards := None, rehashIdx := 0\<rparr>"

definition Batch_Stop :: "rehash_state \<Rightarrow> rehash_state" where
  "Batch_Stop r = r\<lparr>rehashing := False, oldShards := None\<rparr>"

fun Rehasher_Stop :: "rehasher \<Rightarrow> rehasher" where
  "Rehasher_Stop (IncrementalRehasher r) = IncrementalRehasher (Incremental_Stop r)"
| "Rehasher_Stop (BatchRehasher r) = BatchRehasher (Batch_Stop r)"
| "Rehasher_Stop NoopRehasher = NoopRehasher"

end
