(* ===== verification/Observer.thy ===== *)
theory Observer
  imports Prelude
begin

text \<open>
  \<^verbatim>\<open>observer.go\<close>: lifecycle events and the fan-out observer.  An observer supplied by the program is a leaf
  with an identity; what it does with an event is outside the cache, so the model records which
  leaf received which event, in order.  A nil interface argument is \<^term>\<open>None\<close>.
\<close>

datatype cache_event =
    OnHit gostring | OnMiss gostring | OnSet gostring | OnDel gostring | OnEvict gostring
  | OnRehashStart int int | OnRehashDone

datatype observer = NoopObserver | LeafObserver nat | MultiObserver "observer list"

type_synonym event_log = "(nat \<times> cache_event) list"

fun multi_loop :: "observer option list \<Rightarrow> observer list \<Rightarrow> observer list" where
  "multi_loop [] filtered = filtered"
| "multi_loop (None # obs) filtered = multi_loop obs filtered"
| "multi_loop (Some (MultiObserver os) # obs) filtered = multi_loop obs (filtered @ os)"
| "multi_loop (Some NoopObserver # obs) filtered = multi_loop obs filtered"
| "multi_loop (Some (LeafObserver i) # obs) filtered = multi_loop obs (filtered @ [LeafObserver i])"

definition NewMultiObserver :: "observer option list \<Rightarrow> observer" where
  "NewMultiObserver obs = MultiObserver (multi_loop obs [])"

fun notify :: "observer \<Rightarrow> cache_event \<Rightarrow> event_log" where
  "notify NoopObserver ev = []"
| "notify (LeafObserver i) ev = [(i, ev)]"
| "notify (MultiObserver os) ev = concat (map (\<lambda>ob. notify ob ev) os)"

section \<open>Fan-out\<close>

lemma multi_loop_notify:
  "concat (map (\<lambda>ob. notify ob ev) (multi_loop obs acc)) =
     concat (map (\<lambda>ob. notify ob ev) acc) @ concat (map (\<lambda>ob. case ob of None \<Rightarrow> [] | Some ob \<Rightarrow> notify ob ev) obs)"
  by (induction obs acc rule: multi_loop.induct) auto

text \<open>Flattening nested fan-outs and dropping nil and no-op observers loses nothing: the observer built by
  \<^verbatim>\<open>NewMultiObserver\<close> delivers every event to exactly the observers it was given, in their order.\<close>

theorem multi_observer_delivers:
  "notify (NewMultiObserver obs) ev = concat (map (\<lambda>ob. case ob of None \<Rightarrow> [] | Some ob \<Rightarrow> notify ob ev) obs)"
  by (simp add: NewMultiObserver_def multi_loop_notify)

end
