(* ===== verification/Cache.thy ===== *)
theory Cache
  imports Rehash Observer
begin

text \<open>
  \<^verbatim>\<open>cache.go\<close> and \<^verbatim>\<open>options.go\<close>: the sharded cache.  The state of a \<^verbatim>\<open>Cache\<close> is a record; the event log is the
  list of observer calls it has made.  What a call takes from its environment is a record too: the
  instant, the iteration order of maps, the random numbers, the registries.  A call returns the
  new state with a result, or panics.
\<close>

section \<open>Options, state, environment\<close>

record options =
  shardCount :: int
  maxSize :: int
  defaultTTL :: int
  evictionPolicy :: gostring
  opt_rehasher :: gostring
  opt_observer :: "observer option"

definition NewOptions :: options where
  "NewOptions = \<lparr>shardCount = 16, maxSize = 0, defaultTTL = 0, evictionPolicy = ''lru'',
     opt_rehasher = ''incremental'', opt_observer = None\<rparr>"

definition WithShards :: "int \<Rightarrow> options \<Rightarrow> options" where
  "WithShards n o' = o'\<lparr>shardCount := n\<rparr>"

definition WithMaxSize :: "int \<Rightarrow> options \<Rightarrow> options" where
  "WithMaxSize n o' = o'\<lparr>maxSize := n\<rparr>"

definition WithDefaultTTL :: "int \<Rightarrow> options \<Rightarrow> options" where
  "WithDefaultTTL ttl o' = o'\<lparr>defaultTTL := ttl\<rparr>"

definition WithEvictionPolicy :: "gostring \<Rightarrow> options \<Rightarrow> options" where
  "WithEvictionPolicy name o' = o'\<lparr>evictionPolicy := name\<rparr>"

definition WithObserver :: "observer option \<Rightarrow> options \<Rightarrow> options" where
  "WithObserver ob o' = o'\<lparr>opt_observer := ob\<rparr>"

definition WithRehasher :: "gostring \<Rightarrow> options \<Rightarrow> options" where
  "WithRehasher name o' = o'\<lparr>opt_rehasher := name\<rparr>"

record env =
  e_now :: int
  e_ord :: "gostring list \<Rightarrow> gostring list"
  e_intn :: "nat \<Rightarrow> nat \<Rightarrow> nat"
  e_perm :: "nat \<Rightarrow> nat list"
  e_policies :: registry
  e_rehashers :: rehash_registry

record cache =
  tbl :: "shard list"
  tbl_mask :: "32 word"
  c_opts :: options
  closed :: bool
  c_rehasher :: rehasher
  policyName :: gostring
  policyFactory :: policy
  perShardMax :: int
  c_observer :: observer
  c_log :: event_log

definition emit :: "cache_event \<Rightarrow> cache \<Rightarrow> cache" where
  "emit ev c = c\<lparr>c_log := c_log c @ notify (c_observer c) ev\<rparr>"

definition bad_shards :: "int \<Rightarrow> bool" where
  "bad_shards n \<longleftrightarrow> n \<le> 0 \<or> (n AND (n - 1)) \<noteq> 0"

definition shard_max :: "int \<Rightarrow> int \<Rightarrow> int" where
  "shard_max mx n = (if mx > 0 then (let p = go_div mx n in if p < 1 then 1 else p) else 0)"

definition Cache_New :: "env \<Rightarrow> options \<Rightarrow> cache result" where
  "Cache_New e o' =
     (if bad_shards (shardCount o') then Inl ErrInvalidShards
      else let o' = (if maxSize o' < 0 then o'\<lparr>maxSize := 0\<rparr> else o') in
      if defaultTTL o' < 0 then Inl ErrNegativeTTL
      else let o' = (if evictionPolicy o' = '''' then o'\<lparr>evictionPolicy := ''noop''\<rparr> else o') in
      case getPolicyFactory (e_policies e) (evictionPolicy o') of
        Inl err \<Rightarrow> Inl err
      | Inr factory \<Rightarrow>
          let o' = (if opt_rehasher o' = '''' then o'\<lparr>opt_rehasher := ''incremental''\<rparr> else o') in
          case GetFactory (e_rehashers e) (opt_rehasher o') of
            Inl err \<Rightarrow> Inl err
          | Inr rFactory \<Rightarrow>
              let psm = shard_max (maxSize o') (shardCount o');
                  o' = (if opt_observer o' = None then o'\<lparr>opt_observer := Some NoopObserver\<rparr> else o')
              in Inr \<lparr>tbl = replicate (nat (shardCount o')) (newShard factory psm),
                      tbl_mask = word_of_int (shardCount o' - 1), c_opts = o', closed = False,
                      c_rehasher = rFactory, policyName = evictionPolicy o', policyFactory = factory,
                      perShardMax = psm, c_observer = the_default NoopObserver (opt_observer o'), c_log = []\<rparr>)"

definition validateOpen :: "cache \<Rightarrow> gerror option" where
  "validateOpen c = (if closed c then Some ErrCacheClosed else None)"

definition validateKeyValue :: "gostring \<Rightarrow> bytes option \<Rightarrow> gerror option" where
  "validateKeyValue k value = (if k = '''' then Some ErrKeyEmpty else if value = None then Some ErrValueNil else None)"

definition shardIndexFor :: "gostring \<Rightarrow> 32 word \<Rightarrow> nat" where
  "shardIndexFor k msk = unat (fnv1a k AND msk)"

definition shardIndex :: "cache \<Rightarrow> gostring \<Rightarrow> nat" where
  "shardIndex c k = unat (fnv1a k AND tbl_mask c)"

text \<open>\<^verbatim>\<open>c.getShard(key)\<close> followed by an operation on the shard, which is shared with the table.\<close>

definition with_shard :: "cache \<Rightarrow> gostring \<Rightarrow> (shard \<Rightarrow> (shard \<times> 'a) go) \<Rightarrow> (cache \<times> 'a) go" where
  "with_shard c k f =
     (let i = shardIndexFor k (tbl_mask c) in
      if i < length (tbl c)
      then go_bind (f (tbl c ! i)) (\<lambda>(s, x). Ret (c\<lparr>tbl := (tbl c)[i := s]\<rparr>, x))
      else Panic)"

text \<open>The block that follows every key-value operation while a rehash runs: one step into the current table,
  and the completion event.\<close>

definition rehash_step :: "env \<Rightarrow> cache \<Rightarrow> cache go" where
  "rehash_step e c =
     go_bind (Rehasher_Step (e_ord e) (e_now e) (shardIndex c) (c_rehasher c) (tbl c))
       (\<lambda>(r, shards, finished, justCompleted).
          let c = c\<lparr>tbl := shards, c_rehasher := r\<rparr>
          in Ret (if justCompleted then emit OnRehashDone c else c))"

definition old_Del :: "gostring \<Rightarrow> cache \<Rightarrow> cache go" where
  "old_Del k c =
     go_bind (with_OldShard (c_rehasher c) k (\<lambda>s. go_bind (shard_Del s k) (\<lambda>s. Ret (s, ()))))
       (\<lambda>(r, _). Ret (c\<lparr>c_rehasher := r\<rparr>))"

section \<open>Key-value operations\<close>

definition Cache_Set :: "env \<Rightarrow> cache \<Rightarrow> gostring \<Rightarrow> bytes option \<Rightarrow> int list \<Rightarrow> (cache \<times> unit result) go" where
  "Cache_Set e c k value ttl =
     (case validateOpen c of Some err \<Rightarrow> Ret (c, Inl err) | None \<Rightarrow>
      case validateKeyValue k value of Some err \<Rightarrow> Ret (c, Inl err) | None \<Rightarrow>
      let d = (case ttl of t # _ \<Rightarrow> max t 0 | [] \<Rightarrow> defaultTTL (c_opts c)) in
      go_bind (with_shard c k (\<lambda>s. shard_Set (e_now e) s k (the_default [] value) d)) (\<lambda>(c, evicted).
        let c = emit (OnSet k) c;
            c = fold (\<lambda>ek. emit (OnEvict ek)) evicted c
        in if IsRehashing (c_rehasher c)
           then go_bind (old_Del k c) (\<lambda>c. go_bind (rehash_step e c) (\<lambda>c. Ret (c, Inr ())))
           else Ret (c, Inr ())))"

definition Cache_Get :: "env \<Rightarrow> cache \<Rightarrow> gostring \<Rightarrow> (cache \<times> bytes result) go" where
  "Cache_Get e c k =
     (case validateOpen c of Some err \<Rightarrow> Ret (c, Inl err) | None \<Rightarrow>
      if k = '''' then Ret (c, Inl ErrKeyEmpty)
      else go_bind (with_shard c k (\<lambda>s. shard_get (e_now e) s k)) (\<lambda>(c, val).
        case val of
          Some v \<Rightarrow>
            let c = emit (OnHit k) c in
            if IsRehashing (c_rehasher c) then go_bind (rehash_step e c) (\<lambda>c. Ret (c, Inr v)) else Ret (c, Inr v)
        | None \<Rightarrow>
            go_bind
              (if IsRehashing (c_rehasher c)
               then go_bind (with_OldShard (c_rehasher c) k (\<lambda>s. shard_get (e_now e) s k))
                      (\<lambda>(r, x). Ret (c\<lparr>c_rehasher := r\<rparr>, case x of Some v \<Rightarrow> v | None \<Rightarrow> None))
               else Ret (c, None))
              (\<lambda>(c, val).
                 case val of
                   Some v \<Rightarrow> go_bind (rehash_step e (emit (OnHit k) c)) (\<lambda>c. Ret (c, Inr v))
                 | None \<Rightarrow>
                     let c = emit (OnMiss k) c in
                     if IsRehashing (c_rehasher c)
                     then go_bind (rehash_step e c) (\<lambda>c. Ret (c, Inl ErrKeyNotFound))
                     else Ret (c, Inl ErrKeyNotFound))))"

definition Cache_Del :: "env \<Rightarrow> cache \<Rightarrow> gostring \<Rightarrow> (cache \<times> unit result) go" where
  "Cache_Del e c k =
     (case validateOpen c of Some err \<Rightarrow> Ret (c, Inl err) | None \<Rightarrow>
      if k = '''' then Ret (c, Inl ErrKeyEmpty)
      else go_bind (with_shard c k (\<lambda>s. go_bind (shard_Del s k) (\<lambda>s. Ret (s, ())))) (\<lambda>(c, _).
        let c = emit (OnDel k) c
        in if IsRehashing (c_rehasher c)
           then go_bind (old_Del k c) (\<lambda>c. go_bind (rehash_step e c) (\<lambda>c. Ret (c, Inr ())))
           else Ret (c, Inr ())))"

text \<open>Loops over a shard table, and over the old table of the rehasher.\<close>

fun sum_shards :: "(shard \<Rightarrow> int go) \<Rightarrow> shard list \<Rightarrow> int go" where
  "sum_shards f [] = Ret 0"
| "sum_shards f (s # ss) = go_bind (f s) (\<lambda>n. go_bind (sum_shards f ss) (\<lambda>m. Ret (n + m)))"

fun each_shard :: "(shard \<Rightarrow> (shard \<times> int) go) \<Rightarrow> shard list \<Rightarrow> (shard list \<times> int) go" where
  "each_shard f [] = Ret ([], 0)"
| "each_shard f (s # ss) =
     go_bind (f s) (\<lambda>(s, n). go_bind (each_shard f ss) (\<lambda>(ss, m). Ret (s # ss, n + m)))"

definition each_old_shard :: "(shard \<Rightarrow> (shard \<times> int) go) \<Rightarrow> rehasher \<Rightarrow> (rehasher \<times> int) go" where
  "each_old_shard f r =
     (case OldShards r of
        None \<Rightarrow> Ret (r, 0)
      | Some old \<Rightarrow> go_bind (each_shard f old) (\<lambda>(old, n). Ret (set_old_shards old r, n)))"

definition Cache_Len :: "env \<Rightarrow> cache \<Rightarrow> int go" where
  "Cache_Len e c =
     (if closed c then Ret 0
      else go_bind (sum_shards (shard_Len (e_now e)) (tbl c)) (\<lambda>n.
           go_bind (sum_shards (shard_Len (e_now e)) (the_default [] (OldShards (c_rehasher c)))) (\<lambda>m.
           Ret (n + m))))"

definition ShardCount :: "cache \<Rightarrow> int" where
  "ShardCount c = (if closed c then 0 else int (length (tbl c)))"

definition Cleanup :: "env \<Rightarrow> cache \<Rightarrow> (cache \<times> int) go" where
  "Cleanup e c =
     (if closed c then Ret (c, 0)
      else go_bind (each_shard (cleanup (e_ord e) (e_now e)) (tbl c)) (\<lambda>(ss, n).
           go_bind (each_old_shard (cleanup (e_ord e) (e_now e)) (c_rehasher c)) (\<lambda>(r, m).
           Ret (c\<lparr>tbl := ss, c_rehasher := r\<rparr>, n + m))))"

section \<open>Administration\<close>

definition swap_shard :: "env \<Rightarrow> policy \<Rightarrow> shard \<Rightarrow> (shard \<times> int) go" where
  "swap_shard e factory s = go_bind (swapPolicy (e_ord e) factory s) (\<lambda>s. Ret (s, 0))"

definition SetEvictionPolicy :: "env \<Rightarrow> cache \<Rightarrow> gostring \<Rightarrow> (cache \<times> unit result) go" where
  "SetEvictionPolicy e c name =
     (case getPolicyFactory (e_policies e) name of
        Inl err \<Rightarrow> Ret (c, Inl err)
      | Inr factory \<Rightarrow>
          (case validateOpen c of Some err \<Rightarrow> Ret (c, Inl err) | None \<Rightarrow>
           let c = c\<lparr>policyName := name, policyFactory := factory\<rparr> in
           go_bind (each_shard (swap_shard e factory) (tbl c)) (\<lambda>(ss, _).
           go_bind (each_old_shard (swap_shard e factory) (c_rehasher c)) (\<lambda>(r, _).
           Ret (c\<lparr>tbl := ss, c_rehasher := r\<rparr>, Inr ())))))"

definition SetRehasher :: "env \<Rightarrow> cache \<Rightarrow> gostring \<Rightarrow> cache \<times> unit result" where
  "SetRehasher e c name =
     (case GetFactory (e_rehashers e) name of
        Inl err \<Rightarrow> (c, Inl err)
      | Inr factory \<Rightarrow>
          (case validateOpen c of Some err \<Rightarrow> (c, Inl err) | None \<Rightarrow> (c\<lparr>c_rehasher := factory\<rparr>, Inr ())))"

definition Cache_Rehasher :: "cache \<Rightarrow> gostring" where
  "Cache_Rehasher c = Rehasher_Name (c_rehasher c)"

definition EvictionPolicy :: "cache \<Rightarrow> gostring" where
  "EvictionPolicy c = policyName c"

definition Resize :: "env \<Rightarrow> cache \<Rightarrow> int \<Rightarrow> cache \<times> unit result" where
  "Resize e c n =
     (case validateOpen c of Some err \<Rightarrow> (c, Inl err) | None \<Rightarrow>
      if bad_shards n then (c, Inl ErrInvalidShards)
      else if closed c then (c, Inl ErrCacheClosed)
      else if IsRehashing (c_rehasher c) then (c, Inl ErrRehashInProgress)
      else let psm = shard_max (maxSize (c_opts c)) n;
               c = emit (OnRehashStart (int (length (tbl c))) n) c;
               c = c\<lparr>c_rehasher := Rehasher_Start (tbl c) (tbl_mask c) (c_rehasher c)\<rparr>
           in (c\<lparr>tbl := replicate (nat n) (newShard (policyFactory c) psm), tbl_mask := word_of_int (n - 1)\<rparr>, Inr ()))"

definition Cache_IsRehashing :: "cache \<Rightarrow> bool" where
  "Cache_IsRehashing c = IsRehashing (c_rehasher c)"

definition Cache_Close :: "cache \<Rightarrow> cache \<times> unit result" where
  "Cache_Close c =
     (if closed c then (c, Inl ErrCacheClosed)
      else (c\<lparr>closed := True, tbl := [], tbl_mask := 0, c_rehasher := Rehasher_Stop (c_rehasher c)\<rparr>, Inr ()))"

definition SetObserver :: "cache \<Rightarrow> observer option \<Rightarrow> cache" where
  "SetObserver c ob = c\<lparr>c_observer := the_default NoopObserver ob\<rparr>"

section \<open>Set operations\<close>

text \<open>The guard every keyed operation starts with.\<close>

definition guard_key :: "cache \<Rightarrow> gostring \<Rightarrow> (cache \<times> 'a result) go \<Rightarrow> (cache \<times> 'a result) go" where
  "guard_key c k body =
     (case validateOpen c of Some err \<Rightarrow> Ret (c, Inl err) | None \<Rightarrow>
      if k = '''' then Ret (c, Inl ErrKeyEmpty) else body)"

text \<open>Calling an operation of the shard of a key: one that changes the shard, and one that reads it.\<close>

definition on_shard :: "cache \<Rightarrow> gostring \<Rightarrow> (shard \<Rightarrow> shard \<times> 'a) \<Rightarrow> (cache \<times> 'a result) go" where
  "on_shard c k f = go_bind (with_shard c k (\<lambda>s. Ret (f s))) (\<lambda>(c, x). Ret (c, Inr x))"

definition at_shard :: "cache \<Rightarrow> gostring \<Rightarrow> (shard \<Rightarrow> 'a) \<Rightarrow> (cache \<times> 'a result) go" where
  "at_shard c k f = go_bind (with_shard c k (\<lambda>s. Ret (s, f s))) (\<lambda>(c, x). Ret (c, Inr x))"

definition or_not_found :: "(cache \<times> 'a option result) go \<Rightarrow> (cache \<times> 'a result) go" where
  "or_not_found m = go_bind m (\<lambda>(c, r). Ret (c, case r of
      Inl err \<Rightarrow> Inl err | Inr None \<Rightarrow> Inl ErrKeyNotFound | Inr (Some x) \<Rightarrow> Inr x))"

definition Cache_SAdd :: "cache \<Rightarrow> gostring \<Rightarrow> gostring list \<Rightarrow> (cache \<times> int result) go" where
  "Cache_SAdd c k elems = guard_key c k (on_shard c k (\<lambda>s. sAdd s k elems))"

definition Cache_SRem :: "cache \<Rightarrow> gostring \<Rightarrow> gostring list \<Rightarrow> (cache \<times> int result) go" where
  "Cache_SRem c k elems = guard_key c k (on_shard c k (\<lambda>s. sRem s k elems))"

definition Cache_SIsMember :: "cache \<Rightarrow> gostring \<Rightarrow> gostring \<Rightarrow> (cache \<times> bool result) go" where
  "Cache_SIsMember c k elem = guard_key c k (at_shard c k (\<lambda>s. sIsMember s k elem))"

definition Cache_SMembers :: "env \<Rightarrow> cache \<Rightarrow> gostring \<Rightarrow> (cache \<times> gostring list option result) go" where
  "Cache_SMembers e c k = guard_key c k (at_shard c k (\<lambda>s. sMembers (e_ord e) s k))"

definition Cache_SCard :: "cache \<Rightarrow> gostring \<Rightarrow> (cache \<times> int result) go" where
  "Cache_SCard c k = guard_key c k (at_shard c k (\<lambda>s. sCard s k))"

definition Cache_SPop :: "env \<Rightarrow> cache \<Rightarrow> gostring \<Rightarrow> (cache \<times> gostring result) go" where
  "Cache_SPop e c k = guard_key c k (or_not_found (on_shard c k (\<lambda>s. sPop (e_ord e) (e_intn e) s k)))"

definition Cache_SRandMember :: "env \<Rightarrow> cache \<Rightarrow> gostring \<Rightarrow> int \<Rightarrow> (cache \<times> gostring list option result) go" where
  "Cache_SRandMember e c k cnt =
     guard_key c k
       (go_bind (with_shard c k (\<lambda>s. go_bind (sRandMember (e_ord e) (e_intn e) (e_perm e) s k cnt) (\<lambda>x. Ret (s, x))))
          (\<lambda>(c, x). Ret (c, Inr x)))"

text \<open>A set object is identified by its shard and key; a set made on the spot has no such identity.\<close>

type_synonym set_ref = "(nat \<times> gostring) option"

fun find_set :: "nat \<Rightarrow> shard list \<Rightarrow> gostring \<Rightarrow> (set_ref \<times> goset) option" where
  "find_set i [] k = None"
| "find_set i (s # ss) k =
     (case getSet s k of Some st \<Rightarrow> Some (Some (i, k), st) | None \<Rightarrow> find_set (i + 1) ss k)"

fun union_loop :: "shard list \<Rightarrow> gostring list \<Rightarrow> (set_ref \<times> goset) list" where
  "union_loop ss [] = []"
| "union_loop ss (k # ks) =
     (case find_set 0 ss k of Some st \<Rightarrow> st # union_loop ss ks | None \<Rightarrow> union_loop ss ks)"

definition Cache_SUnion :: "env \<Rightarrow> cache \<Rightarrow> gostring list \<Rightarrow> gostring list option result" where
  "Cache_SUnion e c ks =
     (case validateOpen c of Some err \<Rightarrow> Inl err | None \<Rightarrow>
      let found = union_loop (tbl c) ks in
      if length found = 0 then Inr None else Inr (Some (Set_Members (e_ord e) (Set_Union found))))"

fun inter_loop :: "shard list \<Rightarrow> gostring list \<Rightarrow> (set_ref \<times> goset) list option" where
  "inter_loop ss [] = Some []"
| "inter_loop ss (k # ks) =
     (case find_set 0 ss k of Some st \<Rightarrow> map_option (Cons st) (inter_loop ss ks) | None \<Rightarrow> None)"

definition Cache_SInter :: "env \<Rightarrow> cache \<Rightarrow> gostring list \<Rightarrow> gostring list option result" where
  "Cache_SInter e c ks =
     (case validateOpen c of Some err \<Rightarrow> Inl err | None \<Rightarrow>
      (case inter_loop (tbl c) ks of
         None \<Rightarrow> Inr None
       | Some found \<Rightarrow> Inr (Some (Set_Members (e_ord e) (Set_Inter found)))))"

fun diff_loop :: "shard list \<Rightarrow> gostring list \<Rightarrow> (set_ref \<times> goset) list" where
  "diff_loop ss [] = []"
| "diff_loop ss (k # ks) =
     (case find_set 0 ss k of Some st \<Rightarrow> st | None \<Rightarrow> (None, Set_New)) # diff_loop ss ks"

definition Cache_SDiff :: "env \<Rightarrow> cache \<Rightarrow> gostring list \<Rightarrow> gostring list option result" where
  "Cache_SDiff e c ks =
     (case validateOpen c of Some err \<Rightarrow> Inl err | None \<Rightarrow>
      Inr (Some (Set_Members (e_ord e) (Set_Diff (diff_loop (tbl c) ks)))))"

end
