(* ===== verification/Rehash_Inv.thy ===== *)
theory Rehash_Inv
  imports Rehash Shard_Inv
begin

text \<open>
  Correctness of rehashing.  A shard table stands for a map from keys to entries; during a rehash
  the cache stands for the old table's map overridden by the new one's.  A step of any strategy
  returns, keeps that map up to expired and evicted entries, and lowers a rank, so rehashing ends.
  The contract is the locale \<open>rehash_strategy\<close>, interpreted on the incremental and the batch
  rehasher and on the dispatch between them.
\<close>

section \<open>Tables as maps\<close>

type_synonym entry_map = "gostring \<Rightarrow> cacheEntry option"

definition table_wf :: "32 word \<Rightarrow> shard list \<Rightarrow> bool" where
  "table_wf msk ss \<longleftrightarrow> unat msk < length ss \<and> (\<forall>s\<in>set ss. shard_wf s)
     \<and> (\<forall>i<length ss. \<forall>k. shard_lookup (ss ! i) k \<noteq> None \<longrightarrow> OldShardIndex k msk = i)"

definition tbl_map :: "32 word \<Rightarrow> shard list \<Rightarrow> entry_map" where
  "tbl_map msk ss k = shard_lookup (ss ! OldShardIndex k msk) k"

definition unbounded :: "shard list \<Rightarrow> bool" where
  "unbounded ss \<longleftrightarrow> (\<forall>s\<in>set ss. maxSubSize s \<le> 0)"

text \<open>Number of sub-shards and limit of each shard, which no operation changes.\<close>

definition frames :: "shard list \<Rightarrow> (nat \<times> int) list" where
  "frames ss = map (\<lambda>s. (numSubs s, maxSubSize s)) ss"

text \<open>\<open>fades now exact m m'\<close>: \<open>m'\<close> is \<open>m\<close> without some entries, which if \<open>exact\<close> had all expired.\<close>

definition fades :: "int \<Rightarrow> bool \<Rightarrow> entry_map \<Rightarrow> entry_map \<Rightarrow> bool" where
  "fades now exact m m' \<longleftrightarrow> (\<forall>k. m' k = m k \<or> (m' k = None \<and> (exact \<longrightarrow> live now (m k) = None)))"

definition sane :: "entry_map \<Rightarrow> bool" where
  "sane m \<longleftrightarrow> (\<forall>k e. m k = Some e \<longrightarrow> 0 \<le> expiresAt e)"

lemma fades_refl [simp]: "fades now exact m m"
  by (simp add: fades_def)

lemma fades_trans: "fades now exact m m1 \<Longrightarrow> fades now exact m1 m2 \<Longrightarrow> fades now exact m m2"
  unfolding fades_def by metis

lemma fades_upd: "fades now exact m m' \<Longrightarrow> fades now exact (m(k := x)) (m'(k := x))"
  by (auto simp: fades_def)

lemma fades_at: "fades now exact m m' \<Longrightarrow> m' k = m k \<or> (m' k = None \<and> (exact \<longrightarrow> live now (m k) = None))"
  unfolding fades_def by blast

lemma fades_dom:
  assumes f: "fades now exact m m'"
  shows "dom m' \<subseteq> dom m"
proof
  fix k assume "k \<in> dom m'"
  then show "k \<in> dom m" using fades_at [OF f, of k] by auto
qed

lemma fades_sane: "fades now exact m m' \<Longrightarrow> sane m \<Longrightarrow> sane m'"
  unfolding fades_def sane_def by (metis option.distinct(1))

lemma fades_weaken: "fades now True m m' \<Longrightarrow> fades now exact m m'"
  by (auto simp: fades_def)

lemma index_less: "unat msk < n \<Longrightarrow> OldShardIndex k msk < n"
proof -
  have "fnv1a k AND msk \<le> msk" by (simp add: word_and_le1)
  then have "unat (fnv1a k AND msk) \<le> unat msk" by (simp add: word_le_nat_alt)
  then show "unat msk < n \<Longrightarrow> ?thesis" by (simp add: OldShardIndex_def)
qed

lemma table_index: "table_wf msk ss \<Longrightarrow> OldShardIndex k msk < length ss"
  by (simp add: table_wf_def index_less)

lemma table_shard: "table_wf msk ss \<Longrightarrow> i < length ss \<Longrightarrow> shard_wf (ss ! i)"
  by (simp add: table_wf_def)

lemma table_home:
  "table_wf msk ss \<Longrightarrow> i < length ss \<Longrightarrow> shard_lookup (ss ! i) k \<noteq> None \<Longrightarrow> OldShardIndex k msk = i"
  unfolding table_wf_def by blast

lemma table_upd:
  assumes wf: "table_wf msk ss" and i: "i < length ss" and s': "shard_wf s'"
    and keys: "\<And>k. shard_lookup s' k \<noteq> None \<Longrightarrow> OldShardIndex k msk = i"
  shows "table_wf msk (ss[i := s'])"
    and "tbl_map msk (ss[i := s']) k = (if OldShardIndex k msk = i then shard_lookup s' k else tbl_map msk ss k)"
proof -
  show "table_wf msk (ss[i := s'])"
    unfolding table_wf_def
  proof (intro conjI ballI allI impI)
    show "unat msk < length (ss[i := s'])" using wf by (simp add: table_wf_def)
    show "shard_wf s" if "s \<in> set (ss[i := s'])" for s
      using that s' wf by (auto simp: table_wf_def dest!: subsetD [OF set_update_subset_insert])
    show "OldShardIndex k msk = j" if "j < length (ss[i := s'])" "shard_lookup (ss[i := s'] ! j) k \<noteq> None" for j k
      using that keys [of k] table_home [OF wf, of j k] by (cases "j = i") auto
  qed
  show "tbl_map msk (ss[i := s']) k = (if OldShardIndex k msk = i then shard_lookup s' k else tbl_map msk ss k)"
    using i by (simp add: tbl_map_def)
qed

lemma table_upd_key:
  assumes wf: "table_wf msk ss" and s': "shard_wf s'"
    and lk: "shard_lookup s' = (shard_lookup (ss ! OldShardIndex k msk))(k := x)"
  shows "table_wf msk (ss[OldShardIndex k msk := s'])"
    and "tbl_map msk (ss[OldShardIndex k msk := s']) = (tbl_map msk ss)(k := x)"
proof -
  let ?i = "OldShardIndex k msk"
  have i: "?i < length ss" by (rule table_index [OF wf])
  have keys: "OldShardIndex k' msk = ?i" if "shard_lookup s' k' \<noteq> None" for k'
    using that table_home [OF wf i, of k'] by (cases "k' = k") (auto simp: lk)
  note u = table_upd [OF wf i s' keys]
  show "table_wf msk (ss[?i := s'])" by (rule u(1))
  show "tbl_map msk (ss[?i := s']) = (tbl_map msk ss)(k := x)"
  proof
    fix k'
    show "tbl_map msk (ss[?i := s']) k' = ((tbl_map msk ss)(k := x)) k'"
      using u(2) [of k'] by (auto simp: lk tbl_map_def)
  qed
qed

lemma frames_upd:
  "i < length ss \<Longrightarrow> numSubs s' = numSubs (ss ! i) \<Longrightarrow> maxSubSize s' = maxSubSize (ss ! i) \<Longrightarrow> frames (ss[i := s']) = frames ss"
  by (auto simp: frames_def map_update intro: nth_equalityI simp: nth_list_update)

lemma frames_unbounded: "frames ss' = frames ss \<Longrightarrow> unbounded ss' = unbounded ss"
proof -
  have "unbounded ss \<longleftrightarrow> (\<forall>x\<in>set (frames ss). snd x \<le> 0)" for ss by (simp add: unbounded_def frames_def)
  then show "frames ss' = frames ss \<Longrightarrow> ?thesis" by simp
qed

lemma frames_length: "frames ss' = frames ss \<Longrightarrow> length ss' = length ss"
  by (metis frames_def length_map)

lemma shard_lookup_i64:
  assumes "shard_wf s" "shard_lookup s k = Some e"
  shows "in_i64 (expiresAt e)"
proof -
  obtain sub where "sub_wf sub" "shard_lookup s k = map_of (entries sub) k" using shard_sub [OF assms(1)] by blast
  then show ?thesis using assms(2) unfolding sub_wf_def by auto
qed

section \<open>Storing into a table\<close>

lemma shard_Set_unbounded:
  assumes "maxSubSize s \<le> 0" "shard_Set now s k v ttl = Ret (s', ev)"
  shows "ev = []"
  using assms by (auto simp: shard_Set_def with_sub_def sub_Set_def Let_def split: option.splits if_splits)

lemma table_Set:
  fixes k :: gostring
  assumes wf: "table_wf msk ss"
  defines "i \<equiv> OldShardIndex k msk"
  shows "\<exists>s' ev. shard_Set now (ss ! i) k v ttl = Ret (s', ev) \<and> table_wf msk (ss[i := s'])
     \<and> frames (ss[i := s']) = frames ss
     \<and> fades now (unbounded ss) ((tbl_map msk ss)(k \<mapsto> newEntry now v ttl)) (tbl_map msk (ss[i := s']))
     \<and> (shard_capped (ss ! i) \<longrightarrow> shard_capped s')
     \<and> (\<forall>k'. tbl_map msk (ss[i := s']) k' = (if k' \<in> set ev then None else ((tbl_map msk ss)(k \<mapsto> newEntry now v ttl)) k'))"
proof -
  have i: "i < length ss" unfolding i_def by (rule table_index [OF wf])
  obtain s' ev where s': "shard_Set now (ss ! i) k v ttl = Ret (s', ev)" "shard_wf s'" "same_frame (ss ! i) s'"
    "\<And>k'. shard_lookup s' k' = (if k' \<in> set ev then None else ((shard_lookup (ss ! i))(k \<mapsto> newEntry now v ttl)) k')"
    "shard_capped (ss ! i) \<Longrightarrow> shard_capped s'"
    "\<And>k'. k' \<in> set ev \<Longrightarrow> k' = k \<or> (shard_lookup (ss ! i) k' \<noteq> None \<and> subIndex (ss ! i) k' = subIndex (ss ! i) k)"
    by (rule shard_Set_spec [OF table_shard [OF wf i], of now k v ttl], rule that)
  have keys: "OldShardIndex k' msk = i" if "shard_lookup s' k' \<noteq> None" for k'
    using that table_home [OF wf i, of k'] s'(4) [of k'] by (auto simp: i_def split: if_splits)
  have evi: "OldShardIndex k' msk = i" if "k' \<in> set ev" for k'
    using s'(6) [OF that] table_home [OF wf i, of k'] by (auto simp: i_def)
  note u = table_upd [OF wf i s'(2) keys]
  have eff: "tbl_map msk (ss[i := s']) k' = (if k' \<in> set ev then None else ((tbl_map msk ss)(k \<mapsto> newEntry now v ttl)) k')" for k'
    using u(2) [of k'] s'(4) [of k'] evi [of k'] by (auto simp: tbl_map_def i_def)
  have "ev = []" if "unbounded ss"
    using that i by (intro shard_Set_unbounded [OF _ s'(1)]) (simp add: unbounded_def)
  then have "fades now (unbounded ss) ((tbl_map msk ss)(k \<mapsto> newEntry now v ttl)) (tbl_map msk (ss[i := s']))"
    unfolding fades_def eff by auto
  moreover have "frames (ss[i := s']) = frames ss"
    using s'(3) by (intro frames_upd i) (auto simp: same_frame_def)
  ultimately show ?thesis using s'(1,5) u(1) eff by blast
qed

section \<open>Migrating extracted items\<close>

definition put :: "int \<Rightarrow> rehash_item \<Rightarrow> entry_map \<Rightarrow> entry_map" where
  "put now it m = m(Key it \<mapsto> newEntry now (Value it) (TTL it))"

lemma fades_puts: "fades now exact m m' \<Longrightarrow> fades now exact (fold (put now) its m) (fold (put now) its m')"
  by (induction its arbitrary: m m') (auto simp: put_def fades_upd)

lemma migrate_loop_spec:
  assumes "table_wf msk ss"
  shows "\<exists>ss'. migrate_loop now (\<lambda>k. OldShardIndex k msk) its ss = Ret ss' \<and> table_wf msk ss' \<and> frames ss' = frames ss
     \<and> fades now (unbounded ss) (fold (put now) its (tbl_map msk ss)) (tbl_map msk ss')"
  using assms
proof (induction its arbitrary: ss)
  case (Cons it its)
  let ?i = "OldShardIndex (Key it) msk"
  obtain s' ev where s: "shard_Set now (ss ! ?i) (Key it) (Value it) (TTL it) = Ret (s', ev)"
    "table_wf msk (ss[?i := s'])" "frames (ss[?i := s']) = frames ss"
    "fades now (unbounded ss) (put now it (tbl_map msk ss)) (tbl_map msk (ss[?i := s']))"
    using table_Set [OF Cons.prems] unfolding put_def by blast
  obtain ss' where r: "migrate_loop now (\<lambda>k. OldShardIndex k msk) its (ss[?i := s']) = Ret ss'" "table_wf msk ss'"
    "frames ss' = frames ss"
    "fades now (unbounded ss) (fold (put now) its (tbl_map msk (ss[?i := s']))) (tbl_map msk ss')"
    using Cons.IH [OF s(2)] s(3) frames_unbounded [OF s(3)] by auto
  have "fades now (unbounded ss) (fold (put now) (it # its) (tbl_map msk ss)) (tbl_map msk ss')"
    using fades_trans [OF fades_puts [OF s(4)] r(4)] by simp
  then show ?case using s(1) r table_index [OF Cons.prems, of "Key it"] by (simp add: Let_def)
qed simp

lemma puts_other: "k \<notin> Key ` set its \<Longrightarrow> fold (put now) its m k = m k"
  by (induction its arbitrary: m) (auto simp: put_def)

lemma puts_item:
  "distinct (map Key its) \<Longrightarrow> it \<in> set its \<Longrightarrow> fold (put now) its m (Key it) = Some (newEntry now (Value it) (TTL it))"
  by (induction its arbitrary: m) (auto simp: put_def puts_other)

text \<open>Extraction and \<^verbatim>\<open>Set\<close> together give the entry back, unless its expiry instant is negative.\<close>

lemma item_entry:
  assumes "0 \<le> expiresAt e" "in_i64 (expiresAt e)" "\<not> (0 < expiresAt e \<and> expiresAt e \<le> now)"
  shows "newEntry now (Value (item_of now k e)) (TTL (item_of now k e)) = e"
  using assms by (cases e) (auto simp: newEntry_def item_of_def Let_def)

lemma moved_fades:
  assumes mv: "moved now old old' out" and dis: "dom old \<inter> dom m = {}"
    and sn: "sane old" and rng: "\<And>k e. old k = Some e \<Longrightarrow> in_i64 (expiresAt e)"
    and f: "fades now exact (fold (put now) out m) m'"
  shows "fades now exact (old ++ m) (old' ++ m')" and "dom old' \<inter> dom m' = {}" and "dom old' \<subseteq> dom old"
proof -
  have dist: "distinct (map Key out)" using mv by (simp add: moved_def)
  have at: "((old' ++ m') k = (old ++ m) k \<or> ((old' ++ m') k = None \<and> (exact \<longrightarrow> live now ((old ++ m) k) = None)))
      \<and> (old' k = None \<or> m' k = None) \<and> (old' k \<noteq> None \<longrightarrow> old k \<noteq> None)" for k
  proof -
    have d: "old k = None \<or> m k = None" using dis by (auto simp: disjoint_iff domIff)
    consider (kept) "old' k = old k" "k \<notin> Key ` set out"
      | (expired) e where "old' k = None" "old k = Some e" "0 < expiresAt e" "expiresAt e \<le> now" "k \<notin> Key ` set out"
      | (taken) e where "old' k = None" "old k = Some e" "\<not> (0 < expiresAt e \<and> expiresAt e \<le> now)" "item_of now k e \<in> set out"
      using moved_cases [OF mv, of k] by (auto split: if_splits)
    then show ?thesis
    proof cases
      case kept
      then show ?thesis using fades_at [OF f, of k] puts_other [OF kept(2), of now m] d
        by (auto simp: map_add_def split: option.splits)
    next
      case expired
      then have "m' k = None" using fades_at [OF f, of k] puts_other [OF expired(5), of now m] d by auto
      then show ?thesis using expired d by (auto simp: map_add_def live_def isExpired_def)
    next
      case taken
      have "Key (item_of now k e) = k" by (simp add: item_of_def)
      then have "fold (put now) out m k = Some e"
        using puts_item [OF dist taken(4), of now m] item_entry [of e now k] taken sn rng [OF taken(2)] by (simp add: sane_def)
      then show ?thesis using fades_at [OF f, of k] taken d by (auto simp: map_add_def)
    qed
  qed
  show "fades now exact (old ++ m) (old' ++ m')" unfolding fades_def using at by blast
  show "dom old' \<inter> dom m' = {}" "dom old' \<subseteq> dom old" using at by (meson disjoint_iff domIff, meson domIff subsetI)
qed

section \<open>Counting entries\<close>

lemma slot_home:
  assumes wf: "shard_wf s" and i: "i < length (subs s)" and ne: "slot_map (subs s ! i) k \<noteq> None"
  shows "subIndex s k = i"
proof -
  obtain sub where sub: "subs s ! i = Some sub" "k \<in> set (gm_keys (entries sub))"
    using ne by (cases "subs s ! i") (auto simp: slot_map_def gm_keys_iff)
  then have "i < numSubs s" using wf i unfolding shard_wf_def by (metis option.distinct(1))
  then show ?thesis using wf sub unfolding shard_wf_def by blast
qed

lemma shard_entries_card:
  assumes wf: "shard_wf s"
  shows "finite (dom (shard_lookup s))" and "shard_entries s = card (dom (shard_lookup s))"
proof -
  let ?D = "\<lambda>i. dom (slot_map (subs s ! i))" and ?n = "length (subs s)"
  have u: "dom (shard_lookup s) = (\<Union>i<?n. ?D i)"
  proof
    show "dom (shard_lookup s) \<subseteq> (\<Union>i<?n. ?D i)"
      by (auto simp: shard_lookup_def slot_map_def split: if_splits option.splits)
    show "(\<Union>i<?n. ?D i) \<subseteq> dom (shard_lookup s)"
    proof
      fix k assume "k \<in> (\<Union>i<?n. ?D i)"
      then obtain i where i: "i < ?n" "slot_map (subs s ! i) k \<noteq> None" by blast
      then show "k \<in> dom (shard_lookup s)"
        using slot_home [OF wf i] by (auto simp: shard_lookup_def slot_map_def split: option.splits)
    qed
  qed
  have fin: "finite (?D i)" for i
    by (cases "subs s ! i") (simp_all add: finite_dom_map_of, simp add: slot_map_def dom_def)
  have dis: "?D i \<inter> ?D j = {}" if "i < ?n" "j < ?n" "i \<noteq> j" for i j
    using slot_home [OF wf that(1)] slot_home [OF wf that(2)] that(3) by blast
  have one: "(case subs s ! i of Some sub \<Rightarrow> length (entries sub) | None \<Rightarrow> 0) = card (?D i)" if "i < ?n" for i
  proof (cases "subs s ! i")
    case (Some sub)
    then have "Some sub \<in> set (subs s)" using that by (metis nth_mem)
    then have "gm_wf (entries sub)" using shard_wf_sub [OF wf] by (simp add: sub_wf_def)
    then show ?thesis using Some
      by (simp add: dom_map_of_conv_image_fst gm_wf_def gm_keys_def distinct_card [of "map fst (entries sub)", simplified])
  qed (simp add: slot_map_def dom_def)
  have "shard_entries s = (\<Sum>i<?n. case subs s ! i of Some sub \<Rightarrow> length (entries sub) | None \<Rightarrow> 0)"
    by (simp add: shard_entries_def sum_list_sum_nth atLeast0LessThan)
  also have "\<dots> = (\<Sum>i<?n. card (?D i))" using one by simp
  also have "\<dots> = card (\<Union>i<?n. ?D i)"
    using fin dis by (intro card_UN_disjoint [symmetric]) auto
  finally show "shard_entries s = card (dom (shard_lookup s))" using u by simp
  show "finite (dom (shard_lookup s))" using u fin by simp
qed

lemma entries_mono:
  assumes "shard_wf s" "shard_wf s'" "dom (shard_lookup s') \<subseteq> dom (shard_lookup s)"
  shows "shard_entries s' \<le> shard_entries s"
  using shard_entries_card [OF assms(1)] shard_entries_card [OF assms(2)] card_mono [OF _ assms(3)] by simp

lemma moved_dom: "moved now m m' out \<Longrightarrow> dom m' \<subseteq> dom m"
proof
  fix k assume mv: "moved now m m' out" and "k \<in> dom m'"
  then show "k \<in> dom m" using moved_cases [OF mv, of k] by auto
qed

lemma entries_moved:
  assumes "shard_wf s" "shard_wf s'" "moved now (shard_lookup s) (shard_lookup s') out"
  shows "shard_entries s' \<le> shard_entries s" and "out \<noteq> [] \<Longrightarrow> shard_entries s' < shard_entries s"
proof -
  note sub = moved_dom [OF assms(3)]
  show "shard_entries s' \<le> shard_entries s" using assms sub by (intro entries_mono)
  assume "out \<noteq> []"
  then obtain x where "x \<in> set out" by (cases out) auto
  then have "Key x \<in> dom (shard_lookup s)" "Key x \<notin> dom (shard_lookup s')" using moved_key [OF assms(3), of "Key x"] by auto
  then have "dom (shard_lookup s') \<subset> dom (shard_lookup s)" using sub by blast
  then show "shard_entries s' < shard_entries s"
    using shard_entries_card [OF assms(1)] shard_entries_card [OF assms(2)] psubset_card_mono by metis
qed

section \<open>Draining a shard\<close>

text \<open>The fuel of the batch step is enough: the loop ends because the shard is empty.\<close>

lemma drain_loop_spec:
  assumes "table_wf msk ss" "shard_wf s" "numSubs s = subShardsPerShard" "0 \<le> now" "iter_order ord" "shard_entries s < fuel"
  shows "\<exists>s' ss' out. drain_loop fuel ord now (\<lambda>k. OldShardIndex k msk) s ss = Ret (s', ss')
     \<and> table_wf msk ss' \<and> frames ss' = frames ss \<and> moved now (shard_lookup s) (\<lambda>_. None) out
     \<and> fades now (unbounded ss) (fold (put now) out (tbl_map msk ss)) (tbl_map msk ss')"
  using assms
proof (induction fuel arbitrary: s ss)
  case (Suc fuel)
  from ExtractN_spec [OF Suc.prems(2-5), of 1000] obtain s1 out1 where
    x: "ExtractN ord now s 1000 = Ret (s1, out1)" "shard_wf s1" "same_frame s s1" "moved now (shard_lookup s) (shard_lookup s1) out1"
       "int (length out1) < 1000 \<longrightarrow> shard_lookup s1 = (\<lambda>_. None)" by auto
  show ?case
  proof (cases "out1 = []")
    case True
    then show ?thesis using x Suc.prems(1) by (auto intro!: exI [of _ "[]"])
  next
    case False
    obtain ss1 where m: "migrate_loop now (\<lambda>k. OldShardIndex k msk) out1 ss = Ret ss1" "table_wf msk ss1" "frames ss1 = frames ss"
      "fades now (unbounded ss) (fold (put now) out1 (tbl_map msk ss)) (tbl_map msk ss1)"
      using migrate_loop_spec [OF Suc.prems(1)] by blast
    have n1: "numSubs s1 = subShardsPerShard" using x(3) Suc.prems(3) by (simp add: same_frame_def)
    have e1: "shard_entries s1 < fuel"
      using entries_moved(2) [OF Suc.prems(2) x(2,4) False] Suc.prems(6) by simp
    obtain s' ss' out where r: "drain_loop fuel ord now (\<lambda>k. OldShardIndex k msk) s1 ss1 = Ret (s', ss')"
      "table_wf msk ss'" "frames ss' = frames ss1" "moved now (shard_lookup s1) (\<lambda>_. None) out"
      "fades now (unbounded ss1) (fold (put now) out (tbl_map msk ss1)) (tbl_map msk ss')"
      using Suc.IH [OF m(2) x(2) n1 Suc.prems(4,5) e1] by blast
    have "fades now (unbounded ss) (fold (put now) (out1 @ out) (tbl_map msk ss)) (tbl_map msk ss')"
      using fades_trans [OF fades_puts [OF m(4)]] r(5) frames_unbounded [OF m(3)] by simp
    then show ?thesis using x(1) m(1,3) r False moved_trans [OF x(4) r(4)] by auto
  qed
qed simp

section \<open>The contract of a rehashing strategy\<close>

text \<open>What a step keeps: the new table stays well formed, the joint map loses only expired (or, in a
  bounded table, evicted) entries, and no key is in both tables.\<close>

definition step_keeps :: "int \<Rightarrow> 32 word \<Rightarrow> shard list \<Rightarrow> entry_map \<Rightarrow> shard list \<Rightarrow> entry_map \<Rightarrow> bool" where
  "step_keeps now msk ns old ns' old' \<longleftrightarrow> table_wf msk ns' \<and> frames ns' = frames ns
     \<and> fades now (unbounded ns) (old ++ tbl_map msk ns) (old' ++ tbl_map msk ns')
     \<and> dom old' \<inter> dom (tbl_map msk ns') = {}"

definition joint_wf :: "32 word \<Rightarrow> shard list \<Rightarrow> entry_map \<Rightarrow> bool" where
  "joint_wf msk ns old \<longleftrightarrow> table_wf msk ns \<and> dom old \<inter> dom (tbl_map msk ns) = {} \<and> sane (old ++ tbl_map msk ns)"

lemma step_keeps_joint: "joint_wf msk ns old \<Longrightarrow> step_keeps now msk ns old ns' old' \<Longrightarrow> joint_wf msk ns' old'"
  by (auto simp: joint_wf_def step_keeps_def intro: fades_sane)

lemma step_keeps_refl: "joint_wf msk ns old \<Longrightarrow> step_keeps now msk ns old ns old"
  by (simp add: joint_wf_def step_keeps_def)

lemma step_keeps_trans:
  assumes "step_keeps now msk ns old ns1 old1" "step_keeps now msk ns1 old1 ns2 old2"
  shows "step_keeps now msk ns old ns2 old2"
proof -
  have f: "frames ns1 = frames ns" using assms(1) by (simp add: step_keeps_def)
  show ?thesis
    using assms fades_trans unfolding step_keeps_def frames_unbounded [OF f] by (metis f)
qed

text \<open>\<open>n\<close> steps in a row.\<close>

fun step_times :: "nat \<Rightarrow> ('r \<Rightarrow> shard list \<Rightarrow> ('r \<times> shard list \<times> bool \<times> bool) go) \<Rightarrow> 'r \<Rightarrow> shard list \<Rightarrow> ('r \<times> shard list) go" where
  "step_times 0 f r ns = Ret (r, ns)"
| "step_times (Suc n) f r ns = go_bind (f r ns) (\<lambda>(r, ns, finished, justCompleted). step_times n f r ns)"

locale rehash_strategy =
  fixes step :: "(gostring list \<Rightarrow> gostring list) \<Rightarrow> int \<Rightarrow> (gostring \<Rightarrow> nat) \<Rightarrow> 'r \<Rightarrow> shard list
      \<Rightarrow> ('r \<times> shard list \<times> bool \<times> bool) go"
    and running :: "'r \<Rightarrow> bool"
    and inv :: "'r \<Rightarrow> bool"
    and old_map :: "'r \<Rightarrow> entry_map"
    and rank :: "'r \<Rightarrow> nat"
  assumes idle_step: "\<not> running r \<Longrightarrow> step ord now ix r ns = Ret (r, ns, True, False)"
    and idle_map: "\<not> running r \<Longrightarrow> old_map r = Map.empty"
    and running_step: "inv r \<Longrightarrow> running r \<Longrightarrow> 0 \<le> now \<Longrightarrow> iter_order ord \<Longrightarrow> joint_wf msk ns (old_map r) \<Longrightarrow>
      \<exists>r' ns'. step ord now (\<lambda>k. OldShardIndex k msk) r ns = Ret (r', ns', \<not> running r', \<not> running r')
        \<and> inv r' \<and> rank r' < rank r \<and> step_keeps now msk ns (old_map r) ns' (old_map r')"
begin

lemma one_step:
  assumes "inv r" "0 \<le> now" "iter_order ord" "joint_wf msk ns (old_map r)"
  shows "\<exists>r' ns'. step ord now (\<lambda>k. OldShardIndex k msk) r ns = Ret (r', ns', \<not> running r', running r \<and> \<not> running r')
     \<and> inv r' \<and> rank r' \<le> rank r \<and> (running r' \<longrightarrow> running r \<and> rank r' < rank r)
     \<and> step_keeps now msk ns (old_map r) ns' (old_map r')"
proof (cases "running r")
  case True
  from running_step [OF assms(1) True assms(2-4)] show ?thesis using True less_imp_le by auto
next
  case False
  then show ?thesis using idle_step [OF False] assms step_keeps_refl [OF assms(4)] by auto
qed

lemma steps_finish:
  assumes "inv r" "0 \<le> now" "iter_order ord" "joint_wf msk ns (old_map r)" "rank r \<le> n"
  shows "\<exists>r' ns'. step_times n (step ord now (\<lambda>k. OldShardIndex k msk)) r ns = Ret (r', ns')
     \<and> inv r' \<and> \<not> running r' \<and> step_keeps now msk ns (old_map r) ns' Map.empty"
  using assms
proof (induction n arbitrary: r ns)
  case 0
  then have "\<not> running r" using running_step [OF 0(1) _ 0(2-4)] by auto
  then show ?case using 0 step_keeps_refl [OF 0(4)] idle_map [of r] by simp
next
  case (Suc n)
  show ?case
  proof (cases "running r")
    case True
    from running_step [OF Suc.prems(1) True Suc.prems(2-4)] obtain r1 ns1 where
      s: "step ord now (\<lambda>k. OldShardIndex k msk) r ns = Ret (r1, ns1, \<not> running r1, \<not> running r1)"
      "inv r1" "rank r1 < rank r" "step_keeps now msk ns (old_map r) ns1 (old_map r1)" by blast
    have "rank r1 \<le> n" using s(3) Suc.prems(5) by simp
    from Suc.IH [OF s(2) Suc.prems(2,3) step_keeps_joint [OF Suc.prems(4) s(4)] this] s
    show ?thesis using step_keeps_trans [OF s(4)] by auto
  next
    case False
    have i: "step_times m (step ord now (\<lambda>k. OldShardIndex k msk)) r ns = Ret (r, ns)" for m
      using idle_step [OF False] by (induction m) simp_all
    then show ?thesis using False Suc.prems(1) step_keeps_refl [OF Suc.prems(4)] idle_map [OF False] by metis
  qed
qed

end

section \<open>The incremental rehasher\<close>

text \<open>The map of the old table of a running rehash.\<close>

definition state_map :: "rehash_state \<Rightarrow> entry_map" where
  "state_map r = (if rehashing r then (case oldShards r of Some old \<Rightarrow> tbl_map (oldMask r) old | None \<Rightarrow> Map.empty) else Map.empty)"

definition old_wf :: "rehash_state \<Rightarrow> bool" where
  "old_wf r \<longleftrightarrow> (rehashing r \<longrightarrow> (case oldShards r of None \<Rightarrow> False | Some old \<Rightarrow>
      table_wf (oldMask r) old \<and> (\<forall>s\<in>set old. numSubs s = subShardsPerShard)))"

definition inc_inv :: "rehash_state \<Rightarrow> bool" where
  "inc_inv r \<longleftrightarrow> 0 < batchSize r \<and> old_wf r \<and> (rehashing r \<longrightarrow> (case oldShards r of None \<Rightarrow> False | Some old \<Rightarrow>
      rehashIdx r < length old \<and> (\<forall>i<rehashIdx r. shard_lookup (old ! i) = Map.empty)))"

definition inc_rank :: "rehash_state \<Rightarrow> nat" where
  "inc_rank r = (if rehashing r then (case oldShards r of None \<Rightarrow> 0 | Some old \<Rightarrow>
      sum_list (map shard_entries old) + (length old - rehashIdx r)) else 0)"

lemma sum_entries_upd:
  assumes "i < length ss"
  shows "sum_list (map shard_entries (ss[i := s'])) + shard_entries (ss ! i) = sum_list (map shard_entries ss) + shard_entries s'"
proof -
  have "shard_entries (ss ! i) \<le> sum_list (map shard_entries ss)"
    using elem_le_sum_list [of i "map shard_entries ss"] assms by simp
  then show ?thesis using assms sum_list_update [of i "map shard_entries ss" "shard_entries s'"]
    by (simp add: map_update)
qed

text \<open>What extraction from one shard of a table does to the map of the table.\<close>

lemma table_extract:
  assumes wf: "table_wf msk old" and i: "i < length old" and s': "shard_wf s'"
    and mv: "moved now (shard_lookup (old ! i)) (shard_lookup s') out"
  shows "table_wf msk (old[i := s'])" and "moved now (tbl_map msk old) (tbl_map msk (old[i := s'])) out"
proof -
  have keys: "OldShardIndex k msk = i" if "shard_lookup s' k \<noteq> None" for k
    using moved_dom [OF mv] that table_home [OF wf i, of k] by blast
  note u = table_upd [OF wf i s' keys]
  show "table_wf msk (old[i := s'])" by (rule u(1))
  have out: "OldShardIndex k msk = i" if "k \<in> Key ` set out" for k
    using moved_key(2) [OF mv that] table_home [OF wf i, of k] by blast
  have d: "distinct (map Key out)" using mv by (simp add: moved_def)
  have "(tbl_map msk (old[i := s']) k = tbl_map msk old k \<and> k \<notin> Key ` set out)
     \<or> (tbl_map msk (old[i := s']) k = None \<and> (\<exists>e. tbl_map msk old k = Some e \<and>
          (if 0 < expiresAt e \<and> expiresAt e \<le> now then k \<notin> Key ` set out else item_of now k e \<in> set out)))" for k
  proof (cases "OldShardIndex k msk = i")
    case True
    then show ?thesis using moved_cases [OF mv, of k] u(2) [of k] by (simp add: tbl_map_def)
  next
    case False
    then show ?thesis using out [of k] u(2) [of k] by auto
  qed
  with d show "moved now (tbl_map msk old) (tbl_map msk (old[i := s'])) out" unfolding moved_def by blast
qed

lemma tbl_map_i64: "table_wf msk ss \<Longrightarrow> tbl_map msk ss k = Some e \<Longrightarrow> in_i64 (expiresAt e)"
  unfolding tbl_map_def by (rule shard_lookup_i64 [OF table_shard [OF _ table_index]])

lemma joint_sane_old: "joint_wf msk ns old \<Longrightarrow> sane old"
  unfolding joint_wf_def sane_def
proof (intro allI impI, elim conjE)
  fix k e
  assume d: "dom old \<inter> dom (tbl_map msk ns) = {}" and s: "\<forall>k e. (old ++ tbl_map msk ns) k = Some e \<longrightarrow> 0 \<le> expiresAt e"
    and k: "old k = Some e"
  then have "tbl_map msk ns k = None" by (auto simp: disjoint_iff domIff)
  then have "(old ++ tbl_map msk ns) k = Some e" using k by (simp add: map_add_def)
  from s [rule_format, OF this] show "0 \<le> expiresAt e" .
qed

lemma migrate_keeps:
  assumes "joint_wf msk ns old" "moved now old old' out" "\<And>k e. old k = Some e \<Longrightarrow> in_i64 (expiresAt e)"
    and "table_wf msk ns'" "frames ns' = frames ns"
    and "fades now (unbounded ns) (fold (put now) out (tbl_map msk ns)) (tbl_map msk ns')"
  shows "step_keeps now msk ns old ns' old'"
  using moved_fades [OF assms(2) _ joint_sane_old [OF assms(1)] assms(3,6)] assms by (simp add: step_keeps_def joint_wf_def)

lemma inc_running_step:
  assumes inv: "inc_inv r" and run: "rehashing r" and now: "0 \<le> now" and ord: "iter_order ord"
    and j: "joint_wf msk ns (state_map r)"
  shows "\<exists>r' ns'. Incremental_Step ord now (\<lambda>k. OldShardIndex k msk) r ns = Ret (r', ns', \<not> rehashing r', \<not> rehashing r')
     \<and> inc_inv r' \<and> inc_rank r' < inc_rank r \<and> step_keeps now msk ns (state_map r) ns' (state_map r')"
proof -
  obtain old where old: "oldShards r = Some old" "table_wf (oldMask r) old" "\<forall>s\<in>set old. numSubs s = subShardsPerShard"
    "rehashIdx r < length old" "\<forall>i<rehashIdx r. shard_lookup (old ! i) = Map.empty" "0 < batchSize r"
    using inv run by (auto simp: inc_inv_def old_wf_def split: option.splits)
  let ?i = "rehashIdx r"
  have s: "shard_wf (old ! ?i)" "numSubs (old ! ?i) = subShardsPerShard"
    using table_shard [OF old(2,4)] old(3,4) by auto
  from ExtractN_spec [OF s now ord, of "batchSize r"] old(6) obtain s' out where
    x: "ExtractN ord now (old ! ?i) (batchSize r) = Ret (s', out)" "shard_wf s'" "same_frame (old ! ?i) s'"
       "moved now (shard_lookup (old ! ?i)) (shard_lookup s') out"
       "int (length out) < batchSize r \<longrightarrow> shard_lookup s' = Map.empty" by auto
  have wf: "table_wf msk ns" using j by (simp add: joint_wf_def)
  obtain ns' where m: "migrate_loop now (\<lambda>k. OldShardIndex k msk) out ns = Ret ns'" "table_wf msk ns'" "frames ns' = frames ns"
    "fades now (unbounded ns) (fold (put now) out (tbl_map msk ns)) (tbl_map msk ns')"
    using migrate_loop_spec [OF wf] by blast
  let ?old = "old[?i := s']"
  have sm: "state_map r = tbl_map (oldMask r) old" using run old(1) by (simp add: state_map_def)
  note t = table_extract [OF old(2,4) x(2,4)]
  have keeps: "step_keeps now msk ns (state_map r) ns' (tbl_map (oldMask r) ?old)"
    using tbl_map_i64 [OF old(2)] by (intro migrate_keeps [OF j _ _ m(2-4)]) (simp_all add: sm t(2))
  have subs: "\<forall>s\<in>set ?old. numSubs s = subShardsPerShard"
    using old(3) x(3) s(2) by (auto simp: same_frame_def dest!: subsetD [OF set_update_subset_insert])
  have before: "\<forall>i<?i. shard_lookup (?old ! i) = Map.empty" using old(5) by simp
  have rank: "inc_rank r = sum_list (map shard_entries old) + (length old - ?i)" using run old(1) by (simp add: inc_rank_def)
  have sum: "sum_list (map shard_entries ?old) \<le> sum_list (map shard_entries old)"
    "out \<noteq> [] \<Longrightarrow> sum_list (map shard_entries ?old) < sum_list (map shard_entries old)"
    using entries_moved [OF s(1) x(2,4)] sum_entries_upd [OF old(4), of s'] by auto
  have res: "Incremental_Step ord now (\<lambda>k. OldShardIndex k msk) r ns =
     (let r = r\<lparr>oldShards := Some ?old\<rparr> in
      if out = [] then
        (let r = r\<lparr>rehashIdx := ?i + 1\<rparr> in
         if ?i + 1 \<ge> length old then Ret (r\<lparr>rehashing := False, oldShards := None\<rparr>, ns', True, True) else Ret (r, ns', False, False))
      else Ret (r, ns', False, False))"
    using run old(1,4) x(1) m(1) by (simp add: Incremental_Step_def Let_def)
  consider (more) "out \<noteq> []" | (advance) "out = []" "?i + 1 < length old" | (complete) "out = []" "length old \<le> ?i + 1" by linarith
  then show ?thesis
  proof cases
    case more
    then show ?thesis using res run old(4,6) t(1) subs before keeps rank sum
      by (simp add: inc_inv_def old_wf_def inc_rank_def state_map_def)
  next
    case advance
    then have "shard_lookup s' = Map.empty" using x(5) old(6) by simp
    then have "\<forall>i<Suc ?i. shard_lookup (?old ! i) = Map.empty" using before old(4) by (auto simp: less_Suc_eq)
    then show ?thesis using advance res run old(4,6) t(1) subs keeps rank sum
      by (simp add: inc_inv_def old_wf_def inc_rank_def state_map_def)
  next
    case complete
    then have "shard_lookup s' = Map.empty" using x(5) old(6) by simp
    then have "\<forall>i<length ?old. shard_lookup (?old ! i) = Map.empty"
      using before complete(2) old(4) by (auto simp: nth_list_update less_Suc_eq_le le_less)
    then have "tbl_map (oldMask r) ?old = Map.empty" using table_index [OF t(1)] by (auto simp: tbl_map_def)
    then show ?thesis using complete res run old(4,6) keeps rank
      by (simp add: inc_inv_def old_wf_def inc_rank_def state_map_def)
  qed
qed

interpretation incremental: rehash_strategy Incremental_Step rehashing inc_inv state_map inc_rank
  using inc_running_step by unfold_locales (simp_all add: Incremental_Step_def state_map_def)

section \<open>The batch rehasher\<close>

definition batch_rank :: "rehash_state \<Rightarrow> nat" where
  "batch_rank r = (if rehashing r then 1 else 0)"

text \<open>The map of the shards from index \<open>n\<close> on.\<close>

definition rest_map :: "32 word \<Rightarrow> shard list \<Rightarrow> nat \<Rightarrow> entry_map" where
  "rest_map msk old n k = (if OldShardIndex k msk < n then None else tbl_map msk old k)"

lemma rest_map_0 [simp]: "rest_map msk old 0 = tbl_map msk old"
  by (simp add: rest_map_def fun_eq_iff)

lemma rest_map_all: "table_wf msk old \<Longrightarrow> rest_map msk old (length old) = Map.empty"
  by (simp add: rest_map_def fun_eq_iff table_index)

lemma rest_map_moved:
  assumes wf: "table_wf msk old" and n: "n < length old" and mv: "moved now (shard_lookup (old ! n)) (\<lambda>_. None) out"
  shows "moved now (rest_map msk old n) (rest_map msk old (Suc n)) out"
proof -
  have out: "OldShardIndex k msk = n" if "k \<in> Key ` set out" for k
    using moved_key(2) [OF mv that] table_home [OF wf n, of k] by blast
  have d: "distinct (map Key out)" using mv by (simp add: moved_def)
  have "(rest_map msk old (Suc n) k = rest_map msk old n k \<and> k \<notin> Key ` set out)
     \<or> (rest_map msk old (Suc n) k = None \<and> (\<exists>e. rest_map msk old n k = Some e \<and>
          (if 0 < expiresAt e \<and> expiresAt e \<le> now then k \<notin> Key ` set out else item_of now k e \<in> set out)))" for k
  proof (cases "OldShardIndex k msk = n")
    case True
    then show ?thesis using moved_cases [OF mv, of k] by (auto simp: rest_map_def tbl_map_def)
  next
    case False
    then show ?thesis using out [of k] by (auto simp: rest_map_def)
  qed
  with d show ?thesis unfolding moved_def by blast
qed

lemma batch_loop_keeps:
  assumes wf: "table_wf omsk old" and subs: "\<forall>s\<in>set old. numSubs s = subShardsPerShard"
    and now: "0 \<le> now" and ord: "iter_order ord"
  shows "n \<le> length old \<Longrightarrow> joint_wf msk ns (rest_map omsk old n) \<Longrightarrow>
    \<exists>ns'. batch_loop ord now (\<lambda>k. OldShardIndex k msk) (drop n old) ns = Ret ns'
      \<and> step_keeps now msk ns (rest_map omsk old n) ns' Map.empty"
proof (induction "length old - n" arbitrary: n ns)
  case 0
  then have "n = length old" by simp
  then show ?case using 0(3) step_keeps_refl [OF 0(3)] rest_map_all [OF wf] by simp
next
  case (Suc d)
  then have n: "n < length old" by simp
  have j: "table_wf msk ns" using Suc.prems(2) by (simp add: joint_wf_def)
  have s: "shard_wf (old ! n)" "numSubs (old ! n) = subShardsPerShard" using table_shard [OF wf n] subs n by auto
  obtain s' ns1 out where dr: "drain_loop (Suc (shard_entries (old ! n))) ord now (\<lambda>k. OldShardIndex k msk) (old ! n) ns = Ret (s', ns1)"
    "table_wf msk ns1" "frames ns1 = frames ns" "moved now (shard_lookup (old ! n)) (\<lambda>_. None) out"
    "fades now (unbounded ns) (fold (put now) out (tbl_map msk ns)) (tbl_map msk ns1)"
    using drain_loop_spec [OF j s now ord lessI] by blast
  have rng: "in_i64 (expiresAt e)" if "rest_map omsk old n k = Some e" for k e
    using that tbl_map_i64 [OF wf] by (auto simp: rest_map_def split: if_splits)
  have k: "step_keeps now msk ns (rest_map omsk old n) ns1 (rest_map omsk old (Suc n))"
    by (rule migrate_keeps [OF Suc.prems(2) rest_map_moved [OF wf n dr(4)] rng dr(2,3,5)])
  have "d = length old - Suc n" "Suc n \<le> length old" using Suc(2) n by auto
  from Suc(1) [OF this step_keeps_joint [OF Suc.prems(2) k]] obtain ns' where
    "batch_loop ord now (\<lambda>k. OldShardIndex k msk) (drop (Suc n) old) ns1 = Ret ns'"
    "step_keeps now msk ns1 (rest_map omsk old (Suc n)) ns' Map.empty" by blast
  then show ?case using dr(1) step_keeps_trans [OF k] Cons_nth_drop_Suc [OF n, symmetric] by (simp del: drain_loop.simps)
qed

lemma batch_running_step:
  assumes inv: "old_wf r" and run: "rehashing r" and now: "0 \<le> now" and ord: "iter_order ord"
    and j: "joint_wf msk ns (state_map r)"
  shows "\<exists>r' ns'. Batch_Step ord now (\<lambda>k. OldShardIndex k msk) r ns = Ret (r', ns', \<not> rehashing r', \<not> rehashing r')
     \<and> old_wf r' \<and> batch_rank r' < batch_rank r \<and> step_keeps now msk ns (state_map r) ns' (state_map r')"
proof -
  obtain old where old: "oldShards r = Some old" "table_wf (oldMask r) old" "\<forall>s\<in>set old. numSubs s = subShardsPerShard"
    using inv run by (auto simp: old_wf_def split: option.splits)
  have sm: "state_map r = rest_map (oldMask r) old 0" using run old(1) by (simp add: state_map_def)
  from batch_loop_keeps [OF old(2,3) now ord le0 j [unfolded sm]] show ?thesis
    using run old(1) by (auto simp: Batch_Step_def the_default_def old_wf_def batch_rank_def state_map_def)
qed

interpretation batch: rehash_strategy Batch_Step rehashing old_wf state_map batch_rank
  using batch_running_step by unfold_locales (simp_all add: Batch_Step_def state_map_def)

section \<open>Any rehasher\<close>

fun rehasher_inv :: "rehasher \<Rightarrow> bool" where
  "rehasher_inv (IncrementalRehasher r) = inc_inv r"
| "rehasher_inv (BatchRehasher r) = old_wf r"
| "rehasher_inv NoopRehasher = True"

fun rehasher_map :: "rehasher \<Rightarrow> entry_map" where
  "rehasher_map (IncrementalRehasher r) = state_map r"
| "rehasher_map (BatchRehasher r) = state_map r"
| "rehasher_map NoopRehasher = Map.empty"

fun rehasher_rank :: "rehasher \<Rightarrow> nat" where
  "rehasher_rank (IncrementalRehasher r) = inc_rank r"
| "rehasher_rank (BatchRehasher r) = batch_rank r"
| "rehasher_rank NoopRehasher = 0"

lemma any_running_step:
  assumes "rehasher_inv r" "IsRehashing r" "0 \<le> now" "iter_order ord" "joint_wf msk ns (rehasher_map r)"
  shows "\<exists>r' ns'. Rehasher_Step ord now (\<lambda>k. OldShardIndex k msk) r ns = Ret (r', ns', \<not> IsRehashing r', \<not> IsRehashing r')
     \<and> rehasher_inv r' \<and> rehasher_rank r' < rehasher_rank r \<and> step_keeps now msk ns (rehasher_map r) ns' (rehasher_map r')"
proof (cases r)
  case (IncrementalRehasher s)
  then obtain s' ns' where "Incremental_Step ord now (\<lambda>k. OldShardIndex k msk) s ns = Ret (s', ns', \<not> rehashing s', \<not> rehashing s')"
    "inc_inv s'" "inc_rank s' < inc_rank s" "step_keeps now msk ns (state_map s) ns' (state_map s')"
    using incremental.running_step [of s now ord msk ns] assms by (auto simp: Incremental_IsRehashing_def)
  then show ?thesis using IncrementalRehasher by (auto simp: Incremental_IsRehashing_def intro!: exI [of _ "IncrementalRehasher s'"])
next
  case (BatchRehasher s)
  then obtain s' ns' where "Batch_Step ord now (\<lambda>k. OldShardIndex k msk) s ns = Ret (s', ns', \<not> rehashing s', \<not> rehashing s')"
    "old_wf s'" "batch_rank s' < batch_rank s" "step_keeps now msk ns (state_map s) ns' (state_map s')"
    using batch.running_step [of s now ord msk ns] assms by (auto simp: Batch_IsRehashing_def)
  then show ?thesis using BatchRehasher by (auto simp: Batch_IsRehashing_def intro!: exI [of _ "BatchRehasher s'"])
qed (use assms in simp)

interpretation any_rehasher: rehash_strategy Rehasher_Step IsRehashing rehasher_inv rehasher_map rehasher_rank
proof unfold_locales
  fix r :: rehasher and ord now ix ns
  assume "\<not> IsRehashing r"
  then show "Rehasher_Step ord now ix r ns = Ret (r, ns, True, False)" and "rehasher_map r = Map.empty"
    by (cases r; simp add: Incremental_IsRehashing_def Batch_IsRehashing_def incremental.idle_step batch.idle_step
        incremental.idle_map batch.idle_map)+
qed (rule any_running_step)

end
