(* ===== verification/Cache_Inv.thy ===== *)
theory Cache_Inv
  imports Cache Rehash_Inv
begin

text \<open>
  The cache as one map.  \<open>cache_view\<close> is the map from keys to entries a cache stands for: the current
  table, and behind it the entries still to be migrated.  Every key-value operation returns, keeps
  the invariant, and changes that map as its name says; the rehash step it triggers moves entries
  without changing the map, and lowers the rank of the rehasher.
\<close>

section \<open>View and invariant\<close>

definition cache_view :: "cache \<Rightarrow> entry_map" where
  "cache_view c = rehasher_map (c_rehasher c) ++ tbl_map (tbl_mask c) (tbl c)"

definition cache_wf :: "cache \<Rightarrow> bool" where
  "cache_wf c \<longleftrightarrow> \<not> closed c \<and> rehasher_inv (c_rehasher c) \<and> fresh_policy (policyFactory c)
     \<and> joint_wf (tbl_mask c) (tbl c) (rehasher_map (c_rehasher c))"

definition env_ok :: "env \<Rightarrow> bool" where
  "env_ok e \<longleftrightarrow> 0 \<le> e_now e \<and> iter_order (e_ord e)
     \<and> (\<forall>name p. getPolicyFactory (e_policies e) name = Inr p \<longrightarrow> fresh_policy p)"

text \<open>What an operation leaves alone.\<close>

definition same_shape :: "cache \<Rightarrow> cache \<Rightarrow> bool" where
  "same_shape c c' \<longleftrightarrow> tbl_mask c' = tbl_mask c \<and> c_opts c' = c_opts c \<and> policyFactory c' = policyFactory c
     \<and> frames (tbl c') = frames (tbl c) \<and> (c_rehasher c' = NoopRehasher) = (c_rehasher c = NoopRehasher)"

text \<open>\<open>op_keeps now c m c'\<close>: a call at \<open>now\<close> took cache \<open>c\<close> to \<open>c'\<close>, which stands for \<open>m\<close> up to fading entries;
  if a rehash is still running, it got closer to its end.\<close>

definition op_keeps :: "int \<Rightarrow> cache \<Rightarrow> entry_map \<Rightarrow> cache \<Rightarrow> bool" where
  "op_keeps now c m c' \<longleftrightarrow> cache_wf c' \<and> same_shape c c' \<and> fades now (unbounded (tbl c)) m (cache_view c')
     \<and> (IsRehashing (c_rehasher c') \<longrightarrow> IsRehashing (c_rehasher c) \<and> rehasher_rank (c_rehasher c') < rehasher_rank (c_rehasher c))"

lemma shardIndexFor_old: "shardIndexFor k msk = OldShardIndex k msk"
  by (simp add: shardIndexFor_def OldShardIndex_def)

lemma shardIndex_old: "shardIndex c = (\<lambda>k. OldShardIndex k (tbl_mask c))"
  by (simp add: shardIndex_def OldShardIndex_def fun_eq_iff)

lemma log_only [simp]:
  "cache_wf (c\<lparr>c_log := l\<rparr>) = cache_wf c" "cache_view (c\<lparr>c_log := l\<rparr>) = cache_view c"
  "same_shape c0 (c\<lparr>c_log := l\<rparr>) = same_shape c0 c" "op_keeps now c0 m (c\<lparr>c_log := l\<rparr>) = op_keeps now c0 m c"
  by (simp_all add: cache_wf_def cache_view_def same_shape_def op_keeps_def)

lemma emit_log: "\<exists>l. emit ev c = c\<lparr>c_log := l\<rparr>"
  by (auto simp: emit_def)

lemma emit_simps [simp]:
  "cache_wf (emit ev c) = cache_wf c" "cache_view (emit ev c) = cache_view c" "same_shape c0 (emit ev c) = same_shape c0 c"
  "op_keeps now c0 m (emit ev c) = op_keeps now c0 m c"
  "tbl (emit ev c) = tbl c" "tbl_mask (emit ev c) = tbl_mask c" "c_rehasher (emit ev c) = c_rehasher c" "c_opts (emit ev c) = c_opts c"
  "policyFactory (emit ev c) = policyFactory c" "closed (emit ev c) = closed c"
  by (simp_all add: emit_def)

lemma emits_log: "\<exists>l. fold (\<lambda>k. emit (ev k)) ks c = c\<lparr>c_log := l\<rparr>"
proof (induction ks arbitrary: c)
  case Nil
  show ?case by (auto intro: exI [of _ "c_log c"])
next
  case (Cons k ks)
  then obtain l where "fold (\<lambda>k. emit (ev k)) ks (emit (ev k) c) = (emit (ev k) c)\<lparr>c_log := l\<rparr>" by blast
  then have "fold (\<lambda>k. emit (ev k)) (k # ks) c = c\<lparr>c_log := l\<rparr>" by (simp add: emit_def [of "ev k" c])
  then show ?case by blast
qed

lemma cache_wf_table: "cache_wf c \<Longrightarrow> table_wf (tbl_mask c) (tbl c)"
  by (simp add: cache_wf_def joint_wf_def)

section \<open>The rehash step\<close>

lemma step_noop: "Rehasher_Step ord now ix r ns = Ret (r', x) \<Longrightarrow> (r' = NoopRehasher) = (r = NoopRehasher)"
  by (cases r) auto

lemma rehash_step_keeps:
  assumes wf: "cache_wf c" and e: "env_ok e"
  shows "\<exists>c'. rehash_step e c = Ret c' \<and> op_keeps (e_now e) c (cache_view c) c'"
proof -
  have j: "rehasher_inv (c_rehasher c)" "joint_wf (tbl_mask c) (tbl c) (rehasher_map (c_rehasher c))" using wf by (simp_all add: cache_wf_def)
  have t: "0 \<le> e_now e" "iter_order (e_ord e)" using e by (simp_all add: env_ok_def)
  from any_rehasher.one_step [OF j(1) t j(2)] obtain r ns where
    s: "Rehasher_Step (e_ord e) (e_now e) (shardIndex c) (c_rehasher c) (tbl c) =
        Ret (r, ns, \<not> IsRehashing r, IsRehashing (c_rehasher c) \<and> \<not> IsRehashing r)"
    "rehasher_inv r" "IsRehashing r \<longrightarrow> IsRehashing (c_rehasher c) \<and> rehasher_rank r < rehasher_rank (c_rehasher c)"
    "step_keeps (e_now e) (tbl_mask c) (tbl c) (rehasher_map (c_rehasher c)) ns (rehasher_map r)"
    unfolding shardIndex_old by blast
  let ?c = "c\<lparr>tbl := ns, c_rehasher := r\<rparr>"
  have "op_keeps (e_now e) c (cache_view c) ?c"
    using wf s(2-4) step_keeps_joint [OF j(2) s(4)] step_noop [OF s(1)]
    by (simp add: op_keeps_def cache_wf_def same_shape_def step_keeps_def cache_view_def)
  then show ?thesis using s(1) by (simp add: rehash_step_def Let_def)
qed

lemma op_keeps_step:
  assumes a: "cache_wf c1" "same_shape c c1" "fades now (unbounded (tbl c)) m (cache_view c1)"
    and r: "IsRehashing (c_rehasher c1) = IsRehashing (c_rehasher c)" "rehasher_rank (c_rehasher c1) \<le> rehasher_rank (c_rehasher c)"
    and b: "op_keeps now c1 (cache_view c1) c2"
  shows "op_keeps now c m c2"
proof -
  have "unbounded (tbl c1) = unbounded (tbl c)" using a(2) by (intro frames_unbounded) (simp add: same_shape_def)
  then have "fades now (unbounded (tbl c)) m (cache_view c2)"
    using fades_trans [OF a(3)] b by (simp add: op_keeps_def)
  then show ?thesis using a(2) b r by (auto simp: op_keeps_def same_shape_def)
qed

section \<open>Operations on one key of a shard\<close>

text \<open>\<open>key_op k f g res\<close>: \<open>f\<close> returns on every well-formed shard, replaces the entry of \<open>k\<close> by \<open>g\<close> of it and
  returns \<open>res\<close> of it.\<close>

definition key_op :: "gostring \<Rightarrow> (shard \<Rightarrow> (shard \<times> 'a) go) \<Rightarrow> (cacheEntry option \<Rightarrow> cacheEntry option)
    \<Rightarrow> (cacheEntry option \<Rightarrow> 'a) \<Rightarrow> bool" where
  "key_op k f g res \<longleftrightarrow> g None = None \<and> (\<forall>s. shard_wf s \<longrightarrow> (\<exists>s'. f s = Ret (s', res (shard_lookup s k)) \<and> shard_wf s'
     \<and> shard_lookup s' = (shard_lookup s)(k := g (shard_lookup s k)) \<and> numSubs s' = numSubs s \<and> maxSubSize s' = maxSubSize s))"

lemma key_op_rule:
  assumes "key_op k f g res" "shard_wf s"
  obtains s' where "f s = Ret (s', res (shard_lookup s k))" "shard_wf s'"
    "shard_lookup s' = (shard_lookup s)(k := g (shard_lookup s k))" "numSubs s' = numSubs s" "maxSubSize s' = maxSubSize s"
  using assms unfolding key_op_def by blast

lemma key_op_get: "key_op k (\<lambda>s. shard_get now s k) (purge now) (live now)"
  unfolding key_op_def using shard_get_spec [of _ now k] by (fastforce simp: same_frame_def)

lemma key_op_del: "key_op k (\<lambda>s. go_bind (shard_Del s k) (\<lambda>s. Ret (s, ()))) (\<lambda>_. None) (\<lambda>_. ())"
  unfolding key_op_def using shard_Del_spec [of _ k] by fastforce

lemma with_shard_key:
  assumes wf: "table_wf (tbl_mask c) (tbl c)" and f: "key_op k f g res"
  shows "\<exists>ss. with_shard c k f = Ret (c\<lparr>tbl := ss\<rparr>, res (tbl_map (tbl_mask c) (tbl c) k)) \<and> table_wf (tbl_mask c) ss
     \<and> frames ss = frames (tbl c)
     \<and> tbl_map (tbl_mask c) ss = (tbl_map (tbl_mask c) (tbl c))(k := g (tbl_map (tbl_mask c) (tbl c) k))"
proof -
  let ?i = "OldShardIndex k (tbl_mask c)"
  have i: "?i < length (tbl c)" by (rule table_index [OF wf])
  obtain s' where s: "f (tbl c ! ?i) = Ret (s', res (shard_lookup (tbl c ! ?i) k))" "shard_wf s'"
    "shard_lookup s' = (shard_lookup (tbl c ! ?i))(k := g (shard_lookup (tbl c ! ?i) k))"
    "numSubs s' = numSubs (tbl c ! ?i)" "maxSubSize s' = maxSubSize (tbl c ! ?i)"
    by (rule key_op_rule [OF f table_shard [OF wf i]])
  note u = table_upd_key [OF wf s(2,3)]
  show ?thesis
    using u s(1) i frames_upd [OF i s(4,5)]
    by (intro exI [of _ "(tbl c)[?i := s']"]) (simp add: with_shard_def shardIndexFor_old Let_def tbl_map_def)
qed

lemma table_update_empty:
  assumes "g None = None" "shard_lookup s' = (shard_lookup (old ! i))(k := g (shard_lookup (old ! i) k))" "i < length old"
    and "\<forall>j<n. shard_lookup (old ! j) = Map.empty" "n \<le> length old"
  shows "\<forall>j<n. shard_lookup (old[i := s'] ! j) = Map.empty"
  using assms by (auto simp: nth_list_update)

text \<open>The same operation on the shard of the old table, for the state both strategies share.\<close>

lemma old_state_key:
  assumes inv: "old_wf r" and run: "rehashing r" and f: "key_op k f g res"
  shows "\<exists>old s'. oldShards r = Some old
     \<and> (let i = OldShardIndex k (oldMask r); r' = r\<lparr>oldShards := Some (old[i := s'])\<rparr> in
         i < length old \<and> f (old ! i) = Ret (s', res (state_map r k)) \<and> old_wf r'
         \<and> state_map r' = (state_map r)(k := g (state_map r k)) \<and> inc_rank r' \<le> inc_rank r
         \<and> (inc_inv r \<longrightarrow> inc_inv r'))"
proof -
  obtain old where old: "oldShards r = Some old" "table_wf (oldMask r) old" "\<forall>s\<in>set old. numSubs s = subShardsPerShard"
    using inv run by (auto simp: old_wf_def split: option.splits)
  let ?i = "OldShardIndex k (oldMask r)"
  have i: "?i < length old" by (rule table_index [OF old(2)])
  have w: "shard_wf (old ! ?i)" by (rule table_shard [OF old(2) i])
  obtain s' where s: "f (old ! ?i) = Ret (s', res (shard_lookup (old ! ?i) k))" "shard_wf s'"
    "shard_lookup s' = (shard_lookup (old ! ?i))(k := g (shard_lookup (old ! ?i) k))" "numSubs s' = numSubs (old ! ?i)"
    by (rule key_op_rule [OF f w])
  have g: "g None = None" using f by (simp add: key_op_def)
  note u = table_upd_key [OF old(2) s(2,3)]
  have n: "\<forall>s\<in>set (old[?i := s']). numSubs s = subShardsPerShard"
    using old(3) s(4) i by (auto dest!: subsetD [OF set_update_subset_insert])
  have "dom (shard_lookup s') \<subseteq> dom (shard_lookup (old ! ?i))" using s(3) g by (cases "shard_lookup (old ! ?i) k") auto
  then have "shard_entries s' \<le> shard_entries (old ! ?i)" using w s(2) by (intro entries_mono)
  then have rank: "sum_list (map shard_entries (old[?i := s'])) \<le> sum_list (map shard_entries old)"
    using sum_entries_upd [OF i, of s'] by simp
  have sm: "state_map r = tbl_map (oldMask r) old" using run old(1) by (simp add: state_map_def)
  have ii: "inc_inv (r\<lparr>oldShards := Some (old[?i := s'])\<rparr>)" if "inc_inv r"
    using that run old(1) u(1) n table_update_empty [OF g s(3) i, of "rehashIdx r"] by (simp add: inc_inv_def old_wf_def)
  show ?thesis
    using old(1) i s(1) u n rank ii run sm
    by (intro exI [of _ old] exI [of _ s']) (simp add: Let_def old_wf_def state_map_def inc_rank_def tbl_map_def)
qed

lemma with_OldShard_key:
  assumes inv: "rehasher_inv r" and run: "IsRehashing r" and f: "key_op k f g res"
  shows "\<exists>r'. with_OldShard r k f = Ret (r', Some (res (rehasher_map r k))) \<and> rehasher_inv r' \<and> IsRehashing r'
     \<and> rehasher_map r' = (rehasher_map r)(k := g (rehasher_map r k)) \<and> rehasher_rank r' \<le> rehasher_rank r
     \<and> r' \<noteq> NoopRehasher"
proof (cases r)
  case (IncrementalRehasher s)
  have "old_wf s" "rehashing s" "inc_inv s" using inv run IncrementalRehasher by (auto simp: inc_inv_def Incremental_IsRehashing_def)
  from old_state_key [OF this(1,2) f] this show ?thesis
    using IncrementalRehasher by (auto simp: Incremental_OldShard_def Incremental_IsRehashing_def Let_def)
next
  case (BatchRehasher s)
  have "old_wf s" "rehashing s" using inv run BatchRehasher by (auto simp: Batch_IsRehashing_def)
  from old_state_key [OF this f] this show ?thesis
    using BatchRehasher by (auto simp: Batch_OldShard_def Batch_IsRehashing_def Let_def batch_rank_def)
qed (use run in simp)

section \<open>Set, Get and Del\<close>

lemma view_set:
  assumes d: "dom old \<inter> dom m = {}" and f: "fades now exact (m(k := x)) m'"
  shows "fades now exact ((old ++ m)(k := x)) (old(k := None) ++ m')" and "dom (old(k := None)) \<inter> dom m' = {}"
proof -
  have at: "((old(k := None) ++ m') j = ((old ++ m)(k := x)) j
      \<or> ((old(k := None) ++ m') j = None \<and> (exact \<longrightarrow> live now (((old ++ m)(k := x)) j) = None)))
      \<and> ((old(k := None)) j = None \<or> m' j = None)" for j
  proof -
    have "old j = None \<or> m j = None" using d by (auto simp: disjoint_iff domIff)
    then show ?thesis using fades_at [OF f, of j] by (cases "j = k") (auto simp: map_add_def split: option.splits)
  qed
  show "fades now exact ((old ++ m)(k := x)) (old(k := None) ++ m')" unfolding fades_def using at by blast
  show "dom (old(k := None)) \<inter> dom m' = {}" using at by (meson disjoint_iff domIff)
qed

lemma old_Del_idle: "\<not> IsRehashing r \<Longrightarrow> rehasher_map r = Map.empty"
  by (rule any_rehasher.idle_map)

text \<open>The second half of \<^verbatim>\<open>Set\<close> and \<^verbatim>\<open>Del\<close>: with the new table already changed, the key leaves the old
  table and the rehash steps on.\<close>

lemma finish_write:
  assumes wf: "cache_wf c" and e: "env_ok e" and ss: "table_wf (tbl_mask c) ss" "frames ss = frames (tbl c)"
    and f: "fades (e_now e) (unbounded (tbl c)) ((tbl_map (tbl_mask c) (tbl c))(k := x)) (tbl_map (tbl_mask c) ss)"
    and sx: "\<And>en. x = Some en \<Longrightarrow> 0 \<le> expiresAt en"
  shows "\<exists>c'. (if IsRehashing (c_rehasher c)
       then go_bind (old_Del k (c\<lparr>tbl := ss, c_log := l\<rparr>)) (\<lambda>c. go_bind (rehash_step e c) (\<lambda>c. Ret (c, Inr ())))
       else Ret (c\<lparr>tbl := ss, c_log := l\<rparr>, Inr ())) = Ret (c', Inr () :: unit result)
     \<and> op_keeps (e_now e) c ((cache_view c)(k := x)) c'"
proof -
  let ?old = "rehasher_map (c_rehasher c)" and ?m = "tbl_map (tbl_mask c) (tbl c)" and ?m' = "tbl_map (tbl_mask c) ss"
  have d: "dom ?old \<inter> dom ?m = {}" and sn: "sane (cache_view c)" and inv: "rehasher_inv (c_rehasher c)"
    using wf by (simp_all add: cache_wf_def joint_wf_def cache_view_def)
  note v = view_set [OF d f]
  have sn': "sane (?old(k := None) ++ ?m')"
    using sn sx by (intro fades_sane [OF v(1)]) (auto simp: sane_def cache_view_def)
  show ?thesis
  proof (cases "IsRehashing (c_rehasher c)")
    case True
    obtain r where r: "with_OldShard (c_rehasher c) k (\<lambda>s. go_bind (shard_Del s k) (\<lambda>s. Ret (s, ()))) = Ret (r, Some ())"
      "rehasher_inv r" "IsRehashing r" "rehasher_map r = ?old(k := None)" "rehasher_rank r \<le> rehasher_rank (c_rehasher c)" "r \<noteq> NoopRehasher"
      using with_OldShard_key [OF inv True key_op_del [of k]] by auto
    let ?c = "c\<lparr>tbl := ss, c_log := l, c_rehasher := r\<rparr>"
    have nn: "c_rehasher c \<noteq> NoopRehasher" using True by auto
    have w: "cache_wf ?c" using wf r(2,4) v(2) sn' ss(1) by (simp add: cache_wf_def joint_wf_def)
    obtain c' where c': "rehash_step e ?c = Ret c'" "op_keeps (e_now e) ?c (cache_view ?c) c'"
      using rehash_step_keeps [OF w e] by blast
    have "op_keeps (e_now e) c ((cache_view c)(k := x)) c'"
      by (rule op_keeps_step [OF w _ _ _ _ c'(2)]) (use r True v(1) ss(2) nn in \<open>simp_all add: same_shape_def cache_view_def\<close>)
    moreover have "old_Del k (c\<lparr>tbl := ss, c_log := l\<rparr>) = Ret ?c" using r(1) by (simp add: old_Del_def)
    ultimately show ?thesis using True c'(1) by auto
  next
    case False
    then have o: "?old = Map.empty" by (rule old_Del_idle)
    then have "op_keeps (e_now e) c ((cache_view c)(k := x)) (c\<lparr>tbl := ss, c_log := l\<rparr>)"
      using wf False v sn' ss by (simp add: op_keeps_def cache_wf_def joint_wf_def same_shape_def cache_view_def)
    then show ?thesis using False by simp
  qed
qed

definition set_ttl :: "cache \<Rightarrow> int list \<Rightarrow> int" where
  "set_ttl c ttl = (case ttl of t # _ \<Rightarrow> max t 0 | [] \<Rightarrow> defaultTTL (c_opts c))"

lemma newEntry_sane: "0 \<le> now \<Longrightarrow> now + ttl < 2 ^ 63 \<Longrightarrow> 0 \<le> expiresAt (newEntry now v ttl)"
  by (auto simp: newEntry_def Let_def i64_def)

lemma Cache_Set_keeps:
  assumes wf: "cache_wf c" and e: "env_ok e" and k: "k \<noteq> []" and ov: "e_now e + set_ttl c ttl < 2 ^ 63"
  shows "\<exists>c'. Cache_Set e c k (Some v) ttl = Ret (c', Inr ())
     \<and> op_keeps (e_now e) c ((cache_view c)(k \<mapsto> newEntry (e_now e) v (set_ttl c ttl))) c'"
proof -
  let ?i = "OldShardIndex k (tbl_mask c)" and ?d = "set_ttl c ttl"
  note t = cache_wf_table [OF wf]
  obtain s' ev where s: "shard_Set (e_now e) (tbl c ! ?i) k v ?d = Ret (s', ev)" "table_wf (tbl_mask c) ((tbl c)[?i := s'])"
    "frames ((tbl c)[?i := s']) = frames (tbl c)"
    "fades (e_now e) (unbounded (tbl c)) ((tbl_map (tbl_mask c) (tbl c))(k \<mapsto> newEntry (e_now e) v ?d)) (tbl_map (tbl_mask c) ((tbl c)[?i := s']))"
    using table_Set [OF t] by blast
  let ?c = "c\<lparr>tbl := (tbl c)[?i := s']\<rparr>"
  obtain l where l: "fold (\<lambda>ek. emit (OnEvict ek)) ev (emit (OnSet k) ?c) = ?c\<lparr>c_log := l\<rparr>"
    using emits_log [of OnEvict ev "emit (OnSet k) ?c"] by (auto simp: emit_def)
  have "with_shard c k (\<lambda>s. shard_Set (e_now e) s k v ?d) = Ret (?c, ev)"
    using s(1) table_index [OF t, of k] by (simp add: with_shard_def shardIndexFor_old Let_def)
  then have "Cache_Set e c k (Some v) ttl =
     (if IsRehashing (c_rehasher c)
      then go_bind (old_Del k (?c\<lparr>c_log := l\<rparr>)) (\<lambda>c. go_bind (rehash_step e c) (\<lambda>c. Ret (c, Inr ())))
      else Ret (?c\<lparr>c_log := l\<rparr>, Inr ()))"
    using wf k l by (simp add: Cache_Set_def validateOpen_def validateKeyValue_def cache_wf_def set_ttl_def Let_def)
  moreover have "0 \<le> expiresAt (newEntry (e_now e) v ?d)" using e ov by (intro newEntry_sane) (simp_all add: env_ok_def)
  ultimately show ?thesis using finish_write [OF wf e s(2-4), of l] by simp
qed

lemma Cache_Del_keeps:
  assumes wf: "cache_wf c" and e: "env_ok e" and k: "k \<noteq> []"
  shows "\<exists>c'. Cache_Del e c k = Ret (c', Inr ()) \<and> op_keeps (e_now e) c ((cache_view c)(k := None)) c'"
proof -
  obtain ss where s: "with_shard c k (\<lambda>s. go_bind (shard_Del s k) (\<lambda>s. Ret (s, ()))) = Ret (c\<lparr>tbl := ss\<rparr>, ())"
    "table_wf (tbl_mask c) ss" "frames ss = frames (tbl c)" "tbl_map (tbl_mask c) ss = (tbl_map (tbl_mask c) (tbl c))(k := None)"
    using with_shard_key [OF cache_wf_table [OF wf] key_op_del [of k]] by auto
  obtain l where l: "emit (OnDel k) (c\<lparr>tbl := ss\<rparr>) = c\<lparr>tbl := ss, c_log := l\<rparr>" by (auto simp: emit_def)
  have "Cache_Del e c k =
     (if IsRehashing (c_rehasher c)
      then go_bind (old_Del k (c\<lparr>tbl := ss, c_log := l\<rparr>)) (\<lambda>c. go_bind (rehash_step e c) (\<lambda>c. Ret (c, Inr ())))
      else Ret (c\<lparr>tbl := ss, c_log := l\<rparr>, Inr ()))"
    using wf k s(1) l by (simp add: Cache_Del_def validateOpen_def cache_wf_def Let_def)
  then show ?thesis using finish_write [OF wf e s(2,3), of k None l] s(4) by simp
qed

text \<open>Reading drops an entry that has expired, from either table.\<close>

lemma purge_view:
  fixes now :: int and k :: gostring
  assumes d: "dom old \<inter> dom m = {}"
  defines "m' \<equiv> m(k := purge now (m k))"
  shows "fades now exact (old ++ m) (old ++ m')" "dom old \<inter> dom m' = {}"
    and "fades now exact (old ++ m) (old(k := purge now (old k)) ++ m')" "dom (old(k := purge now (old k))) \<inter> dom m' = {}"
proof -
  let ?old = "old(k := purge now (old k))"
  have at: "((old ++ m') j = (old ++ m) j \<or> ((old ++ m') j = None \<and> live now ((old ++ m) j) = None))
     \<and> ((?old ++ m') j = (old ++ m) j \<or> ((?old ++ m') j = None \<and> live now ((old ++ m) j) = None))
     \<and> (old j = None \<or> m' j = None) \<and> (?old j = None \<or> m' j = None)" for j
  proof -
    have "old j = None \<or> m j = None" using d by (auto simp: disjoint_iff domIff)
    then show ?thesis
      by (cases "j = k") (auto simp: m'_def map_add_def purge_def live_def split: option.splits)
  qed
  show "fades now exact (old ++ m) (old ++ m')" "fades now exact (old ++ m) (?old ++ m')"
    unfolding fades_def using at by blast+
  show "dom old \<inter> dom m' = {}" "dom ?old \<inter> dom m' = {}" using at by (meson disjoint_iff domIff)+
qed

lemma finish_read:
  assumes wf: "cache_wf c1" and e: "env_ok e" and f: "same_shape c c1" "fades (e_now e) (unbounded (tbl c)) (cache_view c) (cache_view c1)"
    and r: "IsRehashing (c_rehasher c1) = IsRehashing (c_rehasher c)" "rehasher_rank (c_rehasher c1) \<le> rehasher_rank (c_rehasher c)"
  shows "\<exists>c'. rehash_step e c1 = Ret c' \<and> op_keeps (e_now e) c (cache_view c) c'"
  using rehash_step_keeps [OF wf e] op_keeps_step [OF wf f r] by blast

definition found :: "bytes option \<Rightarrow> bytes result" where
  "found v = (case v of Some v \<Rightarrow> Inr v | None \<Rightarrow> Inl ErrKeyNotFound)"

lemma Cache_Get_keeps:
  assumes wf: "cache_wf c" and e: "env_ok e" and k: "k \<noteq> []"
  shows "\<exists>c'. Cache_Get e c k = Ret (c', found (live (e_now e) (cache_view c k))) \<and> op_keeps (e_now e) c (cache_view c) c'"
proof -
  let ?now = "e_now e" and ?old = "rehasher_map (c_rehasher c)" and ?m = "tbl_map (tbl_mask c) (tbl c)"
  have d: "dom ?old \<inter> dom ?m = {}" and sn: "sane (?old ++ ?m)" and inv: "rehasher_inv (c_rehasher c)" and o: "\<not> closed c"
    using wf by (simp_all add: cache_wf_def joint_wf_def)
  have dk: "?old k = None \<or> ?m k = None" using d by (auto simp: disjoint_iff domIff)
  obtain ss where s: "with_shard c k (\<lambda>s. shard_get ?now s k) = Ret (c\<lparr>tbl := ss\<rparr>, live ?now (?m k))" "table_wf (tbl_mask c) ss"
    "frames ss = frames (tbl c)" "tbl_map (tbl_mask c) ss = ?m(k := purge ?now (?m k))"
    using with_shard_key [OF cache_wf_table [OF wf] key_op_get [of k ?now]] by auto
  note v = purge_view [OF d, where k = k and now = ?now, folded s(4)]
  let ?c1 = "c\<lparr>tbl := ss\<rparr>"
  have w1: "cache_wf ?c1" "same_shape c ?c1" "\<And>x. fades ?now x (cache_view c) (cache_view ?c1)"
    using wf s(2,3) v(1,2) fades_sane [OF v(1) sn] by (simp_all add: cache_wf_def joint_wf_def same_shape_def cache_view_def)
  have step1: "\<exists>c'. rehash_step e (emit ev ?c1) = Ret c' \<and> op_keeps ?now c (cache_view c) c'" for ev
    by (rule finish_read) (use w1 e in simp_all)
  show ?thesis
  proof (cases "IsRehashing (c_rehasher c)")
    case False
    then have "?old = Map.empty" by (rule old_Del_idle)
    moreover have "op_keeps ?now c (cache_view c) (emit ev ?c1)" for ev using w1 False by (simp add: op_keeps_def)
    ultimately show ?thesis
      using s(1) o k False by (cases "live ?now (?m k)") (simp_all add: Cache_Get_def validateOpen_def cache_view_def found_def Let_def)
  next
    case True
    show ?thesis
    proof (cases "live ?now (?m k)")
      case (Some val)
      then have "live ?now (cache_view c k) = Some val"
        by (auto simp: cache_view_def map_add_def live_def split: option.splits)
      then show ?thesis using s(1) o k True Some step1 [of "OnHit k"]
        by (auto simp: Cache_Get_def validateOpen_def found_def Let_def)
    next
      case None
      obtain r where r: "with_OldShard (c_rehasher c) k (\<lambda>s. shard_get ?now s k) = Ret (r, Some (live ?now (?old k)))"
        "rehasher_inv r" "IsRehashing r" "rehasher_map r = ?old(k := purge ?now (?old k))"
        "rehasher_rank r \<le> rehasher_rank (c_rehasher c)" "r \<noteq> NoopRehasher"
        using with_OldShard_key [OF inv True key_op_get [of k ?now]] by auto
      let ?c2 = "?c1\<lparr>c_rehasher := r\<rparr>"
      have nn: "c_rehasher c \<noteq> NoopRehasher" using True by auto
      have w2: "cache_wf ?c2" "same_shape c ?c2" "\<And>x. fades ?now x (cache_view c) (cache_view ?c2)"
        using wf s(2,3) r(2,4) v(3,4) fades_sane [OF v(3) sn] r(6) nn
        by (simp_all add: cache_wf_def joint_wf_def same_shape_def cache_view_def)
      have step2: "\<exists>c'. rehash_step e (emit ev ?c2) = Ret c' \<and> op_keeps ?now c (cache_view c) c'" for ev
        by (rule finish_read) (use w2 e r(3,5) True in simp_all)
      have lv: "live ?now (cache_view c k) = live ?now (?old k)"
        using None dk by (auto simp: cache_view_def map_add_def split: option.splits)
      show ?thesis
        using s(1) o k True None r(1,3) lv step2 [of "OnHit k"] step2 [of "OnMiss k"]
        by (cases "live ?now (?old k)") (auto simp: Cache_Get_def validateOpen_def found_def Let_def)
    qed
  qed
qed

section \<open>Operations on all shards\<close>

definition all_op :: "(shard \<Rightarrow> (shard \<times> int) go) \<Rightarrow> (cacheEntry option \<Rightarrow> cacheEntry option) \<Rightarrow> bool" where
  "all_op f g \<longleftrightarrow> g None = None \<and> (\<forall>s. shard_wf s \<longrightarrow> (\<exists>s' n. f s = Ret (s', n) \<and> shard_wf s'
     \<and> shard_lookup s' = (\<lambda>k. g (shard_lookup s k)) \<and> numSubs s' = numSubs s \<and> maxSubSize s' = maxSubSize s))"

lemma all_op_cleanup: "iter_order ord \<Longrightarrow> all_op (cleanup ord now) (purge now)"
  unfolding all_op_def using cleanup_spec [of _ ord now] by (fastforce simp: same_frame_def)

lemma all_op_swap: "iter_order (e_ord e) \<Longrightarrow> fresh_policy p \<Longrightarrow> all_op (swap_shard e p) (\<lambda>x. x)"
  unfolding all_op_def using swapPolicy_spec [of _ "e_ord e" p] by (fastforce simp: same_frame_def swap_shard_def)

lemma each_shard_all:
  assumes f: "all_op f g"
  shows "\<forall>s\<in>set ss. shard_wf s \<Longrightarrow> \<exists>ss' n. each_shard f ss = Ret (ss', n) \<and> frames ss' = frames ss \<and> (\<forall>s\<in>set ss'. shard_wf s)
     \<and> map shard_lookup ss' = map (\<lambda>s k. g (shard_lookup s k)) ss"
proof (induction ss)
  case (Cons s ss)
  then obtain s' n where "f s = Ret (s', n)" "shard_wf s'" "shard_lookup s' = (\<lambda>k. g (shard_lookup s k))"
    "numSubs s' = numSubs s" "maxSubSize s' = maxSubSize s" using f unfolding all_op_def by (meson list.set_intros(1))
  then show ?case using Cons by (auto simp: frames_def)
qed (simp add: frames_def)

lemma each_shard_table:
  assumes wf: "table_wf msk ss" and f: "all_op f g"
  shows "\<exists>ss' n. each_shard f ss = Ret (ss', n) \<and> table_wf msk ss' \<and> frames ss' = frames ss
     \<and> tbl_map msk ss' = (\<lambda>k. g (tbl_map msk ss k))
     \<and> (\<forall>i<length ss. shard_lookup (ss' ! i) = (\<lambda>k. g (shard_lookup (ss ! i) k)))"
proof -
  obtain ss' n where r: "each_shard f ss = Ret (ss', n)" "frames ss' = frames ss" "\<forall>s\<in>set ss'. shard_wf s"
    "map shard_lookup ss' = map (\<lambda>s k. g (shard_lookup s k)) ss"
    using each_shard_all [OF f, of ss] wf by (auto simp: table_wf_def)
  have len: "length ss' = length ss" by (rule frames_length [OF r(2)])
  have at: "shard_lookup (ss' ! i) = (\<lambda>k. g (shard_lookup (ss ! i) k))" if "i < length ss" for i
    using arg_cong [OF r(4), of "\<lambda>xs. xs ! i"] that len by simp
  have g: "g None = None" using f by (simp add: all_op_def)
  have home: "OldShardIndex k msk = i" if "i < length ss" "shard_lookup (ss' ! i) k \<noteq> None" for i k
  proof (rule table_home [OF wf that(1)])
    show "shard_lookup (ss ! i) k \<noteq> None" using that at [OF that(1)] g by (cases "shard_lookup (ss ! i) k") auto
  qed
  have "table_wf msk ss'"
    using wf len r(3) home by (auto simp: table_wf_def)
  moreover have "tbl_map msk ss' = (\<lambda>k. g (tbl_map msk ss k))"
    using at [OF table_index [OF wf]] by (simp add: tbl_map_def fun_eq_iff)
  ultimately show ?thesis using r(1,2) at by blast
qed

lemma old_state_all:
  assumes inv: "old_wf r" and run: "rehashing r" and f: "all_op f g"
  shows "\<exists>old old' n. oldShards r = Some old \<and> each_shard f old = Ret (old', n)
     \<and> (let r' = r\<lparr>oldShards := Some old'\<rparr> in
         old_wf r' \<and> state_map r' = (\<lambda>k. g (state_map r k)) \<and> (inc_inv r \<longrightarrow> inc_inv r'))"
proof -
  obtain old where old: "oldShards r = Some old" "table_wf (oldMask r) old" "\<forall>s\<in>set old. numSubs s = subShardsPerShard"
    using inv run by (auto simp: old_wf_def split: option.splits)
  obtain old' n where r: "each_shard f old = Ret (old', n)" "table_wf (oldMask r) old'" "frames old' = frames old"
    "tbl_map (oldMask r) old' = (\<lambda>k. g (tbl_map (oldMask r) old k))"
    "\<forall>i<length old. shard_lookup (old' ! i) = (\<lambda>k. g (shard_lookup (old ! i) k))"
    using each_shard_table [OF old(2) f] by blast
  have fr: "(\<forall>s\<in>set ss. numSubs s = subShardsPerShard) \<longleftrightarrow> (\<forall>x\<in>set (frames ss). fst x = subShardsPerShard)" for ss
    by (simp add: frames_def)
  have n: "\<forall>s\<in>set old'. numSubs s = subShardsPerShard" using old(3) unfolding fr r(3) .
  have g: "g None = None" using f by (simp add: all_op_def)
  have "inc_inv (r\<lparr>oldShards := Some old'\<rparr>)" if "inc_inv r"
    using that run old(1) r(2,5) n g frames_length [OF r(3)] by (auto simp: inc_inv_def old_wf_def)
  then show ?thesis using old(1) r run n by (simp add: Let_def old_wf_def state_map_def)
qed

lemma each_old_shard_all:
  assumes inv: "rehasher_inv r" and f: "all_op f g"
  shows "\<exists>r' n. each_old_shard f r = Ret (r', n) \<and> rehasher_inv r' \<and> rehasher_map r' = (\<lambda>k. g (rehasher_map r k))
     \<and> IsRehashing r' = IsRehashing r \<and> (r' = NoopRehasher) = (r = NoopRehasher)"
proof (cases "IsRehashing r")
  case False
  then have "OldShards r = None" by (cases r) (auto simp: Incremental_OldShards_def Batch_OldShards_def Incremental_IsRehashing_def Batch_IsRehashing_def)
  then show ?thesis using inv f old_Del_idle [OF False] by (simp add: each_old_shard_def all_op_def)
next
  case True
  then show ?thesis
  proof (cases r)
    case (IncrementalRehasher s)
    have "old_wf s" "rehashing s" "inc_inv s" using inv True IncrementalRehasher by (auto simp: inc_inv_def Incremental_IsRehashing_def)
    from old_state_all [OF this(1,2) f] this show ?thesis
      using IncrementalRehasher by (auto simp: each_old_shard_def Incremental_OldShards_def Incremental_IsRehashing_def Let_def)
  next
    case (BatchRehasher s)
    have "old_wf s" "rehashing s" using inv True BatchRehasher by (auto simp: Batch_IsRehashing_def)
    from old_state_all [OF this f] this show ?thesis
      using BatchRehasher by (auto simp: each_old_shard_def Batch_OldShards_def Batch_IsRehashing_def Let_def)
  qed simp
qed

text \<open>An administrative call: like \<open>op_keeps\<close>, without progress of the rehash.\<close>

definition admin_keeps :: "int \<Rightarrow> cache \<Rightarrow> entry_map \<Rightarrow> cache \<Rightarrow> bool" where
  "admin_keeps now c m c' \<longleftrightarrow> cache_wf c' \<and> c_opts c' = c_opts c \<and> frames (tbl c') = frames (tbl c)
     \<and> (c_rehasher c' = NoopRehasher) = (c_rehasher c = NoopRehasher) \<and> fades now True m (cache_view c')"

lemma all_shards_keep:
  assumes wf: "cache_wf c" and f: "all_op f g" and g: "\<And>x. g x = x \<or> (g x = None \<and> live now x = None)" and p: "fresh_policy p"
  shows "\<exists>ss n r m. each_shard f (tbl c) = Ret (ss, n) \<and> each_old_shard f (c_rehasher c) = Ret (r, m)
     \<and> admin_keeps now c (cache_view c) (c\<lparr>policyName := nm, policyFactory := p, tbl := ss, c_rehasher := r\<rparr>)"
proof -
  let ?old = "rehasher_map (c_rehasher c)" and ?m = "tbl_map (tbl_mask c) (tbl c)"
  have inv: "rehasher_inv (c_rehasher c)" and d: "dom ?old \<inter> dom ?m = {}" and sn: "sane (?old ++ ?m)"
    using wf by (simp_all add: cache_wf_def joint_wf_def)
  obtain ss n where s: "each_shard f (tbl c) = Ret (ss, n)" "table_wf (tbl_mask c) ss" "frames ss = frames (tbl c)"
    "tbl_map (tbl_mask c) ss = (\<lambda>k. g (?m k))" using each_shard_table [OF cache_wf_table [OF wf] f] by blast
  obtain r m where r: "each_old_shard f (c_rehasher c) = Ret (r, m)" "rehasher_inv r" "rehasher_map r = (\<lambda>k. g (?old k))"
    "(r = NoopRehasher) = (c_rehasher c = NoopRehasher)" using each_old_shard_all [OF inv f] by blast
  have g0: "g None = None" using f by (simp add: all_op_def)
  have at: "(((\<lambda>k. g (?old k)) ++ (\<lambda>k. g (?m k))) k = (?old ++ ?m) k
      \<or> (((\<lambda>k. g (?old k)) ++ (\<lambda>k. g (?m k))) k = None \<and> live now ((?old ++ ?m) k) = None))
      \<and> (g (?old k) = None \<or> g (?m k) = None)" for k
  proof -
    have "?old k = None \<or> ?m k = None" using d by (auto simp: disjoint_iff domIff)
    then show ?thesis using g [of "?old k"] g [of "?m k"] g0 by (auto simp: map_add_def split: option.splits)
  qed
  have fd: "fades now True (?old ++ ?m) ((\<lambda>k. g (?old k)) ++ (\<lambda>k. g (?m k)))" unfolding fades_def using at by blast
  have "dom (\<lambda>k. g (?old k)) \<inter> dom (\<lambda>k. g (?m k)) = {}" using at by (meson disjoint_iff domIff)
  then have "admin_keeps now c (cache_view c) (c\<lparr>policyName := nm, policyFactory := p, tbl := ss, c_rehasher := r\<rparr>)"
    using wf p s(2-4) r(2-4) fd fades_sane [OF fd sn] by (simp add: admin_keeps_def cache_wf_def joint_wf_def cache_view_def)
  then show ?thesis using s(1) r(1) by blast
qed

lemma Cleanup_keeps:
  assumes wf: "cache_wf c" and e: "env_ok e"
  shows "\<exists>c' n. Cleanup e c = Ret (c', n) \<and> admin_keeps (e_now e) c (cache_view c) c'"
proof -
  have f: "all_op (cleanup (e_ord e) (e_now e)) (purge (e_now e))" using e by (intro all_op_cleanup) (simp add: env_ok_def)
  have g: "purge (e_now e) x = x \<or> (purge (e_now e) x = None \<and> live (e_now e) x = None)" for x
    by (auto simp: purge_def live_def split: option.splits)
  have p: "fresh_policy (policyFactory c)" "\<not> closed c" using wf by (simp_all add: cache_wf_def)
  from all_shards_keep [OF wf f g p(1), where nm = "policyName c"] show ?thesis using p(2) by (auto simp: Cleanup_def)
qed

lemma SetEvictionPolicy_keeps:
  assumes wf: "cache_wf c" and e: "env_ok e"
  shows "\<exists>c' r. SetEvictionPolicy e c name = Ret (c', r) \<and> admin_keeps (e_now e) c (cache_view c) c'"
proof (cases "getPolicyFactory (e_policies e) name")
  case (Inl err)
  then show ?thesis using wf by (auto simp: SetEvictionPolicy_def admin_keeps_def)
next
  case (Inr p)
  then have p: "fresh_policy p" "iter_order (e_ord e)" using e by (auto simp: env_ok_def)
  have o: "\<not> closed c" using wf by (simp add: cache_wf_def)
  from all_shards_keep [OF wf all_op_swap [OF p(2,1)] _ p(1), where nm = name and now = "e_now e"] show ?thesis
    using Inr o by (auto simp: SetEvictionPolicy_def validateOpen_def)
qed

section \<open>Creation and resizing\<close>

lemma unat_pred_less:
  assumes "1 \<le> n"
  shows "unat (word_of_int (n - 1) :: 32 word) < nat n"
proof -
  have "uint (word_of_int (n - 1) :: 32 word) = (n - 1) mod 2 ^ 32" by (subst uint_word_of_int) simp
  also have "\<dots> \<le> n - 1" using assms by (intro zmod_le_nonneg_dividend) simp
  finally have "uint (word_of_int (n - 1) :: 32 word) < n" by simp
  then show ?thesis by (simp only: unat_eq_nat_uint) (use assms in \<open>simp only: nat_less_eq_zless uint_ge_0\<close>)
qed

lemma new_table:
  assumes "fresh_policy p" "1 \<le> n"
  shows "table_wf (word_of_int (n - 1)) (replicate (nat n) (newShard p mx))"
    and "tbl_map (word_of_int (n - 1)) (replicate (nat n) (newShard p mx)) = Map.empty"
proof -
  note u = unat_pred_less [OF assms(2)]
  have all: "\<forall>s\<in>set (replicate (nat n) (newShard p mx)). shard_wf s"
    using newShard_spec(1) [OF assms(1)] by simp
  have nth: "shard_lookup (replicate (nat n) (newShard p mx) ! i) k = None" if "i < nat n" for i k
    unfolding nth_replicate [OF that] by (rule newShard_spec(3) [OF assms(1)])
  show "table_wf (word_of_int (n - 1)) (replicate (nat n) (newShard p mx))"
    unfolding table_wf_def length_replicate using u all nth by simp
  show "tbl_map (word_of_int (n - 1)) (replicate (nat n) (newShard p mx)) = Map.empty"
    by (rule ext) (simp only: tbl_map_def nth [OF index_less [OF u]])
qed

text \<open>A limit per shard with which all eight sub-shards exist: none, or at least sixteen.\<close>

definition roomy :: "int \<Rightarrow> bool" where
  "roomy mx \<longleftrightarrow> mx \<le> 0 \<or> 16 \<le> mx"

lemma roomy_subs: "roomy mx \<Longrightarrow> numSubs (newShard p mx) = subShardsPerShard"
  by (auto simp: roomy_def newShard_def effectiveSubShards_def subShardsPerShard_def Let_def)

lemma new_unbounded:
  assumes "mx \<le> 0"
  shows "unbounded (replicate n (newShard p mx))"
proof -
  have "sgn mx * (- mx div 8) \<le> 0" using assms by (intro mult_nonpos_nonneg) (simp_all add: sgn_if pos_imp_zdiv_nonneg_iff)
  then show ?thesis
    using assms by (auto simp: unbounded_def newShard_def Let_def effectiveSubShards_def subShardsPerShard_def go_div_def)
qed

definition all_subs :: "shard list \<Rightarrow> bool" where
  "all_subs ss \<longleftrightarrow> (\<forall>s\<in>set ss. numSubs s = subShardsPerShard)"

lemma frames_all_subs: "frames ss' = frames ss \<Longrightarrow> all_subs ss' = all_subs ss"
proof -
  have "all_subs ss \<longleftrightarrow> (\<forall>x\<in>set (frames ss). fst x = subShardsPerShard)" for ss by (simp add: frames_def all_subs_def)
  then show "frames ss' = frames ss \<Longrightarrow> ?thesis" by simp
qed

lemma Rehasher_Start_inv:
  assumes "rehasher_inv r" "r \<noteq> NoopRehasher" "table_wf msk ss" "all_subs ss"
  shows "rehasher_inv (Rehasher_Start ss msk r)" "rehasher_map (Rehasher_Start ss msk r) = tbl_map msk ss"
    "IsRehashing (Rehasher_Start ss msk r)" "Rehasher_Start ss msk r \<noteq> NoopRehasher"
proof -
  have "0 < length ss" using assms(3) by (auto simp: table_wf_def)
  then show "rehasher_inv (Rehasher_Start ss msk r)" "rehasher_map (Rehasher_Start ss msk r) = tbl_map msk ss"
    "IsRehashing (Rehasher_Start ss msk r)" "Rehasher_Start ss msk r \<noteq> NoopRehasher"
    using assms by (cases r; simp add: Incremental_Start_def Batch_Start_def inc_inv_def old_wf_def state_map_def all_subs_def
        Incremental_IsRehashing_def Batch_IsRehashing_def)+
qed

lemma bad_shards_pos: "\<not> bad_shards n \<Longrightarrow> 1 \<le> n"
  by (simp add: bad_shards_def)

lemma Resize_keeps:
  assumes wf: "cache_wf c" and nn: "c_rehasher c \<noteq> NoopRehasher" and sub: "all_subs (tbl c)"
    and ok: "\<not> bad_shards n" "\<not> IsRehashing (c_rehasher c)"
  obtains c' where "Resize e c n = (c', Inr ())" "cache_wf c'" "c_opts c' = c_opts c" "c_rehasher c' \<noteq> NoopRehasher"
    "cache_view c' = cache_view c" "IsRehashing (c_rehasher c')" "length (tbl c') = nat n"
    "tbl c' = replicate (nat n) (newShard (policyFactory c) (shard_max (maxSize (c_opts c)) n))"
proof -
  let ?ss = "replicate (nat n) (newShard (policyFactory c) (shard_max (maxSize (c_opts c)) n))"
  let ?r = "Rehasher_Start (tbl c) (tbl_mask c) (c_rehasher c)"
  define c' where "c' = (emit (OnRehashStart (int (length (tbl c))) n) c)\<lparr>c_rehasher := ?r, tbl := ?ss, tbl_mask := word_of_int (n - 1)\<rparr>"
  have p: "fresh_policy (policyFactory c)" "rehasher_inv (c_rehasher c)" "\<not> closed c" using wf by (simp_all add: cache_wf_def)
  note t = new_table [OF p(1) bad_shards_pos [OF ok(1)], of "shard_max (maxSize (c_opts c)) n"]
  note r = Rehasher_Start_inv [OF p(2) nn cache_wf_table [OF wf] sub]
  have old: "rehasher_map (c_rehasher c) = Map.empty" by (rule old_Del_idle [OF ok(2)])
  have "cache_wf c'" "cache_view c' = cache_view c"
    using wf t r old by (simp_all add: c'_def cache_wf_def joint_wf_def cache_view_def emit_def)
  moreover have "Resize e c n = (c', Inr ())"
    using p(3) ok by (simp add: Resize_def validateOpen_def c'_def Let_def emit_def)
  ultimately show ?thesis using r by (intro that [of c']) (simp_all add: c'_def emit_def)
qed

end
