(* ===== verification/Cache_Run.thy ===== *)
theory Cache_Run
  imports Cache_Inv
begin

text \<open>
  Programs over the cache.  A call is an environment (instant, iteration order, registries) with an
  operation; a run executes calls one after the other.  The specification is a plain map from keys
  to entries.  The theorems: every run of the cache returns and answers as the map does, through
  evictions, expiry, policy changes and any number of resizes; reachable caches satisfy the
  invariant and never panic; a rehash ends after a known number of calls.
\<close>

section \<open>Calls and their specification\<close>

datatype cache_op =
    SetOp gostring "bytes option" "int list" | GetOp gostring | DelOp gostring
  | CleanupOp | ResizeOp int | PolicyOp gostring

datatype reply = Written "unit result" | Answer "bytes result" | Admin

fun exec :: "env \<Rightarrow> cache_op \<Rightarrow> cache \<Rightarrow> (cache \<times> reply) go" where
  "exec e (SetOp k v ttl) c = go_bind (Cache_Set e c k v ttl) (\<lambda>(c, r). Ret (c, Written r))"
| "exec e (GetOp k) c = go_bind (Cache_Get e c k) (\<lambda>(c, r). Ret (c, Answer r))"
| "exec e (DelOp k) c = go_bind (Cache_Del e c k) (\<lambda>(c, r). Ret (c, Written r))"
| "exec e CleanupOp c = go_bind (Cleanup e c) (\<lambda>(c, n). Ret (c, Admin))"
| "exec e (ResizeOp n) c = Ret (fst (Resize e c n), Admin)"
| "exec e (PolicyOp name) c = go_bind (SetEvictionPolicy e c name) (\<lambda>(c, r). Ret (c, Admin))"

fun run :: "(env \<times> cache_op) list \<Rightarrow> cache \<Rightarrow> (cache \<times> reply list) go" where
  "run [] c = Ret (c, [])"
| "run ((e, op) # ops) c = go_bind (exec e op c) (\<lambda>(c, r). go_bind (run ops c) (\<lambda>(c, rs). Ret (c, r # rs)))"

definition ttl_of :: "int \<Rightarrow> int list \<Rightarrow> int" where
  "ttl_of dttl ttl = (case ttl of t # _ \<Rightarrow> max t 0 | [] \<Rightarrow> dttl)"

text \<open>The map the cache promises to be.\<close>

fun spec_exec :: "int \<Rightarrow> int \<Rightarrow> cache_op \<Rightarrow> entry_map \<Rightarrow> entry_map \<times> reply" where
  "spec_exec dttl now (SetOp k v ttl) m =
     (if k = [] then (m, Written (Inl ErrKeyEmpty))
      else case v of None \<Rightarrow> (m, Written (Inl ErrValueNil))
           | Some v \<Rightarrow> (m(k \<mapsto> newEntry now v (ttl_of dttl ttl)), Written (Inr ())))"
| "spec_exec dttl now (GetOp k) m =
     (m, Answer (if k = [] then Inl ErrKeyEmpty else found (live now (m k))))"
| "spec_exec dttl now (DelOp k) m =
     (if k = [] then (m, Written (Inl ErrKeyEmpty)) else (m(k := None), Written (Inr ())))"
| "spec_exec dttl now CleanupOp m = (m, Admin)"
| "spec_exec dttl now (ResizeOp n) m = (m, Admin)"
| "spec_exec dttl now (PolicyOp name) m = (m, Admin)"

fun spec_run :: "int \<Rightarrow> (env \<times> cache_op) list \<Rightarrow> entry_map \<Rightarrow> reply list" where
  "spec_run dttl [] m = []"
| "spec_run dttl ((e, op) # ops) m =
     (let (m, r) = spec_exec dttl (e_now e) op m in r # spec_run dttl ops m)"

text \<open>A bounded cache may also have evicted the entry the map still has.\<close>

definition agrees :: "bool \<Rightarrow> reply \<Rightarrow> reply \<Rightarrow> bool" where
  "agrees exact r spec \<longleftrightarrow> r = spec
     \<or> (\<not> exact \<and> r = Answer (Inl ErrKeyNotFound) \<and> (case spec of Answer (Inr v) \<Rightarrow> True | _ \<Rightarrow> False))"

text \<open>Calls the theorems cover: expiry instants do not overflow, and a resize leaves each shard with room for
  all its sub-shards.\<close>

fun op_ok :: "int \<Rightarrow> int \<Rightarrow> env \<times> cache_op \<Rightarrow> bool" where
  "op_ok mx dttl (e, SetOp k v ttl) = (env_ok e \<and> e_now e + ttl_of dttl ttl < 2 ^ 63)"
| "op_ok mx dttl (e, ResizeOp n) = (env_ok e \<and> roomy (shard_max mx n))"
| "op_ok mx dttl (e, op) = env_ok e"

definition cache_ok :: "cache \<Rightarrow> bool" where
  "cache_ok c \<longleftrightarrow> cache_wf c \<and> c_rehasher c \<noteq> NoopRehasher \<and> all_subs (tbl c)
     \<and> (maxSize (c_opts c) \<le> 0 \<longrightarrow> unbounded (tbl c))"

inductive cache_reach :: "options \<Rightarrow> int \<Rightarrow> cache \<Rightarrow> bool" for opts where
  created: "env_ok e \<Longrightarrow> e_rehashers e = rehashRegistry \<Longrightarrow> opt_rehasher opts \<noteq> ''noop'' \<Longrightarrow>
    roomy (shard_max (maxSize opts) (shardCount opts)) \<Longrightarrow> Cache_New e opts = Inr c \<Longrightarrow> cache_reach opts (e_now e) c"
| called: "cache_reach opts t c \<Longrightarrow> t \<le> e_now e \<Longrightarrow> op_ok (maxSize opts) (defaultTTL opts) (e, op) \<Longrightarrow>
    exec e op c = Ret (c', r) \<Longrightarrow> cache_reach opts (e_now e) c'"

text \<open>Calls on a key that pass the guards; each of them performs a rehash step.\<close>

fun keyed :: "cache_op \<Rightarrow> bool" where
  "keyed (SetOp k v ttl) = (k \<noteq> [] \<and> v \<noteq> None)"
| "keyed (GetOp k) = (k \<noteq> [])"
| "keyed (DelOp k) = (k \<noteq> [])"
| "keyed op = False"

text \<open>The environment with the built-in registries at an instant.\<close>

definition env_at :: "int \<Rightarrow> env" where
  "env_at now = \<lparr>e_now = now, e_ord = (\<lambda>ks. ks), e_intn = (\<lambda>_ _. 0), e_perm = (\<lambda>n. [0..<n]),
     e_policies = policyRegistry, e_rehashers = rehashRegistry\<rparr>"

section \<open>Simulation\<close>

inductive_cases cache_reach_cases: "cache_reach opts t c"

lemma op_ok_env: "op_ok mx dttl (e, op) \<Longrightarrow> env_ok e"
  by (cases op) auto

lemma env_ok_built_in: "0 \<le> e_now e \<Longrightarrow> iter_order (e_ord e) \<Longrightarrow> e_policies e = policyRegistry \<Longrightarrow> env_ok e"
  by (auto simp: env_ok_def getPolicyFactory_def policyRegistry_def split: if_splits)

lemma fades_imp: "fades now exact' m m' \<Longrightarrow> (exact \<Longrightarrow> exact') \<Longrightarrow> fades now exact m m'"
  unfolding fades_def by blast

lemma live_later: "live now x = None \<Longrightarrow> now \<le> now' \<Longrightarrow> live now' x = None"
  by (auto simp: live_def isExpired_def split: option.splits if_splits)

lemma fades_later: "fades now exact m m' \<Longrightarrow> now \<le> now' \<Longrightarrow> fades now' exact m m'"
  unfolding fades_def using live_later by blast

lemma op_keeps_ok:
  assumes "cache_ok c" "op_keeps now c m c'"
  shows "cache_ok c'" "c_opts c' = c_opts c" "fades now (maxSize (c_opts c) \<le> 0) m (cache_view c')"
proof -
  have f: "frames (tbl c') = frames (tbl c)" using assms(2) by (simp add: op_keeps_def same_shape_def)
  show "cache_ok c'" "c_opts c' = c_opts c"
    using assms frames_unbounded [OF f] frames_all_subs [OF f] by (simp_all add: cache_ok_def op_keeps_def same_shape_def)
  show "fades now (maxSize (c_opts c) \<le> 0) m (cache_view c')"
    by (rule fades_imp [of now "unbounded (tbl c)"]) (use assms in \<open>simp_all add: op_keeps_def cache_ok_def\<close>)
qed

lemma admin_keeps_ok:
  assumes "cache_ok c" "admin_keeps now c m c'"
  shows "cache_ok c'" "c_opts c' = c_opts c" "fades now (maxSize (c_opts c) \<le> 0) m (cache_view c')"
proof -
  have f: "frames (tbl c') = frames (tbl c)" using assms(2) by (simp add: admin_keeps_def)
  show "cache_ok c'" "c_opts c' = c_opts c"
    using assms frames_unbounded [OF f] frames_all_subs [OF f] by (simp_all add: cache_ok_def admin_keeps_def)
  show "fades now (maxSize (c_opts c) \<le> 0) m (cache_view c')"
    by (rule fades_weaken) (use assms in \<open>simp add: admin_keeps_def\<close>)
qed

lemma Resize_ok:
  assumes ok: "cache_ok c" and r: "roomy (shard_max (maxSize (c_opts c)) n)"
  shows "cache_ok (fst (Resize e c n))" "c_opts (fst (Resize e c n)) = c_opts c" "cache_view (fst (Resize e c n)) = cache_view c"
proof -
  have w: "cache_wf c" "c_rehasher c \<noteq> NoopRehasher" "all_subs (tbl c)" using ok by (simp_all add: cache_ok_def)
  have "cache_ok (fst (Resize e c n)) \<and> c_opts (fst (Resize e c n)) = c_opts c \<and> cache_view (fst (Resize e c n)) = cache_view c"
  proof (cases "bad_shards n \<or> IsRehashing (c_rehasher c)")
    case True
    then show ?thesis using ok by (auto simp: Resize_def validateOpen_def)
  next
    case False
    then obtain c' where c: "Resize e c n = (c', Inr ())" "cache_wf c'" "c_opts c' = c_opts c" "c_rehasher c' \<noteq> NoopRehasher"
      "cache_view c' = cache_view c" "tbl c' = replicate (nat n) (newShard (policyFactory c) (shard_max (maxSize (c_opts c)) n))"
      using Resize_keeps [OF w, of n e] by metis
    have "all_subs (tbl c')" using c(6) roomy_subs [OF r] by (simp add: all_subs_def)
    moreover have "unbounded (tbl c')" if "maxSize (c_opts c) \<le> 0"
      unfolding c(6) using that by (intro new_unbounded) (simp add: shard_max_def)
    ultimately show ?thesis using c by (simp add: cache_ok_def)
  qed
  then show "cache_ok (fst (Resize e c n))" "c_opts (fst (Resize e c n)) = c_opts c" "cache_view (fst (Resize e c n)) = cache_view c"
    by simp_all
qed

lemma Cache_New_ok:
  assumes e: "env_ok e" "e_rehashers e = rehashRegistry" and o: "opt_rehasher opts \<noteq> ''noop''"
    and r: "roomy (shard_max (maxSize opts) (shardCount opts))" and new: "Cache_New e opts = Inr c"
  shows "cache_ok c" "cache_view c = Map.empty" "maxSize (c_opts c) = max 0 (maxSize opts)" "defaultTTL (c_opts c) = defaultTTL opts"
    "\<not> IsRehashing (c_rehasher c)"
proof -
  let ?mx = "shard_max (maxSize opts) (shardCount opts)"
  have mx: "shard_max (if maxSize opts < 0 then 0 else maxSize opts) n = shard_max (maxSize opts) n" for n
    by (simp add: shard_max_def)
  define p where "p = policyFactory c"
  have q: "\<not> bad_shards (shardCount opts) \<and> (\<exists>name. getPolicyFactory (e_policies e) name = Inr p)
     \<and> tbl c = replicate (nat (shardCount opts)) (newShard p ?mx) \<and> tbl_mask c = word_of_int (shardCount opts - 1) \<and> \<not> closed c
     \<and> (c_rehasher c = NewIncrementalRehasher \<or> c_rehasher c = NewBatchRehasher)
     \<and> maxSize (c_opts c) = max 0 (maxSize opts) \<and> defaultTTL (c_opts c) = defaultTTL opts"
    using new e(2) o mx unfolding Cache_New_def p_def
    by (auto simp: Let_def GetFactory_def rehashRegistry_def split: if_splits sum.splits option.splits)
  then have fresh: "fresh_policy p" using e(1) by (auto simp: env_ok_def)
  have p: "\<not> bad_shards (shardCount opts)" "fresh_policy p" "policyFactory c = p"
    "tbl c = replicate (nat (shardCount opts)) (newShard p ?mx)" "tbl_mask c = word_of_int (shardCount opts - 1)" "\<not> closed c"
    "c_rehasher c = NewIncrementalRehasher \<or> c_rehasher c = NewBatchRehasher"
    "maxSize (c_opts c) = max 0 (maxSize opts)" "defaultTTL (c_opts c) = defaultTTL opts"
    using q fresh by (simp_all add: p_def)
  note t = new_table [OF p(2) bad_shards_pos [OF p(1)], of ?mx]
  have h: "rehasher_inv (c_rehasher c)" "rehasher_map (c_rehasher c) = Map.empty" "c_rehasher c \<noteq> NoopRehasher" "\<not> IsRehashing (c_rehasher c)"
    using p(7) by (auto simp: NewIncrementalRehasher_def NewBatchRehasher_def inc_inv_def old_wf_def state_map_def
        Incremental_IsRehashing_def Batch_IsRehashing_def)
  have v: "tbl_map (tbl_mask c) (tbl c) = Map.empty" "table_wf (tbl_mask c) (tbl c)" using t unfolding p(4,5) by simp_all
  have "all_subs (tbl c)" unfolding p(4) using roomy_subs [OF r] by (simp add: all_subs_def)
  moreover have "unbounded (tbl c)" if "maxSize (c_opts c) \<le> 0"
    unfolding p(4) using that p(8) by (intro new_unbounded) (simp add: shard_max_def)
  ultimately show "cache_ok c" using p(2,3,6) h v by (simp add: cache_ok_def cache_wf_def joint_wf_def sane_def)
  show "cache_view c = Map.empty" "maxSize (c_opts c) = max 0 (maxSize opts)" "defaultTTL (c_opts c) = defaultTTL opts"
    "\<not> IsRehashing (c_rehasher c)" using h v p by (simp_all add: cache_view_def)
qed

lemma ttl_of_cache: "ttl_of (defaultTTL (c_opts c)) ttl = set_ttl c ttl"
  by (simp add: ttl_of_def set_ttl_def)

lemma guarded:
  assumes "\<not> closed c"
  shows "Cache_Set e c [] v ttl = Ret (c, Inl ErrKeyEmpty)" "Cache_Get e c [] = Ret (c, Inl ErrKeyEmpty)"
    "Cache_Del e c [] = Ret (c, Inl ErrKeyEmpty)" "k \<noteq> [] \<Longrightarrow> Cache_Set e c k None ttl = Ret (c, Inl ErrValueNil)"
  using assms by (simp_all add: Cache_Set_def Cache_Get_def Cache_Del_def validateOpen_def validateKeyValue_def)

lemma found_agrees:
  assumes "fades now exact m m'"
  shows "agrees exact (Answer (found (live now (m' k)))) (Answer (found (live now (m k))))"
  using fades_at [OF assms, of k] by (auto simp: agrees_def found_def split: option.splits)

lemma exec_simulates:
  assumes ok: "cache_ok c" and o: "op_ok (maxSize (c_opts c)) (defaultTTL (c_opts c)) (e, op)"
    and m: "fades (e_now e) (maxSize (c_opts c) \<le> 0) m (cache_view c)"
    and sp: "spec_exec (defaultTTL (c_opts c)) (e_now e) op m = (m', r')"
  shows "\<exists>c' r. exec e op c = Ret (c', r) \<and> cache_ok c' \<and> c_opts c' = c_opts c
     \<and> fades (e_now e) (maxSize (c_opts c) \<le> 0) m' (cache_view c') \<and> agrees (maxSize (c_opts c) \<le> 0) r r'"
proof -
  let ?ex = "maxSize (c_opts c) \<le> 0"
  have wf: "cache_wf c" and op: "\<not> closed c" using ok by (simp_all add: cache_ok_def cache_wf_def)
  note e = op_ok_env [OF o]
  have refl: "agrees x r r" for x r by (simp add: agrees_def)
  have stored: "cache_ok c' \<and> c_opts c' = c_opts c \<and> fades (e_now e) ?ex (m(k := x)) (cache_view c')"
    if "op_keeps (e_now e) c ((cache_view c)(k := x)) c'" for c' k x
    using op_keeps_ok [OF ok that] fades_trans [OF fades_upd [OF m, of k x]] by blast
  have admin: "cache_ok c' \<and> c_opts c' = c_opts c \<and> fades (e_now e) ?ex m (cache_view c')"
    if "admin_keeps (e_now e) c (cache_view c) c'" for c'
    using admin_keeps_ok [OF ok that] fades_trans [OF m] by blast
  show ?thesis
  proof (cases op)
    case (SetOp k v ttl)
    show ?thesis
    proof (cases "k = [] \<or> v = None")
      case True
      then show ?thesis using SetOp sp ok m guarded [OF op] refl by (cases "k = []") auto
    next
      case False
      then obtain val where v: "v = Some val" by auto
      have "e_now e + set_ttl c ttl < 2 ^ 63" using o SetOp by (simp add: ttl_of_cache)
      from Cache_Set_keeps [OF wf e _ this, of k val] False obtain c' where
        "Cache_Set e c k v ttl = Ret (c', Inr ())"
        "op_keeps (e_now e) c ((cache_view c)(k \<mapsto> newEntry (e_now e) val (set_ttl c ttl))) c'" unfolding v by blast
      then show ?thesis using stored SetOp sp False v refl by (auto simp: ttl_of_cache)
    qed
  next
    case (GetOp k)
    show ?thesis
    proof (cases "k = []")
      case True
      then show ?thesis using GetOp sp ok m guarded [OF op] refl by auto
    next
      case False
      from Cache_Get_keeps [OF wf e False] obtain c' where
        c: "Cache_Get e c k = Ret (c', found (live (e_now e) (cache_view c k)))" "op_keeps (e_now e) c (cache_view c) c'" by blast
      note f = fades_trans [OF m op_keeps_ok(3) [OF ok c(2)]]
      then show ?thesis using c GetOp sp False op_keeps_ok(1,2) [OF ok c(2)] found_agrees [OF m, of k] by auto
    qed
  next
    case (DelOp k)
    show ?thesis
    proof (cases "k = []")
      case True
      then show ?thesis using DelOp sp ok m guarded [OF op] refl by auto
    next
      case False
      from Cache_Del_keeps [OF wf e False] obtain c' where
        "Cache_Del e c k = Ret (c', Inr ())" "op_keeps (e_now e) c ((cache_view c)(k := None)) c'" by blast
      then show ?thesis using stored DelOp sp False refl by auto
    qed
  next
    case CleanupOp
    from Cleanup_keeps [OF wf e] show ?thesis using admin CleanupOp sp refl by auto
  next
    case (ResizeOp n)
    then show ?thesis using Resize_ok [OF ok, of n e] o sp m refl by auto
  next
    case (PolicyOp name)
    from SetEvictionPolicy_keeps [OF wf e, of name] show ?thesis using admin PolicyOp sp refl by auto
  qed
qed

lemma run_simulates:
  assumes "cache_ok c" "\<forall>x\<in>set ops. op_ok (maxSize (c_opts c)) (defaultTTL (c_opts c)) x"
    and "sorted (map (\<lambda>x. e_now (fst x)) ops)" "\<forall>x\<in>set ops. t \<le> e_now (fst x)"
    and "fades t (maxSize (c_opts c) \<le> 0) m (cache_view c)"
  shows "\<exists>c' rs. run ops c = Ret (c', rs) \<and> cache_ok c'
     \<and> list_all2 (agrees (maxSize (c_opts c) \<le> 0)) rs (spec_run (defaultTTL (c_opts c)) ops m)"
  using assms
proof (induction ops arbitrary: c m t)
  case (Cons x ops)
  obtain e op where x: "x = (e, op)" by fastforce
  obtain m' r' where sp: "spec_exec (defaultTTL (c_opts c)) (e_now e) op m = (m', r')" by fastforce
  have "fades (e_now e) (maxSize (c_opts c) \<le> 0) m (cache_view c)"
    using Cons.prems(4,5) x by (intro fades_later [OF Cons.prems(5)]) simp
  from exec_simulates [OF Cons.prems(1) _ this sp] Cons.prems(2) x obtain c1 r where
    s: "exec e op c = Ret (c1, r)" "cache_ok c1" "c_opts c1 = c_opts c"
      "fades (e_now e) (maxSize (c_opts c) \<le> 0) m' (cache_view c1)" "agrees (maxSize (c_opts c) \<le> 0) r r'" by auto
  have "\<exists>c' rs. run ops c1 = Ret (c', rs) \<and> cache_ok c'
     \<and> list_all2 (agrees (maxSize (c_opts c1) \<le> 0)) rs (spec_run (defaultTTL (c_opts c1)) ops m')"
    using Cons.prems x s by (intro Cons.IH [of c1 "e_now e" m']) auto
  then show ?case using s sp x by auto
qed simp

lemma op_ok_max: "op_ok (max 0 mx) dttl x = op_ok mx dttl x"
  by (cases "(mx, dttl, x)" rule: op_ok.cases) (auto simp: shard_max_def)

section \<open>The cache is a map\<close>


lemma env_at_ok: "0 \<le> t \<Longrightarrow> env_ok (env_at t)"
  by (rule env_ok_built_in) (simp_all add: env_at_def)

lemma env_at_sel [simp]: "e_now (env_at t) = t" "e_rehashers (env_at t) = rehashRegistry" "e_policies (env_at t) = policyRegistry"
  by (simp_all add: env_at_def)

lemma New_default: "\<exists>c. Cache_New (env_at t) NewOptions = Inr c"
  by (simp add: Cache_New_def NewOptions_def bad_shards_def getPolicyFactory_def policyRegistry_def GetFactory_def rehashRegistry_def
      shard_max_def Let_def)


section \<open>Reachable caches\<close>

lemma cache_reach_ok:
  "cache_reach opts t c \<Longrightarrow> cache_ok c \<and> maxSize (c_opts c) = max 0 (maxSize opts) \<and> defaultTTL (c_opts c) = defaultTTL opts"
proof (induction rule: cache_reach.induct)
  case (created e c)
  then show ?case using Cache_New_ok by blast
next
  case (called t c e op c' r)
  obtain m' r' where sp: "spec_exec (defaultTTL (c_opts c)) (e_now e) op (cache_view c) = (m', r')" by fastforce
  have "op_ok (maxSize (c_opts c)) (defaultTTL (c_opts c)) (e, op)" using called by (simp add: op_ok_max)
  then show ?case using exec_simulates [OF _ _ fades_refl sp] called by fastforce
qed





section \<open>Rehashing ends\<close>

lemma exec_keyed:
  assumes ok: "cache_ok c" and o: "op_ok (maxSize (c_opts c)) (defaultTTL (c_opts c)) (e, op)" and k: "keyed op"
  shows "\<exists>c' r m. exec e op c = Ret (c', r) \<and> op_keeps (e_now e) c m c'"
proof (cases op)
  case (SetOp k' v ttl)
  then show ?thesis
    using Cache_Set_keeps [of c e k' ttl] ok o k op_ok_env [OF o] by (fastforce simp: cache_ok_def ttl_of_cache)
qed (use Cache_Get_keeps [of c e] Cache_Del_keeps [of c e] ok k op_ok_env [OF o] in \<open>fastforce simp: cache_ok_def\<close>)+

lemma run_rank:
  assumes "cache_ok c" "\<forall>x\<in>set ops. op_ok (maxSize (c_opts c)) (defaultTTL (c_opts c)) x \<and> keyed (snd x)"
    and "rehasher_rank (c_rehasher c) \<le> length ops"
  shows "\<exists>c' rs. run ops c = Ret (c', rs) \<and> cache_ok c' \<and> (ops \<noteq> [] \<or> \<not> IsRehashing (c_rehasher c) \<longrightarrow> \<not> IsRehashing (c_rehasher c'))"
  using assms
proof (induction ops arbitrary: c)
  case (Cons x ops)
  obtain e op where x: "x = (e, op)" by fastforce
  from exec_keyed [OF Cons.prems(1), of e op] Cons.prems(2) x obtain c1 r m where
    s: "exec e op c = Ret (c1, r)" "op_keeps (e_now e) c m c1" by auto
  note k = op_keeps_ok(1,2) [OF Cons.prems(1) s(2)]
  have rk: "IsRehashing (c_rehasher c1) \<longrightarrow> rehasher_rank (c_rehasher c1) < rehasher_rank (c_rehasher c)"
    using s(2) by (simp add: op_keeps_def)
  have idle: "rehasher_rank r = 0" if "\<not> IsRehashing r" for r
    using that by (cases r) (auto simp: Incremental_IsRehashing_def Batch_IsRehashing_def inc_rank_def batch_rank_def)
  have "rehasher_rank (c_rehasher c1) \<le> length ops"
    using rk Cons.prems(3) idle [of "c_rehasher c1"] by (cases "IsRehashing (c_rehasher c1)") auto
  moreover have pos: "0 < rehasher_rank (c_rehasher c1)" if "IsRehashing (c_rehasher c1)"
  proof -
    have w: "cache_wf c1" using k(1) by (simp add: cache_ok_def)
    have inv: "rehasher_inv (c_rehasher c1)" "joint_wf (tbl_mask c1) (tbl c1) (rehasher_map (c_rehasher c1))"
      using w by (simp_all add: cache_wf_def)
    from any_rehasher.running_step [OF inv(1) that order_refl iter_order_id inv(2)] show ?thesis by auto
  qed
  ultimately show ?case using Cons.IH [of c1] Cons.prems k s x by (cases ops) auto
qed simp

lemma start_rank:
  assumes "r \<noteq> NoopRehasher" "rehasher_inv r"
  shows "rehasher_rank (Rehasher_Start ss msk r) \<le> sum_list (map shard_entries ss) + length ss \<or> ss = []"
  using assms by (cases r) (auto simp: Incremental_Start_def Batch_Start_def inc_rank_def batch_rank_def neq_Nil_conv)


lemma New_default_work:
  "Cache_New (env_at t) NewOptions = Inr c \<Longrightarrow> sum_list (map shard_entries (tbl c)) + length (tbl c) = 16"
  by (auto simp: Cache_New_def NewOptions_def bad_shards_def getPolicyFactory_def policyRegistry_def GetFactory_def rehashRegistry_def
      shard_max_def Let_def newShard_def effectiveSubShards_def subShardsPerShard_def shard_entries_def sum_list_replicate
      eval_nat_numeral)


end
