(* ===== verification/Cache_Limits.thy ===== *)
theory Cache_Limits
  imports Cache_Run
begin

text \<open>
  The size limit of the cache, and the limits of resizing.  Along every run without a policy change
  each sub-shard of the current table stays within its share of the limit; from this follow the
  bound on the whole cache and the sharper bound that holds because shard and sub-shard index are
  computed from the same hash bits.  The last section shows what a resize does to small shards and
  to sets, hashes and lists.
\<close>

section \<open>Sub-shards stay within their share\<close>

definition tight_sub :: "int \<Rightarrow> subShard \<Rightarrow> bool" where
  "tight_sub mx sub \<longleftrightarrow> sub_policy sub \<noteq> NoopPolicy \<and> int (length (entries sub)) \<le> mx"

definition tight :: "shard \<Rightarrow> bool" where
  "tight s \<longleftrightarrow> 0 < maxSubSize s \<and> (\<forall>sub. Some sub \<in> set (subs s) \<longrightarrow> tight_sub (maxSubSize s) sub)"

lemma tight_capped: "0 < mx \<Longrightarrow> tight_sub mx sub \<longleftrightarrow> sub_policy sub \<noteq> NoopPolicy \<and> sub_capped mx sub"
  by (auto simp: tight_sub_def sub_capped_def)

lemma OnRemove_noop [simp]: "(OnRemove k p = NoopPolicy) = (p = NoopPolicy)"
  by (cases p) auto

lemma tight_remove: "tight_sub mx sub \<Longrightarrow> tight_sub mx (sub_remove k sub)"
  using length_delete_le [of k "entries sub"] by (auto simp: tight_sub_def sub_remove_def)

lemma tight_get: "tight_sub mx sub \<Longrightarrow> tight_sub mx (fst (sub_get now k sub))"
  by (simp add: sub_get_def tight_remove split: option.split)

lemma tight_Del: "tight_sub mx sub \<Longrightarrow> tight_sub mx (fst (sub_Del k sub))"
  by (simp add: sub_Del_def tight_remove)

lemma tight_Set: "0 < mx \<Longrightarrow> sub_wf sub \<Longrightarrow> tight_sub mx sub \<Longrightarrow> tight_sub mx (fst (sub_Set now mx k v ttl sub))"
  using sub_Set_spec(4,6) [of sub now mx k v ttl "fst (sub_Set now mx k v ttl sub)" "snd (sub_Set now mx k v ttl sub)"]
  by (simp add: tight_capped)

lemma tight_cleanup: "tight_sub mx sub \<Longrightarrow> tight_sub mx (sub_cleanup ord now sub)"
proof -
  have "tight_sub mx (fold sub_remove ks sub)" if "tight_sub mx sub" for ks sub
    using that by (induction ks arbitrary: sub) (auto simp: tight_remove)
  then show "tight_sub mx sub \<Longrightarrow> ?thesis" by (simp add: sub_cleanup_def)
qed

lemma with_sub_tight:
  assumes wf: "shard_wf s" and t: "tight s" and run: "with_sub s k body = Ret (s', r)"
    and body: "\<And>sub. sub_wf sub \<Longrightarrow> tight_sub (maxSubSize s) sub \<Longrightarrow> tight_sub (maxSubSize s) (fst (body sub))"
  shows "tight s'"
proof -
  obtain sub where sub: "subIndex s k < length (subs s)" "subs s ! subIndex s k = Some sub" "sub_wf sub"
    using shard_sub [OF wf, of k] by blast
  then have s': "s' = s\<lparr>subs := (subs s)[subIndex s k := Some (fst (body sub))]\<rparr>"
    using run by (auto simp: with_sub_def Let_def case_prod_beta)
  have "Some sub \<in> set (subs s)" using sub(1,2) by (metis nth_mem)
  then have "tight_sub (maxSubSize s) (fst (body sub))" using t body [OF sub(3)] by (simp add: tight_def)
  then show ?thesis using t unfolding s' by (auto simp: tight_def dest!: subsetD [OF set_update_subset_insert])
qed

lemma shard_tight:
  assumes wf: "shard_wf s" and t: "tight s"
  shows "shard_Set now s k v ttl = Ret (s', ev) \<Longrightarrow> tight s'"
    and "shard_get now s k = Ret (s', x) \<Longrightarrow> tight s'"
    and "shard_Del s k = Ret s' \<Longrightarrow> tight s'"
    and "cleanup ord now s = Ret (s', n) \<Longrightarrow> tight s'"
proof -
  have mx: "0 < maxSubSize s" using t by (simp add: tight_def)
  show "shard_Set now s k v ttl = Ret (s', ev) \<Longrightarrow> tight s'"
    unfolding shard_Set_def by (erule with_sub_tight [OF wf t]) (rule tight_Set [OF mx])
  show "shard_get now s k = Ret (s', x) \<Longrightarrow> tight s'"
    unfolding shard_get_def by (erule with_sub_tight [OF wf t]) (rule tight_get)
  show "tight s'" if d: "shard_Del s k = Ret s'"
  proof -
    obtain s1 where "with_sub s k (sub_Del k) = Ret (s1, ())" "subs s' = subs s1" "maxSubSize s' = maxSubSize s1"
      using d by (auto simp: shard_Del_def)
    moreover have "tight s1" if "with_sub s k (sub_Del k) = Ret (s1, ())"
      by (rule with_sub_tight [OF wf t that]) (rule tight_Del)
    ultimately show ?thesis by (simp add: tight_def)
  qed
  show "tight s'" if "cleanup ord now s = Ret (s', n)"
  proof -
    have "s' = s\<lparr>subs := map (map_option (sub_cleanup ord now)) (subs s)\<rparr>"
      using that by (auto simp: cleanup_def map_subs_eq [OF wf])
    then show ?thesis using t tight_cleanup by (auto simp: tight_def map_option_eq_Some eq_commute [of "Some _"])
  qed
qed

section \<open>Along a run\<close>

definition all_tight :: "shard list \<Rightarrow> bool" where
  "all_tight ss \<longleftrightarrow> (\<forall>s\<in>set ss. tight s)"

lemma all_tight_upd: "all_tight ss \<Longrightarrow> tight s \<Longrightarrow> all_tight (ss[i := s])"
  by (auto simp: all_tight_def dest!: subsetD [OF set_update_subset_insert])

lemma migrate_tight:
  assumes "table_wf msk ss" "all_tight ss" "migrate_loop now (\<lambda>k. OldShardIndex k msk) its ss = Ret ss'"
  shows "table_wf msk ss' \<and> all_tight ss'"
  using assms
proof (induction its arbitrary: ss)
  case (Cons it its)
  let ?i = "OldShardIndex (Key it) msk"
  have i: "?i < length ss" by (rule table_index [OF Cons.prems(1)])
  obtain s1 ev where s: "shard_Set now (ss ! ?i) (Key it) (Value it) (TTL it) = Ret (s1, ev)" "table_wf msk (ss[?i := s1])"
    using table_Set [OF Cons.prems(1)] by blast
  have "tight (ss ! ?i)" using Cons.prems(2) i by (simp add: all_tight_def)
  then have "all_tight (ss[?i := s1])"
    using shard_tight(1) [OF table_shard [OF Cons.prems(1) i] _ s(1)] Cons.prems(2) by (intro all_tight_upd)
  then show ?case using Cons.IH [OF s(2)] Cons.prems(3) s(1) i by (simp add: Let_def)
qed simp

lemma drain_tight:
  assumes "table_wf msk ss" "all_tight ss" "drain_loop fuel ord now (\<lambda>k. OldShardIndex k msk) s ss = Ret (s', ss')"
  shows "table_wf msk ss' \<and> all_tight ss'"
  using assms
proof (induction fuel arbitrary: s ss)
  case (Suc fuel)
  then show ?case by (auto split: if_splits dest: migrate_tight)
qed simp

lemma batch_tight:
  assumes "table_wf msk ss" "all_tight ss" "batch_loop ord now (\<lambda>k. OldShardIndex k msk) old ss = Ret ss'"
  shows "all_tight ss'"
  using assms
proof (induction old arbitrary: ss)
  case (Cons s old)
  obtain s1 ss1 where d: "drain_loop (Suc (shard_entries s)) ord now (\<lambda>k. OldShardIndex k msk) s ss = Ret (s1, ss1)"
    "batch_loop ord now (\<lambda>k. OldShardIndex k msk) old ss1 = Ret ss'"
    using Cons.prems(3) unfolding batch_loop.simps go_bind_Ret split_paired_Ex prod.case by blast
  show ?case using Cons.IH [OF _ _ d(2)] drain_tight [OF Cons.prems(1,2) d(1)] by blast
qed simp

lemma step_tight:
  assumes "table_wf msk ss" "all_tight ss" "Rehasher_Step ord now (\<lambda>k. OldShardIndex k msk) r ss = Ret (r', ss', x)"
  shows "all_tight ss'"
proof (cases r)
  case (IncrementalRehasher s)
  then show ?thesis using assms
    by (auto simp: Incremental_Step_def Let_def split: if_splits option.splits dest: migrate_tight)
next
  case (BatchRehasher s)
  then show ?thesis using assms by (auto simp: Batch_Step_def split: if_splits dest: batch_tight)
qed (use assms in simp)

text \<open>The tables a call may leave behind.\<close>

definition tight_table :: "cache \<Rightarrow> bool" where
  "tight_table c \<longleftrightarrow> table_wf (tbl_mask c) (tbl c) \<and> all_tight (tbl c)"

lemma tight_table_upd [simp]:
  "tight_table (emit ev c) = tight_table c" "tight_table (c\<lparr>c_rehasher := r\<rparr>) = tight_table c" "tight_table (c\<lparr>c_log := l\<rparr>) = tight_table c"
  by (simp_all add: tight_table_def)

lemma tight_table_emits [simp]: "tight_table (fold (\<lambda>k. emit (ev k)) ks c) = tight_table c"
  using emits_log [of ev ks c] by auto

lemma rehash_step_tight:
  assumes "tight_table c" "rehash_step e c = Ret c'"
  shows "all_tight (tbl c')"
proof -
  obtain r ss b1 b2 where s: "Rehasher_Step (e_ord e) (e_now e) (shardIndex c) (c_rehasher c) (tbl c) = Ret (r, ss, b1, b2)"
    "tbl c' = ss" using assms(2) by (auto simp: rehash_step_def Let_def split: if_splits)
  then show ?thesis using step_tight [of "tbl_mask c" "tbl c"] assms(1) unfolding shardIndex_old tight_table_def by blast
qed

lemma with_shard_tight:
  assumes t: "tight_table c" and run: "with_shard c k f = Ret (c', x)"
    and f: "\<And>s s' x. shard_wf s \<Longrightarrow> tight s \<Longrightarrow> f s = Ret (s', x) \<Longrightarrow>
      shard_wf s' \<and> tight s' \<and> dom (shard_lookup s') \<subseteq> insert k (dom (shard_lookup s))"
  shows "tight_table c'"
proof -
  let ?i = "OldShardIndex k (tbl_mask c)"
  have wf: "table_wf (tbl_mask c) (tbl c)" and a: "all_tight (tbl c)" using t by (simp_all add: tight_table_def)
  have i: "?i < length (tbl c)" by (rule table_index [OF wf])
  obtain s' where s: "f (tbl c ! ?i) = Ret (s', x)" "c' = c\<lparr>tbl := (tbl c)[?i := s']\<rparr>"
    using run i by (auto simp: with_shard_def shardIndexFor_old Let_def)
  have "tight (tbl c ! ?i)" using a i by (simp add: all_tight_def)
  from f [OF table_shard [OF wf i] this s(1)]
  have s': "shard_wf s'" "tight s'" "dom (shard_lookup s') \<subseteq> insert k (dom (shard_lookup (tbl c ! ?i)))" by simp_all
  have "OldShardIndex k' (tbl_mask c) = ?i" if "shard_lookup s' k' \<noteq> None" for k'
    using that s'(3) table_home [OF wf i, of k'] by blast
  then have "table_wf (tbl_mask c) ((tbl c)[?i := s'])" by (intro table_upd(1) [OF wf i s'(1)])
  then show ?thesis using all_tight_upd [OF a s'(2)] by (simp add: tight_table_def s(2))
qed

lemma shard_op_tight:
  assumes "shard_wf s" "tight s"
  shows "shard_Set now s k v ttl = Ret (s', ev) \<Longrightarrow> shard_wf s' \<and> tight s' \<and> dom (shard_lookup s') \<subseteq> insert k (dom (shard_lookup s))"
    and "shard_get now s k = Ret (s', x) \<Longrightarrow> shard_wf s' \<and> tight s' \<and> dom (shard_lookup s') \<subseteq> insert k (dom (shard_lookup s))"
    and "shard_Del s k = Ret s' \<Longrightarrow> shard_wf s' \<and> tight s' \<and> dom (shard_lookup s') \<subseteq> insert k (dom (shard_lookup s))"
proof -
  show "shard_wf s' \<and> tight s' \<and> dom (shard_lookup s') \<subseteq> insert k (dom (shard_lookup s))" if r: "shard_Set now s k v ttl = Ret (s', ev)"
  proof -
    obtain s1 ev1 where s1: "shard_Set now s k v ttl = Ret (s1, ev1)" "shard_wf s1"
      "\<And>k'. shard_lookup s1 k' = (if k' \<in> set ev1 then None else ((shard_lookup s)(k \<mapsto> newEntry now v ttl)) k')"
      by (rule shard_Set_spec [OF assms(1), of now k v ttl], rule that)
    have "dom (shard_lookup s1) \<subseteq> insert k (dom (shard_lookup s))" by (auto simp: s1(3) split: if_splits)
    then show ?thesis using shard_tight(1) [OF assms r] s1(1,2) r by simp
  qed
  show "shard_wf s' \<and> tight s' \<and> dom (shard_lookup s') \<subseteq> insert k (dom (shard_lookup s))" if r: "shard_get now s k = Ret (s', x)"
    using shard_get_spec [OF assms(1), of now k] shard_tight(2) [OF assms r] r by (auto split: if_splits)
  show "shard_wf s' \<and> tight s' \<and> dom (shard_lookup s') \<subseteq> insert k (dom (shard_lookup s))" if r: "shard_Del s k = Ret s'"
    using shard_Del_spec [OF assms(1), of k] shard_tight(3) [OF assms r] r by (auto split: if_splits)
qed

lemma old_Del_tight: "old_Del k c = Ret c' \<Longrightarrow> tight_table c \<Longrightarrow> tight_table c'"
  by (auto simp: old_Del_def)

lemma tight_table_all: "tight_table c \<Longrightarrow> all_tight (tbl c)"
  by (simp add: tight_table_def)

lemma finish_write_tight:
  assumes t: "tight_table c1" and r: "(if b then go_bind (old_Del k c1) (\<lambda>c. go_bind (rehash_step e c) (\<lambda>c. Ret (c, x))) else Ret (c1, x)) = Ret (c', r)"
  shows "all_tight (tbl c')"
proof (cases b)
  case True
  then obtain c2 where "old_Del k c1 = Ret c2" "rehash_step e c2 = Ret c'" using r by auto
  then show ?thesis using old_Del_tight [OF _ t] rehash_step_tight by blast
next
  case False
  then show ?thesis using r tight_table_all [OF t] by simp
qed

lemma finish_read_tight:
  assumes t: "tight_table c1" and r: "(if b then go_bind (rehash_step e c1) (\<lambda>c. Ret (c, x)) else Ret (c1, x)) = Ret (c', r)"
  shows "all_tight (tbl c')"
  using r rehash_step_tight [OF t] tight_table_all [OF t] by (cases b) auto

lemma Cache_Set_tight:
  assumes t: "tight_table c" and run: "Cache_Set e c k v ttl = Ret (c', r)"
  shows "all_tight (tbl c')"
proof (cases "validateOpen c = None \<and> validateKeyValue k v = None")
  case True
  define d where "d = (case ttl of t # _ \<Rightarrow> max t 0 | [] \<Rightarrow> defaultTTL (c_opts c))"
  obtain c1 ev where w: "with_shard c k (\<lambda>s. shard_Set (e_now e) s k (the_default [] v) d) = Ret (c1, ev)"
    and rest: "(let c = fold (\<lambda>ek. emit (OnEvict ek)) ev (emit (OnSet k) c1) in
       if IsRehashing (c_rehasher c) then go_bind (old_Del k c) (\<lambda>c. go_bind (rehash_step e c) (\<lambda>c. Ret (c, Inr ())))
       else Ret (c, Inr ())) = Ret (c', r)"
    using run True by (auto simp: Cache_Set_def d_def Let_def)
  have "tight_table c1" by (rule with_shard_tight [OF t w]) (rule shard_op_tight(1))
  then show ?thesis using finish_write_tight [OF _ rest [unfolded Let_def]] by simp
next
  case False
  then have "c' = c" using run by (auto simp: Cache_Set_def split: option.splits)
  then show ?thesis using tight_table_all [OF t] by simp
qed

lemma Cache_Del_tight:
  assumes t: "tight_table c" and run: "Cache_Del e c k = Ret (c', r)"
  shows "all_tight (tbl c')"
proof (cases "validateOpen c = None \<and> k \<noteq> []")
  case True
  obtain c1 where w: "with_shard c k (\<lambda>s. go_bind (shard_Del s k) (\<lambda>s. Ret (s, ()))) = Ret (c1, ())"
    and rest: "(let c = emit (OnDel k) c1 in
       if IsRehashing (c_rehasher c) then go_bind (old_Del k c) (\<lambda>c. go_bind (rehash_step e c) (\<lambda>c. Ret (c, Inr ())))
       else Ret (c, Inr ())) = Ret (c', r)"
    using run True by (auto simp: Cache_Del_def Let_def)
  have "tight_table c1"
  proof (rule with_shard_tight [OF t w])
    fix s s' and x :: unit
    assume "shard_wf s" "tight s" "go_bind (shard_Del s k) (\<lambda>s. Ret (s, ())) = Ret (s', x)"
    then show "shard_wf s' \<and> tight s' \<and> dom (shard_lookup s') \<subseteq> insert k (dom (shard_lookup s))"
      by (intro shard_op_tight(3)) simp_all
  qed
  then show ?thesis using finish_write_tight [OF _ rest [unfolded Let_def]] by simp
next
  case False
  then have "c' = c" using run by (auto simp: Cache_Del_def split: option.splits)
  then show ?thesis using tight_table_all [OF t] by simp
qed

lemma Cache_Get_tight:
  assumes t: "tight_table c" and run: "Cache_Get e c k = Ret (c', r)"
  shows "all_tight (tbl c')"
proof (cases "validateOpen c = None \<and> k \<noteq> []")
  case True
  define hit where "hit v c1 = (if IsRehashing (c_rehasher c1) then go_bind (rehash_step e c1) (\<lambda>c. Ret (c, v)) else Ret (c1, v))"
    for v :: "bytes result" and c1
  have hit: "all_tight (tbl c')" if "hit v c1 = Ret (c', r)" "tight_table c1" for v c1
    using finish_read_tight [OF that(2) that(1) [unfolded hit_def]] .
  obtain c1 val where w: "with_shard c k (\<lambda>s. shard_get (e_now e) s k) = Ret (c1, val)"
    and rest: "(case val of Some v \<Rightarrow> hit (Inr v) (emit (OnHit k) c1)
       | None \<Rightarrow> go_bind (if IsRehashing (c_rehasher c1)
           then go_bind (with_OldShard (c_rehasher c1) k (\<lambda>s. shard_get (e_now e) s k))
                  (\<lambda>(r, x). Ret (c1\<lparr>c_rehasher := r\<rparr>, case x of Some v \<Rightarrow> v | None \<Rightarrow> None)) else Ret (c1, None))
         (\<lambda>(c, val). case val of Some v \<Rightarrow> go_bind (rehash_step e (emit (OnHit k) c)) (\<lambda>c. Ret (c, Inr v))
            | None \<Rightarrow> hit (Inl ErrKeyNotFound) (emit (OnMiss k) c))) = Ret (c', r)"
    using run True unfolding Cache_Get_def hit_def Let_def by (auto simp del: emit_simps)
  have t1: "tight_table c1" by (rule with_shard_tight [OF t w]) (rule shard_op_tight(2))
  show ?thesis
  proof (cases val)
    case (Some v)
    then show ?thesis using rest hit t1 by simp
  next
    case None
    have mid: "all_tight (tbl c')" if "tight_table c2"
      "(case val2 of Some v \<Rightarrow> go_bind (rehash_step e (emit (OnHit k) c2)) (\<lambda>c. Ret (c, Inr v))
            | None \<Rightarrow> hit (Inl ErrKeyNotFound) (emit (OnMiss k) c2)) = Ret (c', r)" for c2 val2
      using that hit rehash_step_tight [of "emit (OnHit k) c2" e c'] by (cases val2) auto
    show ?thesis
    proof (cases "IsRehashing (c_rehasher c1)")
      case True
      then obtain r2 x2 where "(case (case x2 of Some v \<Rightarrow> v | None \<Rightarrow> None) of
          Some v \<Rightarrow> go_bind (rehash_step e (emit (OnHit k) (c1\<lparr>c_rehasher := r2\<rparr>))) (\<lambda>c. Ret (c, Inr v))
            | None \<Rightarrow> hit (Inl ErrKeyNotFound) (emit (OnMiss k) (c1\<lparr>c_rehasher := r2\<rparr>))) = Ret (c', r)"
        using rest None by auto
      from mid [OF _ this] show ?thesis using t1 by simp
    next
      case False
      then show ?thesis using rest None mid [OF t1, of None] by simp
    qed
  qed
next
  case False
  then have "c' = c" using run by (auto simp: Cache_Get_def split: option.splits)
  then show ?thesis using tight_table_all [OF t] by simp
qed

lemma Cleanup_tight:
  assumes t: "tight_table c" and run: "Cleanup e c = Ret (c', n)"
  shows "all_tight (tbl c')"
proof (cases "closed c")
  case False
  then obtain m where r: "each_shard (cleanup (e_ord e) (e_now e)) (tbl c) = Ret (tbl c', m)"
    using run by (auto simp: Cleanup_def)
  have "all_tight ss'" if "each_shard (cleanup (e_ord e) (e_now e)) ss = Ret (ss', m)" "\<forall>s\<in>set ss. shard_wf s \<and> tight s" for ss ss' m
    using that by (induction ss arbitrary: ss' m) (auto simp: all_tight_def dest: shard_tight(4))
  then show ?thesis using r t by (auto simp: tight_table_def table_wf_def all_tight_def)
qed (use run tight_table_all [OF t] in \<open>simp add: Cleanup_def\<close>)

section \<open>Size of the cache\<close>

text \<open>The limit of a sub-shard in a table of \<open>n\<close> shards.\<close>

definition sub_share :: "int \<Rightarrow> nat \<Rightarrow> int" where
  "sub_share mx n = shard_max mx (int n) div 8"

definition size_inv :: "cache \<Rightarrow> bool" where
  "size_inv c \<longleftrightarrow> all_tight (tbl c) \<and> \<not> bad_shards (int (length (tbl c))) \<and> policyFactory c \<noteq> NoopPolicy
     \<and> tbl_mask c = word_of_int (int (length (tbl c)) - 1)
     \<and> frames (tbl c) = replicate (length (tbl c)) (subShardsPerShard, sub_share (maxSize (c_opts c)) (length (tbl c)))
     \<and> roomy (shard_max (maxSize (c_opts c)) (int (length (tbl c))))"

fun no_policy_change :: "cache_op \<Rightarrow> bool" where
  "no_policy_change (PolicyOp name) = False"
| "no_policy_change op = True"

lemma new_tight:
  assumes "roomy mx" "0 < mx" "p \<noteq> NoopPolicy"
  shows "tight (newShard p mx)" "numSubs (newShard p mx) = subShardsPerShard" "maxSubSize (newShard p mx) = mx div 8"
proof -
  have n: "effectiveSubShards mx = 8" using roomy_subs [OF assms(1)] by (simp add: newShard_def Let_def subShardsPerShard_def)
  have "16 \<le> mx" using assms(1,2) by (simp add: roomy_def)
  then have d: "2 \<le> mx div 8" "go_div mx 8 = mx div 8" by (simp_all add: go_div_def)
  show "tight (newShard p mx)" "numSubs (newShard p mx) = subShardsPerShard" "maxSubSize (newShard p mx) = mx div 8"
    using assms(2,3) n d by (auto simp: tight_def tight_sub_def newShard_def Let_def subShardsPerShard_def)
qed

lemma new_size:
  assumes "roomy (shard_max mx n)" "0 < mx" "p \<noteq> NoopPolicy" "\<not> bad_shards n"
  defines "ss \<equiv> replicate (nat n) (newShard p (shard_max mx n))"
  shows "all_tight ss" "frames ss = replicate (length ss) (subShardsPerShard, sub_share mx (length ss))" "int (length ss) = n"
proof -
  have n: "1 \<le> n" by (rule bad_shards_pos [OF assms(4)])
  have mx: "0 < shard_max mx n" using assms(2) by (simp add: shard_max_def Let_def)
  note t = new_tight [OF assms(1) mx assms(3)]
  show l: "int (length ss) = n" using n by (simp add: ss_def)
  show "all_tight ss" using t(1) by (simp add: all_tight_def ss_def)
  show "frames ss = replicate (length ss) (subShardsPerShard, sub_share mx (length ss))"
    using t(2,3) n by (simp add: frames_def ss_def map_replicate sub_share_def)
qed

lemma size_inv_keep:
  assumes "size_inv c" "c_opts c' = c_opts c" "frames (tbl c') = frames (tbl c)" "tbl_mask c' = tbl_mask c"
    "policyFactory c' = policyFactory c" "all_tight (tbl c')"
  shows "size_inv c'"
  using assms frames_length [OF assms(3)] by (simp add: size_inv_def)

lemma op_keeps_size:
  assumes "size_inv c" "op_keeps now c m c'" "all_tight (tbl c')"
  shows "size_inv c'"
  using assms by (intro size_inv_keep [OF assms(1)]) (simp_all add: op_keeps_def same_shape_def)

lemma exec_size:
  assumes ok: "cache_ok c" and inv: "size_inv c" and mx: "0 < maxSize (c_opts c)"
    and o: "op_ok (maxSize (c_opts c)) (defaultTTL (c_opts c)) (e, op)" "no_policy_change op"
    and r: "exec e op c = Ret (c', x)"
  shows "size_inv c'"
proof -
  have wf: "cache_wf c" using ok by (simp add: cache_ok_def)
  have t: "tight_table c" using inv cache_wf_table [OF wf] by (simp add: tight_table_def size_inv_def)
  note e = op_ok_env [OF o(1)]
  have keyed: "size_inv c'" if k: "keyed op" and a: "all_tight (tbl c')"
  proof -
    obtain m where "op_keeps (e_now e) c m c'" using exec_keyed [OF ok o(1) k] r by auto
    then show ?thesis by (rule op_keeps_size [OF inv _ a])
  qed
  show ?thesis
  proof (cases op)
    case (SetOp k v ttl)
    then have a: "all_tight (tbl c')" using r Cache_Set_tight [OF t] by auto
    show ?thesis
    proof (cases "keyed op")
      case False
      then have "c' = c" using r SetOp wf guarded [where c = c and e = e] by (cases "k = []") (auto simp: cache_wf_def)
      then show ?thesis using inv by simp
    qed (rule keyed [OF _ a])
  next
    case (GetOp k)
    then have a: "all_tight (tbl c')" using r Cache_Get_tight [OF t] by auto
    show ?thesis
    proof (cases "keyed op")
      case False
      then have "c' = c" using r GetOp wf by (auto simp: Cache_Get_def validateOpen_def cache_wf_def)
      then show ?thesis using inv by simp
    qed (rule keyed [OF _ a])
  next
    case (DelOp k)
    then have a: "all_tight (tbl c')" using r Cache_Del_tight [OF t] by auto
    show ?thesis
    proof (cases "keyed op")
      case False
      then have "c' = c" using r DelOp wf by (auto simp: Cache_Del_def validateOpen_def cache_wf_def)
      then show ?thesis using inv by simp
    qed (rule keyed [OF _ a])
  next
    case CleanupOp
    then obtain n where n: "Cleanup e c = Ret (c', n)" using r by auto
    then have "admin_keeps (e_now e) c (cache_view c) c'" using Cleanup_keeps [OF wf e] by auto
    moreover have "tbl_mask c' = tbl_mask c" "policyFactory c' = policyFactory c" using n by (auto simp: Cleanup_def split: if_splits)
    ultimately show ?thesis using Cleanup_tight [OF t n] by (intro size_inv_keep [OF inv]) (simp_all add: admin_keeps_def)
  next
    case (ResizeOp n)
    then have c': "c' = fst (Resize e c n)" using r by simp
    show ?thesis
    proof (cases "bad_shards n \<or> IsRehashing (c_rehasher c)")
      case True
      then show ?thesis using inv c' by (auto simp: Resize_def validateOpen_def)
    next
      case False
      have p: "policyFactory c \<noteq> NoopPolicy" "\<not> closed c" using inv wf by (simp_all add: size_inv_def cache_wf_def)
      have ro: "roomy (shard_max (maxSize (c_opts c)) n)" using o(1) ResizeOp by simp
      note s = new_size [OF ro mx p(1)]
      have "tbl c' = replicate (nat n) (newShard (policyFactory c) (shard_max (maxSize (c_opts c)) n))"
        "tbl_mask c' = word_of_int (n - 1)" "c_opts c' = c_opts c" "policyFactory c' = policyFactory c"
        using c' False p(2) by (simp_all add: Resize_def validateOpen_def Let_def emit_def)
      then show ?thesis using s False p(1) ro by (simp add: size_inv_def)
    qed
  qed (use o(2) in simp)
qed

lemma run_size:
  assumes "cache_ok c" "size_inv c" "0 < maxSize (c_opts c)"
    and "\<forall>x\<in>set ops. op_ok (maxSize (c_opts c)) (defaultTTL (c_opts c)) x \<and> no_policy_change (snd x)" "run ops c = Ret (c', rs)"
  shows "cache_ok c' \<and> size_inv c' \<and> c_opts c' = c_opts c"
  using assms
proof (induction ops arbitrary: c rs)
  case (Cons x ops)
  obtain e op where x: "x = (e, op)" by fastforce
  obtain c1 r rs1 where s: "exec e op c = Ret (c1, r)" "run ops c1 = Ret (c', rs1)" using Cons.prems(5) x by auto
  have o: "op_ok (maxSize (c_opts c)) (defaultTTL (c_opts c)) (e, op)" "no_policy_change op" using Cons.prems(4) x by auto
  obtain m' r' where sp: "spec_exec (defaultTTL (c_opts c)) (e_now e) op (cache_view c) = (m', r')" by fastforce
  have c1: "cache_ok c1" "c_opts c1 = c_opts c" using exec_simulates [OF Cons.prems(1) o(1) fades_refl sp] s(1) by auto
  have "size_inv c1" by (rule exec_size [OF Cons.prems(1-3) o s(1)])
  then show ?case using Cons.IH [OF c1(1) _ _ _ s(2)] Cons.prems(3,4) c1(2) by simp
qed simp

lemma power_of_two:
  fixes n :: int
  assumes "0 < n" "n AND (n - 1) = 0"
  shows "\<exists>j. n = 2 ^ j"
  using assms
proof (induction "nat n" arbitrary: n rule: less_induct)
  case less
  show ?case
  proof (cases "even n")
    case True
    then obtain m where m: "n = 2 * m" by blast
    have "(2 * m - 1) div 2 = m - 1" by presburger
    then have "2 * (m AND (m - 1)) = n AND (n - 1)" by (subst and_int_rec [of n]) (simp add: m)
    then have "\<exists>j. m = 2 ^ j" using less m by (intro less.hyps) auto
    then show ?thesis using m power_Suc by metis
  next
    case False
    then obtain m where m: "n = 2 * m + 1" by (blast elim: oddE)
    then have "n AND (n - 1) = 2 * (m AND m)" by (subst and_int_rec [of n]) simp
    then have "m = 0" using less.prems(2) by simp
    then show ?thesis using m by (intro exI [of _ 0]) simp
  qed
qed

text \<open>With at least eight shards, the shard of a key determines its sub-shard.\<close>

lemma sub_of_shard:
  assumes "\<not> bad_shards n" "8 \<le> n" "numSubs s = 8"
  shows "subIndex s k = OldShardIndex k (word_of_int (n - 1)) mod 8"
proof -
  obtain j where j: "n = 2 ^ j" using power_of_two [of n] assms(1) by (auto simp: bad_shards_def)
  then have "(2 :: int) ^ 3 \<le> 2 ^ j" using assms(2) by simp
  then have "3 \<le> j" by (simp only: power_increasing_iff)
  then have "(2 :: nat) ^ 3 dvd 2 ^ j" by (rule le_imp_power_dvd)
  then have dvd: "(8 :: nat) dvd 2 ^ j" by simp
  have "(word_of_int (n - 1) :: 32 word) = mask j" by (simp add: j mask_eq_exp_minus_1)
  then have "OldShardIndex k (word_of_int (n - 1)) = take_bit j (unat (fnv1a k))"
    by (simp only: OldShardIndex_def take_bit_eq_mask [symmetric] unsigned_take_bit_eq)
  then have "OldShardIndex k (word_of_int (n - 1)) = unat (fnv1a k) mod 2 ^ j" by (simp only: take_bit_eq_mod)
  then show ?thesis
    using dvd unat_mod_word [of 8 "fnv1a k"] by (simp add: subIndex_def assms(3) mod_mod_cancel)
qed

lemma tight_entries:
  assumes wf: "shard_wf s" and t: "tight s"
  shows "int (shard_entries s) \<le> 8 * maxSubSize s"
proof -
  have "int (case slot of Some sub \<Rightarrow> length (entries sub) | None \<Rightarrow> 0) \<le> maxSubSize s" if "slot \<in> set (subs s)" for slot
    using t that by (cases slot) (auto simp: tight_def tight_sub_def)
  then have "int (sum_list (map (\<lambda>slot. case slot of Some sub \<Rightarrow> length (entries sub) | None \<Rightarrow> 0) xs)) \<le> int (length xs) * maxSubSize s"
    if "set xs \<subseteq> set (subs s)" for xs
    using that by (induction xs) (fastforce simp: algebra_simps)+
  from this [of "subs s"] show ?thesis using wf by (simp add: shard_entries_def shard_wf_def subShardsPerShard_def)
qed

lemma tight_one_sub:
  assumes wf: "shard_wf s" and t: "tight s" and one: "\<And>k. shard_lookup s k \<noteq> None \<Longrightarrow> subIndex s k = j"
  shows "int (shard_entries s) \<le> maxSubSize s"
proof (cases "dom (shard_lookup s) = {}")
  case True
  then show ?thesis using shard_entries_card [OF wf] t by (simp add: tight_def)
next
  case False
  then obtain k where k: "shard_lookup s k \<noteq> None" by blast
  obtain sub where sub: "subIndex s k < length (subs s)" "subs s ! subIndex s k = Some sub" using shard_sub [OF wf] by blast
  have d: "dom (shard_lookup s) \<subseteq> set (gm_keys (entries sub))"
  proof
    fix k' assume "k' \<in> dom (shard_lookup s)"
    then have k': "shard_lookup s k' \<noteq> None" by blast
    have "subIndex s k' = subIndex s k" using one [OF k] one [OF k'] by simp
    then show "k' \<in> set (gm_keys (entries sub))" using k' sub by (simp add: shard_lookup_def gm_keys_iff)
  qed
  have "card (dom (shard_lookup s)) \<le> length (gm_keys (entries sub))"
    using card_mono [OF _ d] card_length [of "gm_keys (entries sub)"] by simp
  moreover have "Some sub \<in> set (subs s)" using sub by (metis nth_mem)
  then have "int (length (entries sub)) \<le> maxSubSize s" using t by (simp add: tight_def tight_sub_def)
  ultimately show ?thesis using shard_entries_card(2) [OF wf] by (simp add: gm_keys_def)
qed

lemma sum_entries_le:
  assumes "\<And>i. i < length ss \<Longrightarrow> int (shard_entries (ss ! i)) \<le> b"
  shows "int (sum_list (map shard_entries ss)) \<le> int (length ss) * b"
  using assms
proof (induction ss)
  case (Cons s ss)
  have "int (sum_list (map shard_entries ss)) \<le> int (length ss) * b" using Cons.prems [of "Suc _"] by (intro Cons.IH) auto
  then show ?case using Cons.prems [of 0] by (simp add: algebra_simps)
qed simp

lemma share_total:
  assumes "0 < n" "0 < mx" "roomy (shard_max mx (int n))"
  shows "int n * (8 * sub_share mx n) \<le> mx"
proof -
  have p: "16 \<le> shard_max mx (int n)" using assms by (auto simp: roomy_def shard_max_def Let_def)
  then have "shard_max mx (int n) = mx div int n" using assms by (auto simp: shard_max_def go_div_def Let_def split: if_splits)
  then have "8 * sub_share mx n \<le> mx div int n" by (simp add: sub_share_def)
  then have "int n * (8 * sub_share mx n) \<le> int n * (mx div int n)" by (intro mult_left_mono) simp_all
  also have "\<dots> \<le> mx" using assms(1) by (simp add: minus_mod_eq_mult_div [symmetric])
  finally show ?thesis .
qed

lemma Cache_New_size:
  assumes new: "Cache_New e opts = Inr c" and p: "e_policies e = policyRegistry" "evictionPolicy opts \<in> {''lru'', ''lfu''}"
    and r: "roomy (shard_max (maxSize opts) (shardCount opts))" and mx: "0 < maxSize opts"
  shows "size_inv c"
proof -
  have q: "\<not> bad_shards (shardCount opts)" "policyFactory c \<noteq> NoopPolicy"
    "tbl c = replicate (nat (shardCount opts)) (newShard (policyFactory c) (shard_max (maxSize opts) (shardCount opts)))"
    "tbl_mask c = word_of_int (shardCount opts - 1)" "maxSize (c_opts c) = maxSize opts"
    using new p mx unfolding Cache_New_def
    by (auto simp: Let_def getPolicyFactory_def policyRegistry_def split: if_splits sum.splits option.splits)
  from new_size [OF r mx q(2,1)] show ?thesis unfolding size_inv_def q(3) using q(1,2,4,5) r by (simp only: simp_thms)
qed

lemma shard_Len_le:
  assumes wf: "shard_wf s"
  shows "\<exists>n. shard_Len now s = Ret n \<and> n \<le> int (shard_entries s)"
proof -
  let ?act = "map the (take (numSubs s) (subs s))"
  let ?sz = "\<lambda>slot. case slot of Some sub \<Rightarrow> length (entries sub) | None \<Rightarrow> 0"
  have le: "sum_list (map (\<lambda>sub. int (length (filter (\<lambda>(k, e). \<not> isExpired now e) (entries sub)))) (map the xs)) \<le> int (sum_list (map ?sz xs))"
    if "\<forall>x\<in>set xs. x \<noteq> None" for xs
    using that
  proof (induction xs)
    case (Cons x xs)
    then obtain sub where "x = Some sub" by auto
    then show ?case using Cons by (auto intro: add_mono)
  qed simp
  have "\<forall>x\<in>set (take (numSubs s) (subs s)). x \<noteq> None" using wf by (auto simp: shard_wf_def in_set_conv_nth)
  note le [OF this]
  also have "sum_list (map ?sz (take (numSubs s) (subs s))) \<le> sum_list (map ?sz (take (numSubs s) (subs s) @ drop (numSubs s) (subs s)))"
    by (simp only: map_append sum_list_append)
  also have "\<dots> = shard_entries s" by (simp only: append_take_drop_id shard_entries_def)
  finally have "sum_list (map (\<lambda>sub. int (length (filter (\<lambda>(k, e). \<not> isExpired now e) (entries sub)))) ?act) \<le> int (shard_entries s)"
    by simp
  then show ?thesis by (simp add: shard_Len_def shard_active(1) [OF wf])
qed

lemma sum_shards_le:
  assumes "\<forall>s\<in>set ss. shard_wf s"
  shows "\<exists>n. sum_shards (shard_Len now) ss = Ret n \<and> n \<le> int (sum_list (map shard_entries ss))"
  using assms
proof (induction ss)
  case (Cons s ss)
  then obtain a b where "shard_Len now s = Ret a" "a \<le> int (shard_entries s)" "sum_shards (shard_Len now) ss = Ret b"
    "b \<le> int (sum_list (map shard_entries ss))" using shard_Len_le [of s now] by auto
  then show ?case by simp
qed simp

lemma size_inv_bounds:
  assumes wf: "cache_wf c" and inv: "size_inv c" and mx: "0 < maxSize (c_opts c)"
  shows "int (sum_list (map shard_entries (tbl c))) \<le> maxSize (c_opts c)"
    and "8 \<le> length (tbl c) \<Longrightarrow> 8 * int (sum_list (map shard_entries (tbl c))) \<le> maxSize (c_opts c)"
proof -
  let ?n = "length (tbl c)" and ?sh = "sub_share (maxSize (c_opts c)) (length (tbl c))"
  note t = cache_wf_table [OF wf]
  have fr: "numSubs (tbl c ! i) = 8 \<and> maxSubSize (tbl c ! i) = ?sh" if "i < ?n" for i
  proof -
    have "frames (tbl c) ! i = (subShardsPerShard, ?sh)" using inv that by (simp add: size_inv_def)
    then show ?thesis using that by (simp add: frames_def subShardsPerShard_def)
  qed
  have ti: "tight (tbl c ! i)" if "i < ?n" for i using inv that by (simp add: size_inv_def all_tight_def)
  have n: "0 < ?n" using t by (auto simp: table_wf_def)
  have total: "int ?n * (8 * ?sh) \<le> maxSize (c_opts c)"
    using n mx inv by (intro share_total) (simp_all add: size_inv_def)
  have "int (sum_list (map shard_entries (tbl c))) \<le> int ?n * (8 * ?sh)"
    using tight_entries [OF table_shard [OF t] ti] fr by (intro sum_entries_le) metis
  then show "int (sum_list (map shard_entries (tbl c))) \<le> maxSize (c_opts c)" using total by simp
  show "8 * int (sum_list (map shard_entries (tbl c))) \<le> maxSize (c_opts c)" if n8: "8 \<le> ?n"
  proof -
    have "int (shard_entries (tbl c ! i)) \<le> ?sh" if i: "i < ?n" for i
    proof -
      have b: "\<not> bad_shards (int ?n)" "tbl_mask c = word_of_int (int ?n - 1)" using inv by (simp_all add: size_inv_def)
      have "subIndex (tbl c ! i) k = i mod 8" if k: "shard_lookup (tbl c ! i) k \<noteq> None" for k
      proof -
        have "OldShardIndex k (tbl_mask c) = i" by (rule table_home [OF t i k])
        then show ?thesis using sub_of_shard [OF b(1), of "tbl c ! i" k] n8 fr [OF i] b(2) by simp
      qed
      from tight_one_sub [OF table_shard [OF t i] ti [OF i] this] show ?thesis using fr [OF i] by simp
    qed
    then have "int (sum_list (map shard_entries (tbl c))) \<le> int ?n * ?sh" by (rule sum_entries_le)
    then show ?thesis using total by simp
  qed
qed


lemma New_limited: "\<exists>c. Cache_New (env_at 0) (NewOptions\<lparr>maxSize := 256\<rparr>) = Inr c"
  by (simp add: Cache_New_def NewOptions_def bad_shards_def getPolicyFactory_def policyRegistry_def GetFactory_def rehashRegistry_def
      shard_max_def Let_def)


section \<open>What resizing does not handle\<close>

text \<open>A cache whose shards are limited to fewer than sixteen entries cannot be resized: such shards leave some
  of their eight sub-shard slots nil, and the first migration step, which visits all eight, panics.\<close>

theorem small_resize_panics:
  "(case Cache_New (env_at 0) (NewOptions\<lparr>shardCount := 1, maxSize := 8\<rparr>) of Inl err \<Rightarrow> False | Inr c \<Rightarrow>
     (case run [(env_at 1, SetOp ''a'' (Some [7]) []), (env_at 2, ResizeOp 2), (env_at 3, GetOp ''a'')] c of
        Panic \<Rightarrow> True | Ret _ \<Rightarrow> False))"
  by code_simp

text \<open>A resize loses sets (and with them hashes and lists, which live beside them): a set stored before the
  resize is reported as empty once the migration has completed.\<close>

theorem resize_drops_sets:
  "(case Cache_New (env_at 0) (NewOptions\<lparr>shardCount := 1\<rparr>) of Inl err \<Rightarrow> False | Inr c \<Rightarrow>
     (case Cache_SAdd c ''s'' [''x''] of Ret (c, Inr n) \<Rightarrow>
       n = 1 \<and> (case run [(env_at 2, ResizeOp 2), (env_at 3, GetOp ''a'')] c of Ret (c, rs) \<Rightarrow>
         \<not> Cache_IsRehashing c \<and> (case Cache_SCard c ''s'' of Ret (_, Inr m) \<Rightarrow> m = 0 | _ \<Rightarrow> False)
       | Panic \<Rightarrow> False)
     | _ \<Rightarrow> False))"
  by code_simp

text \<open>An expiry instant that overflows \<^verbatim>\<open>int64\<close> makes an entry expire at once; a resize then brings it back
  without any expiry, because extraction tests for a positive instant where reading tests for a non-zero one.\<close>

theorem overflowed_ttl_resurrected:
  "(case Cache_New (env_at 0) (NewOptions\<lparr>shardCount := 1\<rparr>) of Inl err \<Rightarrow> False | Inr c \<Rightarrow>
     (case run [(env_at 1, SetOp ''a'' (Some [7]) [2 ^ 63 - 1]), (env_at 2, GetOp ''a'')] c of
        Ret (_, rs) \<Rightarrow> rs = [Written (Inr ()), Answer (Inl ErrKeyNotFound)] | Panic \<Rightarrow> False)
     \<and> (case run [(env_at 1, SetOp ''a'' (Some [7]) [2 ^ 63 - 1]), (env_at 2, ResizeOp 2), (env_at 3, GetOp ''b''),
                  (env_at (2 ^ 62), GetOp ''a'')] c of
        Ret (_, rs) \<Rightarrow> rs = [Written (Inr ()), Admin, Answer (Inl ErrKeyNotFound), Answer (Inr [7])] | Panic \<Rightarrow> False))"
  by code_simp

end
