(* ===== verification/Glob.thy ===== *)
theory Glob
  imports Prelude
begin

text \<open>
  What the key listing uses of Go's standard library: \<^verbatim>\<open>filepath.Match\<close> on Unix, with its chunk scanner,
  its character classes over UTF-8 runes, and \<^verbatim>\<open>ErrBadPattern\<close> as \<^term>\<open>None\<close>.
\<close>

section \<open>Runes\<close>

definition ord_char :: "char \<Rightarrow> nat" where
  "ord_char c = of_char c"

definition is_cont :: "nat \<Rightarrow> bool" where
  "is_cont b \<longleftrightarrow> 128 \<le> b \<and> b < 192"

text \<open>\<^verbatim>\<open>utf8.DecodeRuneInString\<close>: the rune and its width; \<^verbatim>\<open>(RuneError, 1)\<close> on an invalid encoding and
  \<^verbatim>\<open>(RuneError, 0)\<close> on the empty string.\<close>

definition RuneError :: nat where
  "RuneError = 65533"

fun decode_rune :: "nat list \<Rightarrow> nat \<times> nat" where
  "decode_rune [] = (RuneError, 0)"
| "decode_rune (a # bs) =
     (if a < 128 then (a, 1)
      else if a < 194 \<or> a > 244 then (RuneError, 1)
      else case bs of
        [] \<Rightarrow> (RuneError, 1)
      | b # cs \<Rightarrow>
          if a < 224 then
            (if is_cont b then ((a - 192) * 64 + (b - 128), 2) else (RuneError, 1))
          else
            let lo = (if a = 224 then 160 else if a = 240 then 144 else 128);
                hi = (if a = 237 then 160 else if a = 244 then 144 else 192)
            in if \<not> (lo \<le> b \<and> b < hi) then (RuneError, 1)
            else case cs of
              [] \<Rightarrow> (RuneError, 1)
            | c # ds \<Rightarrow>
                if \<not> is_cont c then (RuneError, 1)
                else if a < 240 then ((a - 224) * 4096 + (b - 128) * 64 + (c - 128), 3)
                else case ds of
                  [] \<Rightarrow> (RuneError, 1)
                | d # _ \<Rightarrow>
                    if is_cont d
                    then ((a - 240) * 262144 + (b - 128) * 4096 + (c - 128) * 64 + (d - 128), 4)
                    else (RuneError, 1))"

definition DecodeRune :: "gostring \<Rightarrow> nat \<times> nat" where
  "DecodeRune s = decode_rune (map ord_char (take 4 s))"

section \<open>Chunks\<close>

fun scan_stars :: "gostring \<Rightarrow> bool \<Rightarrow> bool \<times> gostring" where
  "scan_stars [] star = (star, [])"
| "scan_stars (c # p) star = (if c = CHR ''*'' then scan_stars p True else (star, c # p))"

text \<open>The scan for the end of the chunk: the length of the chunk.\<close>

fun scan_len :: "bool \<Rightarrow> gostring \<Rightarrow> nat" where
  "scan_len inrange [] = 0"
| "scan_len inrange (c # p) =
     (if c = CHR 0x5C then (case p of [] \<Rightarrow> 1 | _ # p' \<Rightarrow> 2 + scan_len inrange p')
      else if c = CHR ''['' then 1 + scan_len True p
      else if c = CHR '']'' then 1 + scan_len False p
      else if c = CHR ''*'' then (if \<not> inrange then 0 else 1 + scan_len inrange p)
      else 1 + scan_len inrange p)"

definition scanChunk :: "gostring \<Rightarrow> bool \<times> gostring \<times> gostring" where
  "scanChunk p = (let (star, p) = scan_stars p False; n = scan_len False p in (star, take n p, drop n p))"

definition getEsc :: "gostring \<Rightarrow> (nat \<times> gostring) option" where
  "getEsc chunk =
     (if chunk = [] \<or> hd chunk = CHR ''-'' \<or> hd chunk = CHR '']'' then None
      else let chunk = (if hd chunk = CHR 0x5C then tl chunk else chunk) in
        if chunk = [] then None
        else let (r, n) = DecodeRune chunk in
          if r = RuneError \<and> n = 1 then None
          else if drop n chunk = [] then None
          else Some (r, drop n chunk))"

lemma decode_rune_width: "bs \<noteq> [] \<Longrightarrow> 0 < snd (decode_rune bs)"
  by (cases bs) (auto simp: Let_def split: list.splits)

lemma DecodeRune_width: "s \<noteq> [] \<Longrightarrow> 0 < snd (DecodeRune s)"
  by (simp add: DecodeRune_def decode_rune_width)

lemma getEsc_shorter: "getEsc chunk = Some (r, rest) \<Longrightarrow> length rest < length chunk"
proof -
  assume "getEsc chunk = Some (r, rest)"
  then obtain c' n where c: "chunk \<noteq> []" "c' \<noteq> []" "c' = (if hd chunk = CHR 0x5C then tl chunk else chunk)"
    "DecodeRune c' = (r, n)" "rest = drop n c'"
    by (auto simp: getEsc_def Let_def split: if_splits prod.splits)
  have "0 < n" using DecodeRune_width [OF c(2)] c(4) by simp
  moreover have "length c' \<le> length chunk" using c(3) by (cases chunk) auto
  moreover have "0 < length c'" using c(2) by simp
  ultimately show ?thesis unfolding c(5) length_drop by linarith
qed

text \<open>The ranges of a character class: whether the rune is in one of them, and the chunk behind the
  closing bracket.\<close>

function class_loop :: "nat \<Rightarrow> gostring \<Rightarrow> bool \<Rightarrow> nat \<Rightarrow> (bool \<times> gostring) option" where
  "class_loop r chunk matched nrange =
     (if chunk \<noteq> [] \<and> hd chunk = CHR '']'' \<and> nrange > 0 then Some (matched, tl chunk)
      else case getEsc chunk of
        None \<Rightarrow> None
      | Some (lo, chunk') \<Rightarrow>
          if hd chunk' = CHR ''-'' then
            (case getEsc (tl chunk') of
               None \<Rightarrow> None
             | Some (hi, chunk'') \<Rightarrow> class_loop r chunk'' (matched \<or> lo \<le> r \<and> r \<le> hi) (nrange + 1))
          else class_loop r chunk' (matched \<or> lo \<le> r \<and> r \<le> lo) (nrange + 1))"
  by pat_completeness auto

termination
  by (relation "measure (\<lambda>(r, chunk, matched, nrange). length chunk)")
     (auto dest!: getEsc_shorter simp: less_diff_conv)

lemma class_loop_shorter: "class_loop r chunk matched nrange = Some (b, rest) \<Longrightarrow> length rest < length chunk"
proof (induction r chunk matched nrange rule: class_loop.induct)
  case (1 r chunk matched nrange)
  show ?case
  proof (cases "chunk \<noteq> [] \<and> hd chunk = CHR '']'' \<and> nrange > 0")
    case True
    then show ?thesis using "1.prems" by (cases chunk) (auto simp: class_loop.simps [of r chunk])
  next
    case False
    then obtain lo c1 where c1: "getEsc chunk = Some (lo, c1)"
      using "1.prems" by (auto simp: class_loop.simps [of r chunk] split: option.splits)
    note s1 = getEsc_shorter [OF c1]
    show ?thesis
    proof (cases "hd c1 = CHR ''-''")
      case True
      then obtain hi c2 where c2: "getEsc (tl c1) = Some (hi, c2)"
        and rec: "class_loop r c2 (matched \<or> lo \<le> r \<and> r \<le> hi) (nrange + 1) = Some (b, rest)"
        using "1.prems" False c1 by (auto simp: class_loop.simps [of r chunk] split: option.splits)
      have "length rest < length c2" using "1.IH"(1) [OF False c1 refl True c2 refl rec] .
      then show ?thesis using s1 getEsc_shorter [OF c2] by simp
    next
      case noDash: False
      then have rec: "class_loop r c1 (matched \<or> lo \<le> r \<and> r \<le> lo) (nrange + 1) = Some (b, rest)"
        using "1.prems" False c1 by (simp add: class_loop.simps [of r chunk])
      have "length rest < length c1" using "1.IH"(2) [OF False c1 refl noDash rec] .
      then show ?thesis using s1 by simp
    qed
  qed
qed

text \<open>\<^verbatim>\<open>matchChunk\<close>: \<^term>\<open>None\<close> for a bad pattern, \<^term>\<open>Some None\<close> when the chunk does not match, and
  \<open>Some (Some rest)\<close> when it matches a prefix.  After a mismatch the loop only checks the rest of the chunk.\<close>

function chunk_loop :: "bool \<Rightarrow> gostring \<Rightarrow> gostring \<Rightarrow> gostring option option" where
  "chunk_loop failed chunk s =
     (if chunk = [] then Some (if failed then None else Some s)
      else
        let failed = (failed \<or> s = []) in
        if hd chunk = CHR ''['' then
          (let (r, n) = (if failed then (0, 0) else DecodeRune s);
               s = drop n s;
               negated = (tl chunk \<noteq> [] \<and> hd (tl chunk) = CHR 0x5E)
           in case class_loop r (if negated then tl (tl chunk) else tl chunk) False 0 of
                None \<Rightarrow> None
              | Some (matched, chunk') \<Rightarrow> chunk_loop (failed \<or> matched = negated) chunk' s)
        else if hd chunk = CHR ''?'' then
          chunk_loop (failed \<or> hd s = CHR ''/'') (tl chunk) (if failed then s else drop (snd (DecodeRune s)) s)
        else
          let chunk' = (if hd chunk = CHR 0x5C then tl chunk else chunk) in
          if chunk' = [] then None
          else chunk_loop (failed \<or> hd chunk' \<noteq> hd s) (tl chunk') (if failed then s else tl s))"
  by pat_completeness auto

termination
proof (relation "measure (\<lambda>(failed, chunk, s). length chunk)", goal_cases)
  case (2 failed chunk s failed' pr r n s' negated pr2 matched chunk')
  then have "length chunk' < length (if negated then tl (tl chunk) else tl chunk)"
    using class_loop_shorter by fastforce
  also have "\<dots> \<le> length chunk" by (auto simp: Let_def)
  finally show ?case by simp
next
  case (3 failed chunk s failed')
  then show ?case by (cases chunk) auto
next
  case (4 failed chunk s failed' chunk')
  then show ?case by (cases chunk) (auto split: if_splits)
qed simp

definition matchChunk :: "gostring \<Rightarrow> gostring \<Rightarrow> gostring option option" where
  "matchChunk chunk s = chunk_loop False chunk s"

section \<open>Match\<close>

fun star_loop :: "gostring \<Rightarrow> bool \<Rightarrow> gostring \<Rightarrow> gostring option option" where
  "star_loop chunk isLast [] = Some None"
| "star_loop chunk isLast (c # cs) =
     (if c = CHR ''/'' then Some None
      else case matchChunk chunk cs of
        None \<Rightarrow> None
      | Some (Some t) \<Rightarrow> if isLast \<and> t \<noteq> [] then star_loop chunk isLast cs else Some (Some t)
      | Some None \<Rightarrow> star_loop chunk isLast cs)"

lemma scan_stars_shorter:
  "scan_stars p b = (star, q) \<Longrightarrow> length q \<le> length p \<and> (p \<noteq> [] \<longrightarrow> q = p \<and> hd p \<noteq> CHR ''*'' \<or> length q < length p)"
proof (induction p arbitrary: b)
  case (Cons c p)
  show ?case
  proof (cases "c = CHR ''*''")
    case True
    then have "scan_stars p True = (star, q)" using Cons.prems by simp
    then show ?thesis using Cons.IH by fastforce
  qed (use Cons.prems in auto)
qed simp

lemma scanChunk_shorter: "p \<noteq> [] \<Longrightarrow> scanChunk p = (star, chunk, rest) \<Longrightarrow> length rest < length p"
proof -
  assume p: "p \<noteq> []" and sc: "scanChunk p = (star, chunk, rest)"
  obtain b q where q: "scan_stars p False = (b, q)" by fastforce
  then have rest: "rest = drop (scan_len False q) q" using sc by (simp add: scanChunk_def Let_def)
  from scan_stars_shorter [OF q] p consider "q = p" "hd p \<noteq> CHR ''*''" | "length q < length p" by blast
  then show ?thesis
  proof cases
    case 1
    then have "0 < scan_len False q" using p by (cases p) (auto split: list.splits)
    then show ?thesis using 1 p unfolding rest by (cases p) auto
  qed (simp add: rest)
qed

text \<open>\<^verbatim>\<open>filepath.Match\<close>; the check of the remaining pattern after a mismatch only decides between a false
  result and an error.\<close>

function rest_valid :: "gostring \<Rightarrow> bool" where
  "rest_valid p =
     (if p = [] then True
      else let (star, chunk, rest) = scanChunk p in matchChunk chunk [] \<noteq> None \<and> rest_valid rest)"
  by pat_completeness auto

termination
  by (relation "measure length") (auto dest: scanChunk_shorter [OF _ sym])

function Match :: "gostring \<Rightarrow> gostring \<Rightarrow> bool option" where
  "Match p name =
     (if p = [] then Some (name = [])
      else let (star, chunk, rest) = scanChunk p in
        if star \<and> chunk = [] then Some (CHR ''/'' \<notin> set name)
        else case matchChunk chunk name of
          None \<Rightarrow> None
        | Some r \<Rightarrow>
            (case (case r of Some t \<Rightarrow> if t = [] \<or> rest \<noteq> [] then Some t else None | None \<Rightarrow> None) of
               Some t \<Rightarrow> Match rest t
             | None \<Rightarrow>
                 (case (if star then star_loop chunk (rest = []) name else Some None) of
                    None \<Rightarrow> None
                  | Some (Some t) \<Rightarrow> Match rest t
                  | Some None \<Rightarrow> if rest_valid rest then Some False else None)))"
  by pat_completeness auto

termination
  by (relation "measure (\<lambda>(p, name). length p)") (auto dest: scanChunk_shorter [OF _ sym])

declare class_loop.simps [simp del] chunk_loop.simps [simp del] rest_valid.simps [simp del] Match.simps [simp del]

text \<open>\<^verbatim>\<open>ok, _ := filepath.Match(pattern, k)\<close>\<close>

definition match_ok :: "gostring \<Rightarrow> gostring \<Rightarrow> bool" where
  "match_ok p name = (Match p name = Some True)"

section \<open>Literal patterns and the star\<close>

definition literal :: "gostring \<Rightarrow> bool" where
  "literal p \<longleftrightarrow> set p \<inter> {CHR ''*'', CHR ''?'', CHR ''['', CHR '']'', CHR 0x5C} = {}"

lemma scan_len_literal: "literal p \<Longrightarrow> scan_len b p = length p"
  by (induction p) (auto simp: literal_def)

lemma chunk_loop_literal:
  "literal p \<Longrightarrow> chunk_loop failed p s = Some (if failed \<or> \<not> (\<exists>t. s = p @ t) then None else Some (drop (length p) s))"
proof (induction p arbitrary: failed s)
  case (Cons c p)
  have c: "c \<noteq> CHR ''['' \<and> c \<noteq> CHR ''?'' \<and> c \<noteq> CHR 0x5C" "literal p" using Cons.prems by (auto simp: literal_def)
  show ?case
  proof (cases s)
    case Nil
    then show ?thesis using c Cons.IH [OF c(2), of True] by (simp add: chunk_loop.simps [of failed "c # p"] Let_def)
  next
    case (Cons d s')
    then show ?thesis
      using c Cons.IH [OF c(2)] by (auto simp: chunk_loop.simps [of failed "c # p"] Let_def)
  qed
qed (simp add: chunk_loop.simps)

lemma Match_Nil: "Match [] name = Some (name = [])"
  by (simp add: Match.simps [of "[]"])

lemma Match_literal: "literal p \<Longrightarrow> Match p name = Some (name = p)"
proof (cases p)
  case (Cons c q)
  assume lit: "literal p"
  then have "scan_stars p False = (False, p)" using Cons by (auto simp: literal_def)
  then have sc: "scanChunk p = (False, p, [])" using scan_len_literal [OF lit] by (simp add: scanChunk_def)
  have "p \<noteq> []" "rest_valid []" using Cons by (simp_all add: rest_valid.simps)
  then show ?thesis
    by (auto simp: Match.simps [of p name] sc matchChunk_def chunk_loop_literal [OF lit] Match_Nil)
qed (simp add: Match_Nil)

lemma Match_star: "Match ''*'' name = Some (CHR ''/'' \<notin> set name)"
  by (simp add: Match.simps [of "''*''"] scanChunk_def)

end
