(* ===== verification/Cache_Ext.thy ===== *)
theory Cache_Ext
  imports Cache Glob
begin

text \<open>
  \<^verbatim>\<open>cache_ext.go\<close>: the hash, list and key-management operations of the cache.  Each one is the guard on
  the open flag and the key, then the operation of the key's shard; operations whose shard result is
  nil or not ok return \<^verbatim>\<open>ErrKeyNotFound\<close>.
\<close>

section \<open>Hash operations\<close>

definition Cache_HSet :: "cache \<Rightarrow> gostring \<Rightarrow> gostring \<Rightarrow> gostring \<Rightarrow> (cache \<times> int result) go" where
  "Cache_HSet c k field value = guard_key c k (on_shard c k (\<lambda>s. hSet s k field value))"

definition Cache_HSetNX :: "cache \<Rightarrow> gostring \<Rightarrow> gostring \<Rightarrow> gostring \<Rightarrow> (cache \<times> bool result) go" where
  "Cache_HSetNX c k field value = guard_key c k (on_shard c k (\<lambda>s. hSetNX s k field value))"

definition Cache_HGet :: "cache \<Rightarrow> gostring \<Rightarrow> gostring \<Rightarrow> (cache \<times> gostring result) go" where
  "Cache_HGet c k field = guard_key c k (or_not_found (at_shard c k (\<lambda>s. hGet s k field)))"

definition Cache_HDel :: "cache \<Rightarrow> gostring \<Rightarrow> gostring list \<Rightarrow> (cache \<times> int result) go" where
  "Cache_HDel c k fs = guard_key c k (on_shard c k (\<lambda>s. hDel s k fs))"

definition Cache_HExists :: "cache \<Rightarrow> gostring \<Rightarrow> gostring \<Rightarrow> (cache \<times> bool result) go" where
  "Cache_HExists c k field = guard_key c k (at_shard c k (\<lambda>s. hExists s k field))"

definition Cache_HGetAll :: "cache \<Rightarrow> gostring \<Rightarrow> (cache \<times> gohash result) go" where
  "Cache_HGetAll c k = guard_key c k (or_not_found (at_shard c k (\<lambda>s. hGetAll s k)))"

definition Cache_HKeys :: "env \<Rightarrow> cache \<Rightarrow> gostring \<Rightarrow> (cache \<times> gostring list result) go" where
  "Cache_HKeys e c k = guard_key c k (or_not_found (at_shard c k (\<lambda>s. hKeys (e_ord e) s k)))"

definition Cache_HVals :: "env \<Rightarrow> cache \<Rightarrow> gostring \<Rightarrow> (cache \<times> gostring list result) go" where
  "Cache_HVals e c k = guard_key c k (or_not_found (at_shard c k (\<lambda>s. hVals (e_ord e) s k)))"

definition Cache_HLen :: "cache \<Rightarrow> gostring \<Rightarrow> (cache \<times> int result) go" where
  "Cache_HLen c k = guard_key c k (at_shard c k (\<lambda>s. hLen s k))"

definition Cache_HStrLen :: "cache \<Rightarrow> gostring \<Rightarrow> gostring \<Rightarrow> (cache \<times> int result) go" where
  "Cache_HStrLen c k field = guard_key c k (at_shard c k (\<lambda>s. hStrLen s k field))"

text \<open>\<^verbatim>\<open>return c.getShard(key).hIncrBy(...)\<close>: the error of the shard operation is passed on.\<close>

definition or_strconv :: "(cache \<times> (num_error + 'a) result) go \<Rightarrow> (cache \<times> 'a result) go" where
  "or_strconv m = go_bind m (\<lambda>(c, r). Ret (c, case r of
      Inl err \<Rightarrow> Inl err | Inr (Inl ne) \<Rightarrow> Inl (ErrStrconv ne) | Inr (Inr x) \<Rightarrow> Inr x))"

definition Cache_HIncrBy :: "cache \<Rightarrow> gostring \<Rightarrow> gostring \<Rightarrow> int \<Rightarrow> (cache \<times> int result) go" where
  "Cache_HIncrBy c k field delta = guard_key c k (or_strconv (on_shard c k (\<lambda>s. hIncrBy s k field delta)))"

definition Cache_HIncrByFloat :: "'f float64_ops \<Rightarrow> cache \<Rightarrow> gostring \<Rightarrow> gostring \<Rightarrow> 'f \<Rightarrow> (cache \<times> 'f result) go" where
  "Cache_HIncrByFloat fl c k field delta =
     guard_key c k (or_strconv (on_shard c k (\<lambda>s. hIncrByFloat fl s k field delta)))"

definition Cache_HMGet :: "cache \<Rightarrow> gostring \<Rightarrow> gostring list \<Rightarrow> (cache \<times> gostring option list result) go" where
  "Cache_HMGet c k fs = guard_key c k (at_shard c k (\<lambda>s. hmGet s k fs))"

definition Cache_HMSet :: "cache \<Rightarrow> gostring \<Rightarrow> gostring list \<Rightarrow> (cache \<times> unit result) go" where
  "Cache_HMSet c k fvPairs = guard_key c k (on_shard c k (\<lambda>s. (hmSet s k fvPairs, ())))"

section \<open>List operations\<close>

definition Cache_LPush :: "cache \<Rightarrow> gostring \<Rightarrow> gostring list \<Rightarrow> (cache \<times> int result) go" where
  "Cache_LPush c k elems = guard_key c k (on_shard c k (\<lambda>s. lPush s k elems))"

definition Cache_RPush :: "cache \<Rightarrow> gostring \<Rightarrow> gostring list \<Rightarrow> (cache \<times> int result) go" where
  "Cache_RPush c k elems = guard_key c k (on_shard c k (\<lambda>s. rPush s k elems))"

definition Cache_LPop :: "cache \<Rightarrow> gostring \<Rightarrow> (cache \<times> gostring result) go" where
  "Cache_LPop c k = guard_key c k (or_not_found (on_shard c k (\<lambda>s. lPop s k)))"

definition Cache_RPop :: "cache \<Rightarrow> gostring \<Rightarrow> (cache \<times> gostring result) go" where
  "Cache_RPop c k = guard_key c k (or_not_found (on_shard c k (\<lambda>s. rPop s k)))"

definition Cache_LLen :: "cache \<Rightarrow> gostring \<Rightarrow> (cache \<times> int result) go" where
  "Cache_LLen c k = guard_key c k (at_shard c k (\<lambda>s. lLen s k))"

definition Cache_LRange :: "cache \<Rightarrow> gostring \<Rightarrow> int \<Rightarrow> int \<Rightarrow> (cache \<times> gostring list result) go" where
  "Cache_LRange c k start stop = guard_key c k (or_not_found (at_shard c k (\<lambda>s. lRange s k start stop)))"

definition Cache_LIndex :: "cache \<Rightarrow> gostring \<Rightarrow> int \<Rightarrow> (cache \<times> gostring result) go" where
  "Cache_LIndex c k index = guard_key c k (or_not_found (at_shard c k (\<lambda>s. lIndex s k index)))"

definition Cache_LSet :: "cache \<Rightarrow> gostring \<Rightarrow> int \<Rightarrow> gostring \<Rightarrow> (cache \<times> unit result) go" where
  "Cache_LSet c k index value =
     guard_key c k (or_not_found (on_shard c k (\<lambda>s. let (s, ok) = lSet s k index value in (s, if ok then Some () else None))))"

definition Cache_LRem :: "cache \<Rightarrow> gostring \<Rightarrow> int \<Rightarrow> gostring \<Rightarrow> (cache \<times> int result) go" where
  "Cache_LRem c k cnt value = guard_key c k (on_shard c k (\<lambda>s. lRem s k cnt value))"

definition Cache_LTrim :: "cache \<Rightarrow> gostring \<Rightarrow> int \<Rightarrow> int \<Rightarrow> (cache \<times> unit result) go" where
  "Cache_LTrim c k start stop = guard_key c k (on_shard c k (\<lambda>s. (lTrim s k start stop, ())))"

definition Cache_LInsert :: "cache \<Rightarrow> gostring \<Rightarrow> bool \<Rightarrow> gostring \<Rightarrow> gostring \<Rightarrow> (cache \<times> int result) go" where
  "Cache_LInsert c k before pivot value = guard_key c k (on_shard c k (\<lambda>s. lInsert s k before pivot value))"

definition Cache_LPos :: "cache \<Rightarrow> gostring \<Rightarrow> gostring \<Rightarrow> int \<Rightarrow> int \<Rightarrow> int \<Rightarrow> (cache \<times> int list result) go" where
  "Cache_LPos c k value rank cnt maxLen = guard_key c k (at_shard c k (\<lambda>s. lPos s k value rank cnt maxLen))"

section \<open>Key management\<close>

text \<open>\<^verbatim>\<open>return c.getShard(key).f(key, ...), nil\<close> for the operations on entries, which may panic.\<close>

definition shard_call :: "cache \<Rightarrow> gostring \<Rightarrow> (shard \<Rightarrow> (shard \<times> 'a) go) \<Rightarrow> (cache \<times> 'a result) go" where
  "shard_call c k f = go_bind (with_shard c k f) (\<lambda>(c, x). Ret (c, Inr x))"

definition keep :: "shard \<Rightarrow> 'a go \<Rightarrow> (shard \<times> 'a) go" where
  "keep s m = go_bind m (\<lambda>x. Ret (s, x))"

definition Cache_Exists :: "env \<Rightarrow> cache \<Rightarrow> gostring \<Rightarrow> (cache \<times> bool result) go" where
  "Cache_Exists e c k = guard_key c k (shard_call c k (\<lambda>s. keep s (keyExists (e_now e) s k)))"

definition Cache_Type :: "env \<Rightarrow> cache \<Rightarrow> gostring \<Rightarrow> (cache \<times> byte result) go" where
  "Cache_Type e c k = guard_key c k (shard_call c k (\<lambda>s. keep s (keyType (e_now e) s k)))"

definition Cache_Expire :: "env \<Rightarrow> cache \<Rightarrow> gostring \<Rightarrow> int \<Rightarrow> (cache \<times> bool result) go" where
  "Cache_Expire e c k seconds =
     guard_key c k (shard_call c k (\<lambda>s. shard_expire (e_now e) s k (i64 (seconds * 1000000000))))"

text \<open>\<^verbatim>\<open>time.Unix(sec, 0)\<close> counts seconds from year 1 in an \<^verbatim>\<open>int64\<close>; \<^verbatim>\<open>time.Until\<close> saturates.\<close>

definition unix_seconds :: "int \<Rightarrow> int" where
  "unix_seconds sec = i64 (sec + 62135596800) - 62135596800"

definition Cache_ExpireAt :: "env \<Rightarrow> cache \<Rightarrow> gostring \<Rightarrow> int \<Rightarrow> (cache \<times> bool result) go" where
  "Cache_ExpireAt e c k timestamp =
     guard_key c k
       (let ttl = sat64 (unix_seconds timestamp * 1000000000 - e_now e) in
        if ttl \<le> 0 then Ret (c, Inr False) else shard_call c k (\<lambda>s. shard_expire (e_now e) s k ttl))"

definition Cache_PExpire :: "env \<Rightarrow> cache \<Rightarrow> gostring \<Rightarrow> int \<Rightarrow> (cache \<times> bool result) go" where
  "Cache_PExpire e c k ms =
     guard_key c k (shard_call c k (\<lambda>s. shard_expire (e_now e) s k (i64 (ms * 1000000))))"

definition Cache_PExpireAt :: "env \<Rightarrow> cache \<Rightarrow> gostring \<Rightarrow> int \<Rightarrow> (cache \<times> bool result) go" where
  "Cache_PExpireAt e c k msTimestamp =
     guard_key c k
       (let ttl = sat64 (i64 (msTimestamp * 1000000) - e_now e) in
        if ttl \<le> 0 then Ret (c, Inr False) else shard_call c k (\<lambda>s. shard_expire (e_now e) s k ttl))"

definition Cache_TTL :: "env \<Rightarrow> cache \<Rightarrow> gostring \<Rightarrow> (cache \<times> int result) go" where
  "Cache_TTL e c k = guard_key c k (shard_call c k (\<lambda>s. keep s (shard_ttlSeconds (e_now e) s k)))"

definition Cache_PTTL :: "env \<Rightarrow> cache \<Rightarrow> gostring \<Rightarrow> (cache \<times> int result) go" where
  "Cache_PTTL e c k = guard_key c k (shard_call c k (\<lambda>s. keep s (shard_ttlMillis (e_now e) s k)))"

definition Cache_Persist :: "env \<Rightarrow> cache \<Rightarrow> gostring \<Rightarrow> (cache \<times> bool result) go" where
  "Cache_Persist e c k = guard_key c k (shard_call c k (\<lambda>s. shard_persist (e_now e) s k))"

fun keys_loop :: "env \<Rightarrow> gostring \<Rightarrow> shard list \<Rightarrow> gostring list go" where
  "keys_loop e pattern [] = Ret []"
| "keys_loop e pattern (s # ss) =
     go_bind (matchKeys (e_ord e) (e_now e) (match_ok pattern) s) (\<lambda>ks.
     go_bind (keys_loop e pattern ss) (\<lambda>ks'. Ret (ks @ ks')))"

definition Cache_Keys :: "env \<Rightarrow> cache \<Rightarrow> gostring \<Rightarrow> gostring list result go" where
  "Cache_Keys e c pattern =
     (case validateOpen c of Some err \<Rightarrow> Ret (Inl err) | None \<Rightarrow>
      go_bind (keys_loop e pattern (tbl c)) (\<lambda>ks. Ret (Inr ks)))"

end
