(* ===== verification/Wire.thy ===== *)
theory Wire
  imports Prelude
begin

text \<open>
  Byte-level vocabulary of the wire protocol: big-endian integers (\<^verbatim>\<open>encoding/binary\<close>), the bytes of a
  string, slices of a buffer, and sequences of length-prefixed strings with the two loops that
  read them: one that fails on a truncated payload and one that keeps what it has read.
\<close>

section \<open>Integers\<close>

text \<open>\<open>be k n\<close> are the \<open>k\<close> bytes that \<^verbatim>\<open>PutUint16\<close>, \<^verbatim>\<open>PutUint32\<close>, \<^verbatim>\<open>PutUint64\<close> write for \<open>n\<close> converted to
  the unsigned type of that width (the conversion drops the high bits).\<close>

fun be :: "nat \<Rightarrow> nat \<Rightarrow> bytes" where
  "be 0 n = []"
| "be (Suc k) n = be k (n div 256) @ [of_nat n]"

definition unbe :: "bytes \<Rightarrow> nat" where
  "unbe bs = foldl (\<lambda>a b. a * 256 + unat b) 0 bs"

text \<open>\<^verbatim>\<open>uint64(x)\<close> of a signed \<open>x\<close>, and back.\<close>

definition u64 :: "int \<Rightarrow> nat" where
  "u64 x = nat (x mod 2 ^ 64)"

definition s64 :: "nat \<Rightarrow> int" where
  "s64 n = i64 (int n)"

definition u32 :: "int \<Rightarrow> nat" where
  "u32 x = nat (x mod 2 ^ 32)"

definition s32 :: "nat \<Rightarrow> int" where
  "s32 n = (int n + 2 ^ 31) mod 2 ^ 32 - 2 ^ 31"

definition in_i32 :: "int \<Rightarrow> bool" where
  "in_i32 x \<longleftrightarrow> - (2 ^ 31) \<le> x \<and> x < 2 ^ 31"

section \<open>Strings and slices\<close>

definition str_bytes :: "gostring \<Rightarrow> bytes" where
  "str_bytes s = map of_char s"

definition bytes_str :: "bytes \<Rightarrow> gostring" where
  "bytes_str bs = map (\<lambda>b. char_of (unat b)) bs"

text \<open>\<open>sl a b p\<close> is \<^verbatim>\<open>p[a:b]\<close> within the length of \<open>p\<close>.  A Go slice may also be re-sliced up to its
  capacity; \<open>spare\<close> are the bytes between length and capacity.\<close>

definition sl :: "nat \<Rightarrow> nat \<Rightarrow> bytes \<Rightarrow> bytes" where
  "sl a b p = take (b - a) (drop a p)"

definition go_slice :: "bytes \<Rightarrow> nat \<Rightarrow> nat \<Rightarrow> bytes \<Rightarrow> bytes go" where
  "go_slice spare a b p = (if a \<le> b \<and> b \<le> length p + length spare then Ret (sl a b (p @ spare)) else Panic)"

section \<open>Errors\<close>

datatype net_error =
    ErrTooShort | ErrTruncated | ErrInvalidCommand | ErrPayloadTooLarge nat | EOF | ErrUnexpectedEOF

type_synonym 'a decoded = "net_error + 'a"

section \<open>Length-prefixed strings\<close>

definition enc_str :: "nat \<Rightarrow> gostring \<Rightarrow> bytes" where
  "enc_str w s = be w (length s) @ str_bytes s"

definition enc_strs :: "nat \<Rightarrow> gostring list \<Rightarrow> bytes" where
  "enc_strs w ss = concat (map (enc_str w) ss)"

text \<open>The loops read from \<open>p[off:]\<close>, the bytes still left.\<close>

fun read_strs :: "nat \<Rightarrow> nat \<Rightarrow> bytes \<Rightarrow> gostring list decoded" where
  "read_strs w 0 rest = Inr []"
| "read_strs w (Suc n) rest =
     (if length rest < w then Inl ErrTruncated
      else let el = unbe (take w rest); rest = drop w rest in
        if length rest < el then Inl ErrTruncated
        else case read_strs w n (drop el rest) of
               Inl err \<Rightarrow> Inl err
             | Inr ss \<Rightarrow> Inr (bytes_str (take el rest) # ss))"

fun scan_strs :: "nat \<Rightarrow> nat \<Rightarrow> bytes \<Rightarrow> gostring list" where
  "scan_strs w 0 rest = []"
| "scan_strs w (Suc n) rest =
     (if length rest < w then []
      else let el = unbe (take w rest); rest = drop w rest in
        if length rest < el then []
        else bytes_str (take el rest) # scan_strs w n (drop el rest))"

section \<open>Round trips\<close>

lemma length_be [simp]: "length (be k n) = k"
  by (induction k n rule: be.induct) auto

lemma unbe_snoc: "unbe (bs @ [b]) = unbe bs * 256 + unat b"
  by (simp add: unbe_def)

lemma unat_byte: "unat (of_nat n :: byte) = n mod 256"
  by (simp add: unsigned_of_nat take_bit_eq_mod)

lemma unbe_be: "unbe (be k n) = n mod 256 ^ k"
proof (induction k n rule: be.induct)
  case (2 k n)
  have "unbe (be (Suc k) n) = (n div 256) mod 256 ^ k * 256 + n mod 256"
    by (simp add: unbe_snoc unat_byte 2)
  also have "\<dots> = n mod 256 ^ Suc k"
    by (simp add: mod_mult2_eq [of n 256 "256 ^ k"] algebra_simps)
  finally show ?case .
qed (simp add: unbe_def)

lemma unbe_be_small: "n < 256 ^ k \<Longrightarrow> unbe (be k n) = n"
  by (simp add: unbe_be)

lemma s64_u64: "in_i64 x \<Longrightarrow> s64 (u64 x) = x"
proof -
  assume "in_i64 x"
  have "i64 (x mod 2 ^ 64) = i64 x" by (simp add: i64_def mod_simps)
  then show ?thesis using \<open>in_i64 x\<close> by (simp add: s64_def u64_def)
qed

lemma u64_less: "u64 x < 256 ^ 8"
  using pos_mod_bound [of "2 ^ 64" x] by (simp add: u64_def nat_less_iff)

lemma s32_u32: "in_i32 x \<Longrightarrow> s32 (u32 x) = x"
proof -
  assume "in_i32 x"
  have "(x mod 2 ^ 32 + 2 ^ 31) mod 2 ^ 32 = (x + 2 ^ 31) mod (2 ^ 32 :: int)" by (simp add: mod_simps)
  then show ?thesis using \<open>in_i32 x\<close> by (simp add: s32_def u32_def in_i32_def)
qed

lemma u32_less: "u32 x < 256 ^ 4"
  using pos_mod_bound [of "2 ^ 32" x] by (simp add: u32_def nat_less_iff)

lemma length_str_bytes [simp]: "length (str_bytes s) = length s"
  by (simp add: str_bytes_def)

lemma length_bytes_str [simp]: "length (bytes_str bs) = length bs"
  by (simp add: bytes_str_def)

lemma of_char_less: "(of_char c :: nat) < 256"
  by simp

lemma char_byte_char: "char_of (unat (of_char c :: byte)) = c"
proof -
  have "(of_char c :: byte) = of_nat (of_char c)" by (simp add: of_nat_of_char)
  then have "unat (of_char c :: byte) = of_char c" using of_char_less [of c] by (simp add: unat_byte)
  then show ?thesis by simp
qed

lemma bytes_str_bytes [simp]: "bytes_str (str_bytes s) = s"
  by (induction s) (auto simp: bytes_str_def str_bytes_def char_byte_char)

lemma sl_append_left [simp]: "a = length xs \<Longrightarrow> b = length xs + length ys \<Longrightarrow> sl a b (xs @ ys @ zs) = ys"
  by (simp add: sl_def)

lemma read_enc_strs:
  assumes "\<forall>s\<in>set ss. length s < 256 ^ w"
  shows "read_strs w (length ss) (enc_strs w ss @ tail) = Inr ss"
  using assms by (induction ss) (auto simp: enc_strs_def enc_str_def unbe_be_small Let_def)

lemma scan_enc_strs:
  assumes "\<forall>s\<in>set ss. length s < 256 ^ w"
  shows "scan_strs w (length ss) (enc_strs w ss @ tail) = ss"
  using assms by (induction ss) (auto simp: enc_strs_def enc_str_def unbe_be_small Let_def)

lemma read_strs_length: "read_strs w n rest = Inr ss \<Longrightarrow> length ss = n"
  by (induction w n rest arbitrary: ss rule: read_strs.induct) (auto simp: Let_def split: if_splits sum.splits)

end
