(* ===== verification/Protocol.thy ===== *)
theory Protocol
  imports Wire
begin

text \<open>
  \<^verbatim>\<open>net/protocol.go\<close>: frames, key-value requests and responses, set requests and responses.  An encoder
  fills a buffer of exactly the size of its fields, so it is the concatenation of the fields.  A
  decoder gets the payload and the spare bytes behind it in its buffer (payload buffers come from
  a pool and may be longer than the payload); it returns a value, an error, or panics.
\<close>

section \<open>Frames\<close>

definition MaxPayloadSize :: nat where
  "MaxPayloadSize = 16 * 1024 * 1024"

record frame =
  fr_StreamID :: nat
  fr_Type :: byte
  fr_Flags :: byte
  fr_Payload :: bytes

definition Frame_Encode :: "frame \<Rightarrow> bytes" where
  "Frame_Encode f =
     be 4 (length (fr_Payload f)) @ be 4 (fr_StreamID f) @ [fr_Type f] @ [fr_Flags f] @ fr_Payload f"

text \<open>\<^verbatim>\<open>io.ReadFull\<close> on the bytes that can still be read before the stream ends.\<close>

definition ReadFull :: "nat \<Rightarrow> bytes \<Rightarrow> (bytes \<times> bytes) decoded" where
  "ReadFull n r =
     (if n \<le> length r then Inr (take n r, drop n r)
      else if r = [] then Inl EOF else Inl ErrUnexpectedEOF)"

definition DecodeFrame :: "bytes \<Rightarrow> (frame \<times> bytes) decoded" where
  "DecodeFrame r =
     (case ReadFull 10 r of
        Inl err \<Rightarrow> Inl err
      | Inr (header, r) \<Rightarrow>
          let payloadLen = unbe (sl 0 4 header) in
          if payloadLen > MaxPayloadSize then Inl (ErrPayloadTooLarge payloadLen)
          else let f = \<lparr>fr_StreamID = unbe (sl 4 8 header), fr_Type = header ! 8, fr_Flags = header ! 9, fr_Payload = []\<rparr>
            in if payloadLen > 0 then
                 (case ReadFull payloadLen r of
                    Inl err \<Rightarrow> Inl err
                  | Inr (payload, r) \<Rightarrow> Inr (f\<lparr>fr_Payload := payload\<rparr>, r))
               else Inr (f, r))"

section \<open>Commands and statuses\<close>

definition CmdGet :: byte where "CmdGet = 1"
definition CmdSet :: byte where "CmdSet = 2"
definition CmdDel :: byte where "CmdDel = 3"
definition CmdLen :: byte where "CmdLen = 4"
definition CmdCleanup :: byte where "CmdCleanup = 5"
definition CmdStats :: byte where "CmdStats = 6"

definition CmdSAdd :: byte where "CmdSAdd = 10"
definition CmdSRem :: byte where "CmdSRem = 11"
definition CmdSIsMember :: byte where "CmdSIsMember = 12"
definition CmdSMembers :: byte where "CmdSMembers = 13"
definition CmdSCard :: byte where "CmdSCard = 14"
definition CmdSPop :: byte where "CmdSPop = 15"
definition CmdSRandMember :: byte where "CmdSRandMember = 16"
definition CmdSUnion :: byte where "CmdSUnion = 17"
definition CmdSInter :: byte where "CmdSInter = 18"
definition CmdSDiff :: byte where "CmdSDiff = 19"

definition StatusOK :: byte where "StatusOK = 0"
definition StatusErr :: byte where "StatusErr = 1"
definition StatusNotFound :: byte where "StatusNotFound = 2"

lemmas kv_cmd_defs = CmdGet_def CmdSet_def CmdDel_def CmdLen_def CmdCleanup_def CmdStats_def

lemmas set_cmd_defs = CmdSAdd_def CmdSRem_def CmdSIsMember_def CmdSMembers_def CmdSCard_def CmdSPop_def
  CmdSRandMember_def CmdSUnion_def CmdSInter_def CmdSDiff_def

lemmas status_defs = StatusOK_def StatusErr_def StatusNotFound_def

section \<open>Key-value requests and responses\<close>

text \<open>A nil value is the empty list: no decoder and no encoder distinguishes them.\<close>

record kv_request =
  rq_Cmd :: byte
  rq_Key :: gostring
  rq_Value :: bytes
  rq_TTL :: int

definition Request_EncodePayload :: "kv_request \<Rightarrow> bytes" where
  "Request_EncodePayload req =
     [rq_Cmd req] @ be 2 (length (rq_Key req)) @ be 4 (length (rq_Value req)) @ be 8 (u64 (rq_TTL req))
     @ str_bytes (rq_Key req) @ rq_Value req"

definition DecodeRequestPayload :: "bytes \<Rightarrow> bytes \<Rightarrow> kv_request decoded go" where
  "DecodeRequestPayload spare p =
     (if length p < 15 then Ret (Inl ErrTooShort)
      else
        let keyLen = unbe (sl 1 3 p);
            valLen = unbe (sl 3 7 p);
            req = \<lparr>rq_Cmd = p ! 0, rq_Key = [], rq_Value = [], rq_TTL = s64 (unbe (sl 7 15 p))\<rparr>;
            offset = 15
        in if keyLen > 0 \<and> length p < offset + keyLen + valLen then Ret (Inl ErrTruncated)
           else
             let (req, offset) = (if keyLen > 0 then (req\<lparr>rq_Key := bytes_str (sl offset (offset + keyLen) p)\<rparr>, offset + keyLen)
                                  else (req, offset))
             in if valLen > 0
                then go_bind (go_slice spare offset (offset + valLen) p) (\<lambda>v. Ret (Inr (req\<lparr>rq_Value := v\<rparr>)))
                else Ret (Inr req))"

record kv_response =
  rs_Status :: byte
  rs_Value :: bytes
  rs_ErrMsg :: gostring

definition Response_EncodePayload :: "kv_response \<Rightarrow> bytes" where
  "Response_EncodePayload resp =
     [rs_Status resp] @ be 4 (length (rs_Value resp)) @ be 2 (length (rs_ErrMsg resp))
     @ rs_Value resp @ str_bytes (rs_ErrMsg resp)"

definition DecodeResponsePayload :: "bytes \<Rightarrow> bytes \<Rightarrow> kv_response decoded go" where
  "DecodeResponsePayload spare p =
     (if length p < 7 then Ret (Inl ErrTooShort)
      else
        let resp = \<lparr>rs_Status = p ! 0, rs_Value = [], rs_ErrMsg = []\<rparr>;
            valLen = unbe (sl 1 5 p);
            errLen = unbe (sl 5 7 p);
            offset = 7
        in if valLen > 0 \<and> length p < offset + valLen + errLen then Ret (Inl ErrTruncated)
           else
             let (resp, offset) = (if valLen > 0 then (resp\<lparr>rs_Value := sl offset (offset + valLen) p\<rparr>, offset + valLen)
                                   else (resp, offset))
             in if errLen > 0
                then go_bind (go_slice spare offset (offset + errLen) p) (\<lambda>m. Ret (Inr (resp\<lparr>rs_ErrMsg := bytes_str m\<rparr>)))
                else Ret (Inr resp))"

section \<open>Set requests\<close>

record set_request =
  sq_Cmd :: byte
  sq_Key :: gostring
  sq_Elems :: "gostring list"
  sq_Count :: int
  sq_Keys :: "gostring list"

definition EncodeSetRequest :: "set_request \<Rightarrow> bytes option" where
  "EncodeSetRequest req =
     (let cmd = sq_Cmd req; k = sq_Key req in
      if cmd = CmdSMembers \<or> cmd = CmdSCard \<or> cmd = CmdSPop then
        Some ([cmd] @ be 2 (length k) @ str_bytes k)
      else if cmd = CmdSAdd \<or> cmd = CmdSRem then
        Some ([cmd] @ be 2 (length k) @ be 4 (length (sq_Elems req)) @ str_bytes k @ enc_strs 4 (sq_Elems req))
      else if cmd = CmdSIsMember then
        (let elem = (case sq_Elems req of e # _ \<Rightarrow> e | [] \<Rightarrow> [])
         in Some ([cmd] @ be 2 (length k) @ be 4 (length elem) @ str_bytes k @ str_bytes elem))
      else if cmd = CmdSRandMember then
        Some ([cmd] @ be 2 (length k) @ be 4 (u32 (sq_Count req)) @ str_bytes k)
      else if cmd = CmdSUnion \<or> cmd = CmdSInter \<or> cmd = CmdSDiff then
        Some ([cmd] @ be 2 (length (sq_Keys req)) @ enc_strs 2 (sq_Keys req))
      else None)"

text \<open>\<^verbatim>\<open>3 + keyLen\<close> and \<^verbatim>\<open>7 + keyLen\<close> are \<^verbatim>\<open>uint16\<close> sums and wrap.\<close>

definition plus16 :: "nat \<Rightarrow> nat \<Rightarrow> nat" where
  "plus16 a b = (a + b) mod 2 ^ 16"

definition DecodeSetRequest :: "bytes \<Rightarrow> bytes \<Rightarrow> set_request decoded go" where
  "DecodeSetRequest spare p =
     (if length p < 3 then Ret (Inl ErrTooShort)
      else
        let cmd = p ! 0;
            req = \<lparr>sq_Cmd = cmd, sq_Key = [], sq_Elems = [], sq_Count = 0, sq_Keys = []\<rparr>;
            keyLen = unbe (sl 1 3 p)
        in
        if cmd = CmdSMembers \<or> cmd = CmdSCard \<or> cmd = CmdSPop then
          (if length p < 3 + keyLen then Ret (Inl ErrTruncated)
           else go_bind (go_slice spare 3 (plus16 3 keyLen) p) (\<lambda>k. Ret (Inr (req\<lparr>sq_Key := bytes_str k\<rparr>))))
        else if cmd = CmdSAdd \<or> cmd = CmdSRem then
          (if length p < 7 then Ret (Inl ErrTooShort)
           else
             let elemCount = unbe (sl 3 7 p) in
             go_bind (go_slice spare 7 (plus16 7 keyLen) p) (\<lambda>k.
               case read_strs 4 elemCount (drop (7 + keyLen) p) of
                 Inl err \<Rightarrow> Ret (Inl err)
               | Inr elems \<Rightarrow> Ret (Inr (req\<lparr>sq_Key := bytes_str k, sq_Elems := elems\<rparr>))))
        else if cmd = CmdSIsMember then
          (if length p < 7 then Ret (Inl ErrTooShort)
           else
             let elemLen = unbe (sl 3 7 p) in
             if length p < 7 + keyLen + elemLen then Ret (Inl ErrTruncated)
             else go_bind (go_slice spare 7 (plus16 7 keyLen) p) (\<lambda>k.
                    Ret (Inr (req\<lparr>sq_Key := bytes_str k,
                                  sq_Elems := [bytes_str (sl (7 + keyLen) (7 + keyLen + elemLen) p)]\<rparr>))))
        else if cmd = CmdSRandMember then
          (if length p < 7 then Ret (Inl ErrTooShort)
           else
             let req = req\<lparr>sq_Count := s32 (unbe (sl 3 7 p))\<rparr> in
             if length p < 7 + keyLen then Ret (Inl ErrTruncated)
             else go_bind (go_slice spare 7 (plus16 7 keyLen) p) (\<lambda>k. Ret (Inr (req\<lparr>sq_Key := bytes_str k\<rparr>))))
        else if cmd = CmdSUnion \<or> cmd = CmdSInter \<or> cmd = CmdSDiff then
          (case read_strs 2 keyLen (drop 3 p) of
             Inl err \<Rightarrow> Ret (Inl err)
           | Inr ks \<Rightarrow> Ret (Inr (req\<lparr>sq_Keys := ks\<rparr>)))
        else Ret (Inl ErrInvalidCommand))"

section \<open>Set responses\<close>

record set_response =
  sp_Cmd :: byte
  sp_Status :: byte
  sp_Changed :: nat
  sp_IsMember :: bool
  sp_Card :: nat
  sp_Elems :: "gostring list"
  sp_ErrMsg :: gostring

definition set_list_cmd :: "byte \<Rightarrow> bool" where
  "set_list_cmd cmd \<longleftrightarrow> cmd = CmdSMembers \<or> cmd = CmdSRandMember \<or> cmd = CmdSUnion \<or> cmd = CmdSInter \<or> cmd = CmdSDiff"

definition EncodeSetResponse :: "set_response \<Rightarrow> bytes option" where
  "EncodeSetResponse resp =
     (let cmd = sp_Cmd resp; st = [sp_Status resp] in
      if cmd = CmdSAdd \<or> cmd = CmdSRem then Some (st @ be 8 (sp_Changed resp))
      else if cmd = CmdSIsMember then Some (st @ [if sp_IsMember resp then 1 else 0])
      else if cmd = CmdSCard then Some (st @ be 8 (sp_Card resp))
      else if cmd = CmdSPop then
        (let elem = (case sp_Elems resp of e # _ \<Rightarrow> e | [] \<Rightarrow> [])
         in Some (st @ be 2 (length elem) @ str_bytes elem))
      else if set_list_cmd cmd then Some (st @ be 4 (length (sp_Elems resp)) @ enc_strs 2 (sp_Elems resp))
      else None)"

definition SetResponse_EncodePayload :: "set_response \<Rightarrow> bytes option" where
  "SetResponse_EncodePayload resp = EncodeSetResponse resp"

definition DecodeSetResponse :: "bytes \<Rightarrow> bytes \<Rightarrow> byte \<Rightarrow> set_response decoded go" where
  "DecodeSetResponse spare p cmd =
     (if length p < 1 then Ret (Inl ErrTooShort)
      else
        let resp = \<lparr>sp_Cmd = cmd, sp_Status = p ! 0, sp_Changed = 0, sp_IsMember = False, sp_Card = 0,
                     sp_Elems = [], sp_ErrMsg = []\<rparr>
        in
        if sp_Status resp = StatusErr \<and> length p > 1 then Ret (Inr (resp\<lparr>sp_ErrMsg := bytes_str (drop 1 p)\<rparr>))
        else if cmd = CmdSAdd \<or> cmd = CmdSRem then
          (if length p < 9 then Ret (Inl ErrTooShort) else Ret (Inr (resp\<lparr>sp_Changed := unbe (sl 1 9 p)\<rparr>)))
        else if cmd = CmdSIsMember then
          (if length p < 2 then Ret (Inl ErrTooShort) else Ret (Inr (resp\<lparr>sp_IsMember := p ! 1 \<noteq> 0\<rparr>)))
        else if cmd = CmdSCard then
          (if length p < 9 then Ret (Inl ErrTooShort) else Ret (Inr (resp\<lparr>sp_Card := unbe (sl 1 9 p)\<rparr>)))
        else if cmd = CmdSPop then
          (if length p < 3 then Ret (Inl ErrTooShort)
           else
             let elemLen = unbe (sl 1 3 p) in
             if elemLen > 0 \<and> length p \<ge> 3 + elemLen
             then go_bind (go_slice spare 3 (plus16 3 elemLen) p) (\<lambda>e. Ret (Inr (resp\<lparr>sp_Elems := [bytes_str e]\<rparr>)))
             else Ret (Inr resp))
        else if set_list_cmd cmd then
          (if length p < 5 then Ret (Inl ErrTooShort)
           else Ret (Inr (resp\<lparr>sp_Elems := scan_strs 2 (unbe (sl 1 5 p)) (drop 5 p)\<rparr>)))
        else Ret (Inr resp))"

section \<open>Frames: round trip\<close>

lemmas wire_simps = sl_def drop_Cons' take_Cons' nth_Cons' unbe_be_small

definition frame_ok :: "frame \<Rightarrow> bool" where
  "frame_ok f \<longleftrightarrow> length (fr_Payload f) \<le> MaxPayloadSize \<and> fr_StreamID f < 2 ^ 32"

lemma DecodeFrame_Encode:
  assumes "frame_ok f"
  shows "DecodeFrame (Frame_Encode f @ rest) = Inr (f, rest)"
proof -
  have len: "length (fr_Payload f) < 256 ^ 4" "fr_StreamID f < 256 ^ 4"
    using assms by (simp_all add: frame_ok_def MaxPayloadSize_def)
  define h where "h = be 4 (length (fr_Payload f)) @ be 4 (fr_StreamID f) @ [fr_Type f, fr_Flags f]"
  have h: "length h = 10" "sl 0 4 h = be 4 (length (fr_Payload f))" "sl 4 8 h = be 4 (fr_StreamID f)"
    "h ! 8 = fr_Type f" "h ! 9 = fr_Flags f"
    by (simp_all add: h_def sl_def nth_append)
  have "Frame_Encode f @ rest = h @ fr_Payload f @ rest" by (simp add: Frame_Encode_def h_def)
  then have "ReadFull 10 (Frame_Encode f @ rest) = Inr (h, fr_Payload f @ rest)"
    using h(1) by (simp add: ReadFull_def)
  then show ?thesis
    using assms len h by (auto simp: DecodeFrame_def unbe_be_small frame_ok_def ReadFull_def Let_def)
qed

text \<open>The read loop of a connection: \<open>n\<close> frames from the stream.\<close>

fun read_frames :: "nat \<Rightarrow> bytes \<Rightarrow> (frame list \<times> bytes) decoded" where
  "read_frames 0 r = Inr ([], r)"
| "read_frames (Suc n) r =
     (case DecodeFrame r of
        Inl err \<Rightarrow> Inl err
      | Inr (f, r) \<Rightarrow> (case read_frames n r of Inl err \<Rightarrow> Inl err | Inr (fs, r) \<Rightarrow> Inr (f # fs, r)))"

text \<open>(C30) Frames written one after the other to a connection are read back in order, each with its stream,
  type, flags and payload, and nothing of what follows is consumed.\<close>

theorem frame_stream_roundtrip:
  assumes "\<forall>f\<in>set fs. frame_ok f"
  shows "read_frames (length fs) (concat (map Frame_Encode fs) @ rest) = Inr (fs, rest)"
  using assms by (induction fs) (auto simp: DecodeFrame_Encode)

theorem frame_stream_roundtrip_witness:
  "frame_ok \<lparr>fr_StreamID = 7, fr_Type = 0, fr_Flags = 0, fr_Payload = [1, 2]\<rparr>
   \<and> read_frames 1 (Frame_Encode \<lparr>fr_StreamID = 7, fr_Type = 0, fr_Flags = 0, fr_Payload = [1, 2]\<rparr> @ [9])
     = Inr ([\<lparr>fr_StreamID = 7, fr_Type = 0, fr_Flags = 0, fr_Payload = [1, 2]\<rparr>], [9])"
proof -
  let ?f = "\<lparr>fr_StreamID = 7, fr_Type = 0, fr_Flags = 0, fr_Payload = [1, 2]\<rparr>"
  have ok: "frame_ok ?f" by (simp add: frame_ok_def MaxPayloadSize_def)
  then show ?thesis using frame_stream_roundtrip [of "[?f]" "[9]"] by simp
qed

text \<open>(C31) A frame that announces more than 16 MB is refused before its payload is read, and a connection
  that ends inside a frame gives an error, never a short frame.\<close>

theorem frame_decode_errors:
  "(10 \<le> length r \<and> MaxPayloadSize < unbe (take 4 r) \<longrightarrow> DecodeFrame r = Inl (ErrPayloadTooLarge (unbe (take 4 r))))
   \<and> (length r < 10 \<longrightarrow> DecodeFrame r = Inl (if r = [] then EOF else ErrUnexpectedEOF))
   \<and> (\<forall>f r'. DecodeFrame r = Inr (f, r') \<longrightarrow>
        length r = 10 + length (fr_Payload f) + length r' \<and> length (fr_Payload f) = unbe (take 4 r)
        \<and> length (fr_Payload f) \<le> MaxPayloadSize)"
  by (auto simp: DecodeFrame_def ReadFull_def sl_def Let_def min_def split: if_splits)

theorem frame_decode_errors_witness:
  "10 \<le> length [255, 0, 0, 0, 0, 0, 0, 0, 0, 0 :: byte] \<and> MaxPayloadSize < unbe (take 4 [255, 0, 0, 0, 0, 0, 0, 0, 0, 0 :: byte])
   \<and> DecodeFrame [255, 0, 0, 0, 0, 0, 0, 0, 0, 0] = Inl (ErrPayloadTooLarge 4278190080)"
proof -
  have "MaxPayloadSize < unbe (take 4 [255, 0, 0, 0, 0, 0, 0, 0, 0, 0 :: byte])"
    "unbe (take 4 [255, 0, 0, 0, 0, 0, 0, 0, 0, 0 :: byte]) = 4278190080"
    by (simp_all add: MaxPayloadSize_def unbe_def)
  then show ?thesis using frame_decode_errors [of "[255, 0, 0, 0, 0, 0, 0, 0, 0, 0]"] by simp
qed

section \<open>Key-value messages: round trip and panics\<close>

lemma kv_request_wire:
  assumes "length (rq_Key req) < 2 ^ 16" "length (rq_Value req) < 2 ^ 32" "in_i64 (rq_TTL req)"
  shows "DecodeRequestPayload spare (Request_EncodePayload req) = Ret (Inr req)"
proof -
  have l: "length (rq_Key req) < 256 ^ 2" "length (rq_Value req) < 256 ^ 4" using assms by simp_all
  have t: "s64 (unbe (be 8 (u64 (rq_TTL req)))) = rq_TTL req"
    using unbe_be_small [OF u64_less] s64_u64 [OF assms(3)] by simp
  have h: "sl 1 3 (Request_EncodePayload req) = be 2 (length (rq_Key req))"
    "sl 3 7 (Request_EncodePayload req) = be 4 (length (rq_Value req))"
    "sl 7 15 (Request_EncodePayload req) = be 8 (u64 (rq_TTL req))"
    "Request_EncodePayload req ! 0 = rq_Cmd req"
    "sl 15 (15 + length (rq_Key req)) (Request_EncodePayload req) = str_bytes (rq_Key req)"
    "length (Request_EncodePayload req) = 15 + length (rq_Key req) + length (rq_Value req)"
    "go_slice spare (15 + length (rq_Key req)) (15 + length (rq_Key req) + length (rq_Value req)) (Request_EncodePayload req)
       = Ret (rq_Value req)"
    by (simp_all add: Request_EncodePayload_def sl_def go_slice_def drop_Cons')
  then show ?thesis
    using l t h(7) by (auto simp: DecodeRequestPayload_def unbe_be_small Let_def)
qed

text \<open>(C32) A key-value request survives the wire: decoding the encoded payload gives the request back, whatever
  lies behind it in the buffer.\<close>

theorem kv_request_roundtrip:
  assumes "length (rq_Key req) < 2 ^ 16" "length (rq_Value req) < 2 ^ 32" "in_i64 (rq_TTL req)"
  shows "DecodeRequestPayload spare (Request_EncodePayload req) = Ret (Inr req)"
  by (rule kv_request_wire [OF assms])

theorem kv_request_roundtrip_witness:
  "DecodeRequestPayload [3] (Request_EncodePayload \<lparr>rq_Cmd = CmdSet, rq_Key = ''k'', rq_Value = [1, 2], rq_TTL = - 5\<rparr>)
   = Ret (Inr \<lparr>rq_Cmd = CmdSet, rq_Key = ''k'', rq_Value = [1, 2], rq_TTL = - 5\<rparr>)"
  using kv_request_roundtrip [of "\<lparr>rq_Cmd = CmdSet, rq_Key = ''k'', rq_Value = [1, 2], rq_TTL = - 5\<rparr>" "[3]"]
  by (simp add: in_i64_def)

lemma kv_response_wire:
  assumes "length (rs_Value resp) < 2 ^ 32" "length (rs_ErrMsg resp) < 2 ^ 16"
  shows "DecodeResponsePayload spare (Response_EncodePayload resp) = Ret (Inr resp)"
proof -
  have l: "length (rs_Value resp) < 256 ^ 4" "length (rs_ErrMsg resp) < 256 ^ 2" using assms by simp_all
  have h: "sl 1 5 (Response_EncodePayload resp) = be 4 (length (rs_Value resp))"
    "sl 5 7 (Response_EncodePayload resp) = be 2 (length (rs_ErrMsg resp))"
    "Response_EncodePayload resp ! 0 = rs_Status resp"
    "sl 7 (7 + length (rs_Value resp)) (Response_EncodePayload resp) = rs_Value resp"
    "length (Response_EncodePayload resp) = 7 + length (rs_Value resp) + length (rs_ErrMsg resp)"
    "go_slice spare (7 + length (rs_Value resp)) (7 + length (rs_Value resp) + length (rs_ErrMsg resp)) (Response_EncodePayload resp)
       = Ret (str_bytes (rs_ErrMsg resp))"
    by (simp_all add: Response_EncodePayload_def sl_def go_slice_def drop_Cons')
  then show ?thesis
    using l h(6) by (auto simp: DecodeResponsePayload_def unbe_be_small Let_def)
qed

text \<open>A key-value response survives the wire.\<close>

theorem kv_response_roundtrip:
  assumes "length (rs_Value resp) < 2 ^ 32" "length (rs_ErrMsg resp) < 2 ^ 16"
  shows "DecodeResponsePayload spare (Response_EncodePayload resp) = Ret (Inr resp)"
  by (rule kv_response_wire [OF assms])

theorem kv_response_roundtrip_witness:
  "DecodeResponsePayload [] (Response_EncodePayload \<lparr>rs_Status = StatusErr, rs_Value = [], rs_ErrMsg = ''no''\<rparr>)
   = Ret (Inr \<lparr>rs_Status = StatusErr, rs_Value = [], rs_ErrMsg = ''no''\<rparr>)"
  using kv_response_roundtrip [of "\<lparr>rs_Status = StatusErr, rs_Value = [], rs_ErrMsg = ''no''\<rparr>" "[]"] by simp

text \<open>(C33) The request decoder panics exactly when the key length is zero and the announced value runs past
  the capacity of the buffer: the length check is inside the branch for a non-empty key.\<close>

theorem kv_request_panics_iff:
  "DecodeRequestPayload spare p = Panic \<longleftrightarrow>
     15 \<le> length p \<and> unbe (sl 1 3 p) = 0 \<and> length p + length spare < 15 + unbe (sl 3 7 p)"
  by (auto simp: DecodeRequestPayload_def go_slice_def Let_def)

section \<open>Set messages: round trip and panics\<close>

text \<open>A request a client may send: the fields its command does not carry are zero, and lengths fit their
  fields (with the wrap of \<^verbatim>\<open>7 + keyLen\<close>, a key is shorter than \<^verbatim>\<open>65529\<close> bytes).\<close>

definition set_request_ok :: "set_request \<Rightarrow> bool" where
  "set_request_ok req \<longleftrightarrow>
     (let cmd = sq_Cmd req; k = sq_Key req in
      (cmd \<in> {CmdSMembers, CmdSCard, CmdSPop} \<and> sq_Elems req = [] \<and> sq_Count req = 0 \<and> sq_Keys req = [] \<and> length k < 65529)
      \<or> (cmd \<in> {CmdSAdd, CmdSRem} \<and> sq_Count req = 0 \<and> sq_Keys req = [] \<and> length k < 65529
         \<and> length (sq_Elems req) < 256 ^ 4 \<and> (\<forall>e\<in>set (sq_Elems req). length e < 256 ^ 4))
      \<or> (cmd = CmdSIsMember \<and> length (sq_Elems req) = 1 \<and> sq_Count req = 0 \<and> sq_Keys req = [] \<and> length k < 65529
         \<and> length (hd (sq_Elems req)) < 256 ^ 4)
      \<or> (cmd = CmdSRandMember \<and> sq_Elems req = [] \<and> in_i32 (sq_Count req) \<and> sq_Keys req = [] \<and> length k < 65529)
      \<or> (cmd \<in> {CmdSUnion, CmdSInter, CmdSDiff} \<and> k = [] \<and> sq_Elems req = [] \<and> sq_Count req = 0
         \<and> length (sq_Keys req) < 256 ^ 2 \<and> (\<forall>k\<in>set (sq_Keys req). length k < 256 ^ 2)))"

definition set_response_ok :: "set_response \<Rightarrow> bool" where
  "set_response_ok resp \<longleftrightarrow>
     sp_Status resp \<noteq> StatusErr \<and> sp_ErrMsg resp = []
     \<and> (let cmd = sp_Cmd resp in
        (cmd \<in> {CmdSAdd, CmdSRem} \<and> sp_Changed resp < 256 ^ 8 \<and> \<not> sp_IsMember resp \<and> sp_Card resp = 0 \<and> sp_Elems resp = [])
        \<or> (cmd = CmdSIsMember \<and> sp_Changed resp = 0 \<and> sp_Card resp = 0 \<and> sp_Elems resp = [])
        \<or> (cmd = CmdSCard \<and> sp_Changed resp = 0 \<and> \<not> sp_IsMember resp \<and> sp_Card resp < 256 ^ 8 \<and> sp_Elems resp = [])
        \<or> (cmd = CmdSPop \<and> sp_Changed resp = 0 \<and> \<not> sp_IsMember resp \<and> sp_Card resp = 0
           \<and> (case sp_Elems resp of [] \<Rightarrow> True | [e] \<Rightarrow> e \<noteq> [] \<and> length e < 65533 | _ \<Rightarrow> False))
        \<or> (set_list_cmd cmd \<and> sp_Changed resp = 0 \<and> \<not> sp_IsMember resp \<and> sp_Card resp = 0
           \<and> length (sp_Elems resp) < 256 ^ 4 \<and> (\<forall>e\<in>set (sp_Elems resp). length e < 256 ^ 2)))"

text \<open>The two shapes of a set payload: a key behind a three- and behind a seven-byte header.\<close>

lemma set_payload3:
  assumes "length k < 65533"
  shows "unbe (sl 1 3 (c # be 2 (length k) @ str_bytes k)) = length k"
    and "go_slice spare 3 (plus16 3 (length k)) (c # be 2 (length k) @ str_bytes k) = Ret (str_bytes k)"
  using assms by (simp_all add: go_slice_def plus16_def sl_def drop_Cons' unbe_be_small)

lemma set_payload7:
  assumes "length k < 65529" and "n < 256 ^ 4"
  shows "unbe (sl 1 3 (c # be 2 (length k) @ be 4 n @ str_bytes k @ rest)) = length k"
    and "unbe (sl 3 7 (c # be 2 (length k) @ be 4 n @ str_bytes k @ rest)) = n"
    and "go_slice spare 7 (plus16 7 (length k)) (c # be 2 (length k) @ be 4 n @ str_bytes k @ rest) = Ret (str_bytes k)"
    and "drop (7 + length k) (c # be 2 (length k) @ be 4 n @ str_bytes k @ rest) = rest"
  using assms by (simp_all add: go_slice_def plus16_def sl_def drop_Cons' unbe_be_small)

lemma set_roundtrip_key:
  assumes "sq_Cmd req \<in> {CmdSMembers, CmdSCard, CmdSPop}" "sq_Elems req = []" "sq_Count req = 0" "sq_Keys req = []"
    "length (sq_Key req) < 65529"
  shows "\<exists>p. EncodeSetRequest req = Some p \<and> DecodeSetRequest spare p = Ret (Inr req)"
proof -
  let ?k = "sq_Key req"
  define p where "p = sq_Cmd req # be 2 (length ?k) @ str_bytes ?k"
  have "length ?k < 65533" using assms(5) by simp
  note h = set_payload3 [OF this, where c = "sq_Cmd req", folded p_def]
  have "p ! 0 = sq_Cmd req" "length p = 3 + length ?k" by (simp_all add: p_def)
  then have "DecodeSetRequest spare p = Ret (Inr req)"
    using h assms(1-4) by (cases req) (auto simp: DecodeSetRequest_def Let_def)
  moreover have "EncodeSetRequest req = Some p"
    using assms(1) by (auto simp: EncodeSetRequest_def Let_def p_def)
  ultimately show ?thesis by blast
qed

lemma set_roundtrip_elems:
  assumes "sq_Cmd req \<in> {CmdSAdd, CmdSRem}" "sq_Count req = 0" "sq_Keys req = []" "length (sq_Key req) < 65529"
    "length (sq_Elems req) < 256 ^ 4" "\<forall>e\<in>set (sq_Elems req). length e < 256 ^ 4"
  shows "\<exists>p. EncodeSetRequest req = Some p \<and> DecodeSetRequest spare p = Ret (Inr req)"
proof -
  let ?k = "sq_Key req" and ?es = "sq_Elems req"
  define p where "p = sq_Cmd req # be 2 (length ?k) @ be 4 (length ?es) @ str_bytes ?k @ enc_strs 4 ?es"
  have r: "read_strs 4 (length ?es) (enc_strs 4 ?es) = Inr ?es"
    using read_enc_strs [OF assms(6), of "[]"] by simp
  note h = set_payload7 [OF assms(4,5), where c = "sq_Cmd req" and rest = "enc_strs 4 ?es", folded p_def]
  have "p ! 0 = sq_Cmd req" "7 \<le> length p" by (simp_all add: p_def)
  then have "DecodeSetRequest spare p = Ret (Inr req)"
    using h assms(1-3) r by (cases req) (auto simp: DecodeSetRequest_def Let_def set_cmd_defs)
  moreover have "EncodeSetRequest req = Some p"
    using assms(1) by (auto simp: EncodeSetRequest_def Let_def p_def set_cmd_defs)
  ultimately show ?thesis by blast
qed

lemma set_roundtrip_member:
  assumes "sq_Cmd req = CmdSIsMember" "length (sq_Elems req) = 1" "sq_Count req = 0" "sq_Keys req = []"
    "length (sq_Key req) < 65529" "length (hd (sq_Elems req)) < 256 ^ 4"
  shows "\<exists>p. EncodeSetRequest req = Some p \<and> DecodeSetRequest spare p = Ret (Inr req)"
proof -
  obtain e where e: "sq_Elems req = [e]" using assms(2) by (cases "sq_Elems req") auto
  let ?k = "sq_Key req"
  define p where "p = CmdSIsMember # be 2 (length ?k) @ be 4 (length e) @ str_bytes ?k @ str_bytes e"
  have el: "length e < 256 ^ 4" using assms(6) e by simp
  note h = set_payload7 [OF assms(5) el, where c = CmdSIsMember and rest = "str_bytes e", folded p_def]
  have "sl (7 + length ?k) (7 + length ?k + length e) p = str_bytes e" using h(4) by (simp add: sl_def)
  moreover have "p ! 0 = CmdSIsMember" "length p = 7 + length ?k + length e" by (simp_all add: p_def)
  ultimately have "DecodeSetRequest spare p = Ret (Inr req)"
    using h assms(1-4) e by (cases req) (simp add: DecodeSetRequest_def Let_def set_cmd_defs)
  moreover have "EncodeSetRequest req = Some p"
    using assms(1) e by (simp add: EncodeSetRequest_def Let_def p_def set_cmd_defs)
  ultimately show ?thesis by blast
qed

lemma set_roundtrip_rand:
  assumes "sq_Cmd req = CmdSRandMember" "sq_Elems req = []" "in_i32 (sq_Count req)" "sq_Keys req = []"
    "length (sq_Key req) < 65529"
  shows "\<exists>p. EncodeSetRequest req = Some p \<and> DecodeSetRequest spare p = Ret (Inr req)"
proof -
  let ?k = "sq_Key req"
  define p where "p = CmdSRandMember # be 2 (length ?k) @ be 4 (u32 (sq_Count req)) @ str_bytes ?k @ []"
  note h = set_payload7 [OF assms(5) u32_less [of "sq_Count req"], where c = CmdSRandMember and rest = "[]", folded p_def]
  have "p ! 0 = CmdSRandMember" "length p = 7 + length ?k" by (simp_all add: p_def)
  then have "DecodeSetRequest spare p = Ret (Inr req)"
    using h assms(1-4) s32_u32 [OF assms(3)] by (cases req) (simp add: DecodeSetRequest_def Let_def set_cmd_defs)
  moreover have "EncodeSetRequest req = Some p"
    using assms(1) by (simp add: EncodeSetRequest_def Let_def p_def set_cmd_defs)
  ultimately show ?thesis by blast
qed

lemma set_roundtrip_keys:
  assumes "sq_Cmd req \<in> {CmdSUnion, CmdSInter, CmdSDiff}" "sq_Key req = []" "sq_Elems req = []" "sq_Count req = 0"
    "length (sq_Keys req) < 256 ^ 2" "\<forall>k\<in>set (sq_Keys req). length k < 256 ^ 2"
  shows "\<exists>p. EncodeSetRequest req = Some p \<and> DecodeSetRequest spare p = Ret (Inr req)"
proof -
  define p where "p = sq_Cmd req # be 2 (length (sq_Keys req)) @ enc_strs 2 (sq_Keys req)"
  have r: "read_strs 2 (length (sq_Keys req)) (enc_strs 2 (sq_Keys req)) = Inr (sq_Keys req)"
    using read_enc_strs [OF assms(6), of "[]"] by simp
  have "unbe (sl 1 3 p) = length (sq_Keys req)" "drop 3 p = enc_strs 2 (sq_Keys req)" "p ! 0 = sq_Cmd req" "3 \<le> length p"
    using unbe_be_small [OF assms(5)] by (simp_all add: p_def sl_def drop_Cons')
  then have "DecodeSetRequest spare p = Ret (Inr req)"
    using assms(1-4) r by (cases req) (auto simp: DecodeSetRequest_def Let_def set_cmd_defs)
  moreover have "EncodeSetRequest req = Some p"
    using assms(1) by (auto simp: EncodeSetRequest_def Let_def p_def set_cmd_defs)
  ultimately show ?thesis by blast
qed

lemma set_request_wire:
  assumes "set_request_ok req"
  shows "\<exists>p. EncodeSetRequest req = Some p \<and> DecodeSetRequest spare p = Ret (Inr req)"
  using assms set_roundtrip_key [of req spare] set_roundtrip_elems [of req spare] set_roundtrip_member [of req spare]
    set_roundtrip_rand [of req spare] set_roundtrip_keys [of req spare]
  unfolding set_request_ok_def Let_def by argo

text \<open>Every set request survives the wire: all ten commands, in their five payload layouts.\<close>

theorem set_request_roundtrip:
  assumes "set_request_ok req"
  shows "\<exists>p. EncodeSetRequest req = Some p \<and> DecodeSetRequest spare p = Ret (Inr req)"
  by (rule set_request_wire [OF assms])

theorem set_request_roundtrip_witness:
  "\<exists>p. EncodeSetRequest \<lparr>sq_Cmd = CmdSAdd, sq_Key = ''s'', sq_Elems = [''a'', ''bc''], sq_Count = 0, sq_Keys = []\<rparr> = Some p
     \<and> DecodeSetRequest [] p = Ret (Inr \<lparr>sq_Cmd = CmdSAdd, sq_Key = ''s'', sq_Elems = [''a'', ''bc''], sq_Count = 0, sq_Keys = []\<rparr>)"
  by (rule set_request_roundtrip) (simp add: set_request_ok_def set_cmd_defs)

text \<open>The set-request decoder can be made to panic by the peer: a seven-byte \<^verbatim>\<open>SADD\<close> payload that announces
  a key panics when the buffer ends there, and a \<^verbatim>\<open>SMEMBERS\<close> payload whose key has 65533 bytes or more always
  does, because \<^verbatim>\<open>3 + keyLen\<close> wraps around in \<^verbatim>\<open>uint16\<close>.\<close>

theorem set_request_panics:
  assumes "65533 \<le> length k" "length k < 65536"
  shows "DecodeSetRequest [] [CmdSAdd, 0, 1, 0, 0, 0, 0] = Panic
    \<and> DecodeSetRequest spare (CmdSMembers # be 2 (length k) @ str_bytes k) = Panic"
proof
  show "DecodeSetRequest [] [CmdSAdd, 0, 1, 0, 0, 0, 0] = Panic"
    by (simp add: DecodeSetRequest_def set_cmd_defs unbe_def sl_def go_slice_def plus16_def)
  have "(3 + length k) mod 65536 = length k - 65533" using assms by (simp add: mod_if)
  then have "plus16 3 (length k) < 3" using assms by (simp add: plus16_def)
  moreover have "unbe (sl 1 3 (CmdSMembers # be 2 (length k) @ str_bytes k)) = length k"
    using unbe_be_small [of "length k" 2] assms(2) by (simp add: sl_def drop_Cons')
  ultimately show "DecodeSetRequest spare (CmdSMembers # be 2 (length k) @ str_bytes k) = Panic"
    by (simp add: DecodeSetRequest_def Let_def go_slice_def)
qed

theorem set_request_panics_witness:
  "DecodeSetRequest [] [CmdSAdd, 0, 1, 0, 0, 0, 0] = Panic
   \<and> DecodeSetRequest [1, 2] (CmdSMembers # be 2 (length (replicate 65533 CHR ''x'')) @ str_bytes (replicate 65533 CHR ''x'')) = Panic"
  by (rule set_request_panics; unfold length_replicate; simp)

lemma sl_tail: "sl (Suc 0) (Suc k) (c # be k n) = be k n"
  by (simp add: sl_def)

lemma set_response_wire:
  assumes "set_response_ok resp"
  shows "\<exists>p. EncodeSetResponse resp = Some p \<and> DecodeSetResponse spare p (sp_Cmd resp) = Ret (Inr resp)"
proof -
  have ok: "sp_Status resp \<noteq> StatusErr" "sp_ErrMsg resp = []" using assms by (simp_all add: set_response_ok_def)
  consider (count) "sp_Cmd resp \<in> {CmdSAdd, CmdSRem}" "sp_Changed resp < 256 ^ 8" "\<not> sp_IsMember resp" "sp_Card resp = 0" "sp_Elems resp = []"
    | (member) "sp_Cmd resp = CmdSIsMember" "sp_Changed resp = 0" "sp_Card resp = 0" "sp_Elems resp = []"
    | (card) "sp_Cmd resp = CmdSCard" "sp_Changed resp = 0" "\<not> sp_IsMember resp" "sp_Card resp < 256 ^ 8" "sp_Elems resp = []"
    | (none) "sp_Cmd resp = CmdSPop" "sp_Changed resp = 0" "\<not> sp_IsMember resp" "sp_Card resp = 0" "sp_Elems resp = []"
    | (pop) e where "sp_Cmd resp = CmdSPop" "sp_Changed resp = 0" "\<not> sp_IsMember resp" "sp_Card resp = 0"
        "sp_Elems resp = [e]" "e \<noteq> []" "length e < 65533"
    | (elems) "set_list_cmd (sp_Cmd resp)" "sp_Changed resp = 0" "\<not> sp_IsMember resp" "sp_Card resp = 0"
        "length (sp_Elems resp) < 256 ^ 4" "\<forall>e\<in>set (sp_Elems resp). length e < 256 ^ 2"
    using assms unfolding set_response_ok_def Let_def by (auto split: list.splits)
  then show ?thesis
  proof cases
    case count
    then show ?thesis using ok unbe_be_small [OF count(2)] sl_tail [of 8 "sp_Status resp", simplified]
      by (cases resp) (auto simp: EncodeSetResponse_def DecodeSetResponse_def)
  next
    case member
    then show ?thesis using ok by (cases resp) (simp add: EncodeSetResponse_def DecodeSetResponse_def set_cmd_defs)
  next
    case card
    then show ?thesis using ok unbe_be_small [OF card(4)] sl_tail [of 8 "sp_Status resp", simplified]
      by (cases resp) (simp add: EncodeSetResponse_def DecodeSetResponse_def set_cmd_defs)
  next
    case none
    then show ?thesis using ok unbe_be_small [of 0 2] sl_tail [of 2 "sp_Status resp", simplified]
      by (cases resp) (simp add: EncodeSetResponse_def DecodeSetResponse_def set_cmd_defs str_bytes_def)
  next
    case (pop e)
    note h = set_payload3 [OF pop(7), where c = "sp_Status resp"]
    show ?thesis using ok pop h
      by (cases resp) (simp add: EncodeSetResponse_def DecodeSetResponse_def set_cmd_defs Let_def)
  next
    case elems
    have s: "scan_strs 2 (length (sp_Elems resp)) (enc_strs 2 (sp_Elems resp)) = sp_Elems resp"
      using scan_enc_strs [OF elems(6), of "[]"] by simp
    have nc: "sp_Cmd resp \<notin> {CmdSAdd, CmdSRem, CmdSIsMember, CmdSCard, CmdSPop}"
      using elems(1) by (auto simp: set_list_cmd_def set_cmd_defs)
    show ?thesis using ok elems(1-4) s nc unbe_be_small [OF elems(5)]
      by (cases resp) (simp add: EncodeSetResponse_def DecodeSetResponse_def sl_def drop_Cons')
  qed
qed

text \<open>A successful set response survives the wire (a popped element must not be empty: the decoder cannot
  tell an empty one from none).\<close>

theorem set_response_roundtrip:
  assumes "set_response_ok resp"
  shows "\<exists>p. EncodeSetResponse resp = Some p \<and> DecodeSetResponse spare p (sp_Cmd resp) = Ret (Inr resp)"
  by (rule set_response_wire [OF assms])

theorem set_response_roundtrip_witness:
  "\<exists>p. EncodeSetResponse \<lparr>sp_Cmd = CmdSPop, sp_Status = StatusOK, sp_Changed = 0, sp_IsMember = False, sp_Card = 0, sp_Elems = [''a''], sp_ErrMsg = []\<rparr> = Some p
     \<and> DecodeSetResponse [] p CmdSPop = Ret (Inr \<lparr>sp_Cmd = CmdSPop, sp_Status = StatusOK, sp_Changed = 0, sp_IsMember = False, sp_Card = 0, sp_Elems = [''a''], sp_ErrMsg = []\<rparr>)"
  using set_response_roundtrip [of "\<lparr>sp_Cmd = CmdSPop, sp_Status = StatusOK, sp_Changed = 0, sp_IsMember = False, sp_Card = 0, sp_Elems = [''a''], sp_ErrMsg = []\<rparr>" "[]"]
  by (simp add: set_response_ok_def status_defs)

text \<open>An error response to a set command loses its message: the encoder writes the layout of the command,
  without \<^verbatim>\<open>ErrMsg\<close>, and the decoder takes that layout's bytes for the message.  For \<^verbatim>\<open>SADD\<close> the client reads
  the eight bytes of the count, whatever the message was.\<close>

theorem set_error_message_lost:
  "\<exists>p. EncodeSetResponse \<lparr>sp_Cmd = CmdSAdd, sp_Status = StatusErr, sp_Changed = n, sp_IsMember = m, sp_Card = c, sp_Elems = es, sp_ErrMsg = msg\<rparr> = Some p
     \<and> DecodeSetResponse spare p CmdSAdd = Ret (Inr \<lparr>sp_Cmd = CmdSAdd, sp_Status = StatusErr, sp_Changed = 0, sp_IsMember = False, sp_Card = 0,
          sp_Elems = [], sp_ErrMsg = bytes_str (be 8 n)\<rparr>)"
  by (simp add: EncodeSetResponse_def DecodeSetResponse_def)

end
