(* ===== verification/Proto_Hash.thy ===== *)
theory Proto_Hash
  imports Protocol
begin

text \<open>
  The hash part of \<^verbatim>\<open>net/protocol_ext.go\<close>: command codes, requests and responses.  All offsets are computed in
  \<^verbatim>\<open>int\<close> and checked before use, so the decoders return a value or an error on every payload.  A
  \<^verbatim>\<open>float64\<close> is its IEEE bit pattern, which is all that \<^verbatim>\<open>math.Float64bits\<close> and \<^verbatim>\<open>math.Float64frombits\<close> move.
\<close>

section \<open>Commands\<close>

definition KeyTypeNone :: byte where "KeyTypeNone = 0"
definition KeyTypeString :: byte where "KeyTypeString = 1"
definition KeyTypeSet :: byte where "KeyTypeSet = 2"
definition KeyTypeHash :: byte where "KeyTypeHash = 3"
definition KeyTypeList :: byte where "KeyTypeList = 4"

definition CmdHSet :: byte where "CmdHSet = 32"
definition CmdHGet :: byte where "CmdHGet = 33"
definition CmdHDel :: byte where "CmdHDel = 34"
definition CmdHExists :: byte where "CmdHExists = 35"
definition CmdHGetAll :: byte where "CmdHGetAll = 36"
definition CmdHKeys :: byte where "CmdHKeys = 37"
definition CmdHVals :: byte where "CmdHVals = 38"
definition CmdHLen :: byte where "CmdHLen = 39"
definition CmdHStrLen :: byte where "CmdHStrLen = 40"
definition CmdHIncrBy :: byte where "CmdHIncrBy = 41"
definition CmdHIncrByFloat :: byte where "CmdHIncrByFloat = 42"
definition CmdHMGet :: byte where "CmdHMGet = 43"
definition CmdHMSet :: byte where "CmdHMSet = 44"
definition CmdHSetNX :: byte where "CmdHSetNX = 45"

lemmas hash_cmd_defs = CmdHSet_def CmdHGet_def CmdHDel_def CmdHExists_def CmdHGetAll_def CmdHKeys_def CmdHVals_def
  CmdHLen_def CmdHStrLen_def CmdHIncrBy_def CmdHIncrByFloat_def CmdHMGet_def CmdHMSet_def CmdHSetNX_def

definition IsHashCmd :: "byte \<Rightarrow> bool" where
  "IsHashCmd cmd \<longleftrightarrow> cmd \<ge> CmdHSet \<and> cmd \<le> CmdHSetNX"

section \<open>Hash requests\<close>

type_synonym float64 = "64 word"

record hash_request =
  hq_Cmd :: byte
  hq_Key :: gostring
  hq_Field :: gostring
  hq_Value :: gostring
  hq_Fields :: "gostring list"
  hq_FvPairs :: "gostring list"
  hq_DeltaI64 :: int
  hq_DeltaF64 :: float64

text \<open>\<^verbatim>\<open>for i := 0; i+1 < len(pairs); i += 2\<close>: a field without a value is left out.\<close>

fun enc_pairs :: "gostring list \<Rightarrow> bytes" where
  "enc_pairs (f # v # r) = enc_str 2 f @ enc_str 2 v @ enc_pairs r"
| "enc_pairs r = []"

definition EncodeHashRequest :: "hash_request \<Rightarrow> bytes option" where
  "EncodeHashRequest req =
     (let cmd = hq_Cmd req; k = hq_Key req; f = hq_Field req; v = hq_Value req in
      if cmd \<in> {CmdHGetAll, CmdHKeys, CmdHVals, CmdHLen} then
        Some ([cmd] @ be 2 (length k) @ str_bytes k)
      else if cmd \<in> {CmdHGet, CmdHExists, CmdHStrLen} then
        Some ([cmd] @ be 2 (length k) @ be 2 (length f) @ str_bytes k @ str_bytes f)
      else if cmd \<in> {CmdHSet, CmdHSetNX} then
        Some ([cmd] @ be 2 (length k) @ be 2 (length f) @ be 4 (length v) @ str_bytes k @ str_bytes f @ str_bytes v)
      else if cmd \<in> {CmdHDel, CmdHMGet} then
        Some ([cmd] @ be 2 (length k) @ be 2 (length (hq_Fields req)) @ str_bytes k @ enc_strs 2 (hq_Fields req))
      else if cmd = CmdHIncrBy then
        Some ([cmd] @ be 2 (length k) @ be 2 (length f) @ be 8 (u64 (hq_DeltaI64 req)) @ str_bytes k @ str_bytes f)
      else if cmd = CmdHIncrByFloat then
        Some ([cmd] @ be 2 (length k) @ be 2 (length f) @ be 8 (unat (hq_DeltaF64 req)) @ str_bytes k @ str_bytes f)
      else if cmd = CmdHMSet then
        Some ([cmd] @ be 2 (length k) @ be 2 (length (hq_FvPairs req) div 2) @ str_bytes k @ enc_pairs (hq_FvPairs req))
      else None)"

definition DecodeHashRequest :: "bytes \<Rightarrow> hash_request decoded" where
  "DecodeHashRequest p =
     (if length p < 3 then Inl ErrTooShort
      else
        let cmd = p ! 0;
            req = \<lparr>hq_Cmd = cmd, hq_Key = [], hq_Field = [], hq_Value = [], hq_Fields = [], hq_FvPairs = [],
                    hq_DeltaI64 = 0, hq_DeltaF64 = 0\<rparr>;
            keyLen = unbe (sl 1 3 p)
        in
        if cmd \<in> {CmdHGetAll, CmdHKeys, CmdHVals, CmdHLen} then
          (if length p < 3 + keyLen then Inl ErrTruncated
           else Inr (req\<lparr>hq_Key := bytes_str (sl 3 (3 + keyLen) p)\<rparr>))
        else if cmd \<in> {CmdHGet, CmdHExists, CmdHStrLen} then
          (if length p < 5 then Inl ErrTooShort
           else let fieldLen = unbe (sl 3 5 p) in
             if length p < 5 + keyLen + fieldLen then Inl ErrTruncated
             else Inr (req\<lparr>hq_Key := bytes_str (sl 5 (5 + keyLen) p),
                           hq_Field := bytes_str (sl (5 + keyLen) (5 + keyLen + fieldLen) p)\<rparr>))
        else if cmd \<in> {CmdHSet, CmdHSetNX} then
          (if length p < 9 then Inl ErrTooShort
           else let fieldLen = unbe (sl 3 5 p); valueLen = unbe (sl 5 9 p) in
             if length p < 9 + keyLen + fieldLen + valueLen then Inl ErrTruncated
             else Inr (req\<lparr>hq_Key := bytes_str (sl 9 (9 + keyLen) p),
                           hq_Field := bytes_str (sl (9 + keyLen) (9 + keyLen + fieldLen) p),
                           hq_Value := bytes_str (sl (9 + keyLen + fieldLen) (9 + keyLen + fieldLen + valueLen) p)\<rparr>))
        else if cmd \<in> {CmdHDel, CmdHMGet} then
          (if length p < 5 then Inl ErrTooShort
           else let numFields = unbe (sl 3 5 p) in
             if 5 + keyLen > length p then Inl ErrTruncated
             else case read_strs 2 numFields (drop (5 + keyLen) p) of
                    Inl err \<Rightarrow> Inl err
                  | Inr fs \<Rightarrow> Inr (req\<lparr>hq_Key := bytes_str (sl 5 (5 + keyLen) p), hq_Fields := fs\<rparr>))
        else if cmd = CmdHIncrBy then
          (if length p < 13 then Inl ErrTooShort
           else let fieldLen = unbe (sl 3 5 p); req = req\<lparr>hq_DeltaI64 := s64 (unbe (sl 5 13 p))\<rparr> in
             if length p < 13 + keyLen + fieldLen then Inl ErrTruncated
             else Inr (req\<lparr>hq_Key := bytes_str (sl 13 (13 + keyLen) p),
                           hq_Field := bytes_str (sl (13 + keyLen) (13 + keyLen + fieldLen) p)\<rparr>))
        else if cmd = CmdHIncrByFloat then
          (if length p < 13 then Inl ErrTooShort
           else let fieldLen = unbe (sl 3 5 p); req = req\<lparr>hq_DeltaF64 := of_nat (unbe (sl 5 13 p))\<rparr> in
             if length p < 13 + keyLen + fieldLen then Inl ErrTruncated
             else Inr (req\<lparr>hq_Key := bytes_str (sl 13 (13 + keyLen) p),
                           hq_Field := bytes_str (sl (13 + keyLen) (13 + keyLen + fieldLen) p)\<rparr>))
        else if cmd = CmdHMSet then
          (if length p < 5 then Inl ErrTooShort
           else let numPairs = unbe (sl 3 5 p) in
             if 5 + keyLen > length p then Inl ErrTruncated
             else case read_strs 2 (numPairs * 2) (drop (5 + keyLen) p) of
                    Inl err \<Rightarrow> Inl err
                  | Inr fvs \<Rightarrow> Inr (req\<lparr>hq_Key := bytes_str (sl 5 (5 + keyLen) p), hq_FvPairs := fvs\<rparr>))
        else Inl ErrInvalidCommand)"

section \<open>Hash responses\<close>

record hash_response =
  hp_Cmd :: byte
  hp_Status :: byte
  hp_IntResult :: int
  hp_BoolResult :: bool
  hp_StrResult :: gostring
  hp_MapResult :: "(gostring, gostring) gomap"
  hp_SliceResult :: "gostring list"
  hp_AnySlice :: "gostring option list"
  hp_FloatResult :: float64
  hp_ErrMsg :: gostring

definition enc_any :: "gostring option \<Rightarrow> bytes" where
  "enc_any v = (case v of Some s \<Rightarrow> [1] @ enc_str 4 s | None \<Rightarrow> [0])"

definition enc_entry :: "(gostring, gostring) gomap \<Rightarrow> gostring \<Rightarrow> bytes" where
  "enc_entry m k = enc_str 2 k @ enc_str 4 (the_default [] (map_of m k))"

definition EncodeHashResponse :: "(gostring list \<Rightarrow> gostring list) \<Rightarrow> hash_response \<Rightarrow> bytes option" where
  "EncodeHashResponse ord resp =
     (if hp_Status resp = StatusErr then Some ([StatusErr] @ be 2 (length (hp_ErrMsg resp)) @ str_bytes (hp_ErrMsg resp))
      else let cmd = hp_Cmd resp; st = [hp_Status resp] in
      if cmd \<in> {CmdHSet, CmdHDel, CmdHLen, CmdHStrLen, CmdHIncrBy} then Some (st @ be 8 (u64 (hp_IntResult resp)))
      else if cmd \<in> {CmdHExists, CmdHSetNX} then Some (st @ [if hp_BoolResult resp then 1 else 0])
      else if cmd = CmdHGet then Some (st @ be 4 (length (hp_StrResult resp)) @ str_bytes (hp_StrResult resp))
      else if cmd = CmdHGetAll then
        Some (st @ be 4 (length (hp_MapResult resp))
              @ concat (map (enc_entry (hp_MapResult resp)) (ord (gm_keys (hp_MapResult resp)))))
      else if cmd \<in> {CmdHKeys, CmdHVals} then
        Some (st @ be 4 (length (hp_SliceResult resp)) @ enc_strs 2 (hp_SliceResult resp))
      else if cmd = CmdHIncrByFloat then Some (st @ be 8 (unat (hp_FloatResult resp)))
      else if cmd = CmdHMGet then
        Some (st @ be 4 (length (hp_AnySlice resp)) @ concat (map enc_any (hp_AnySlice resp)))
      else if cmd = CmdHMSet then Some st
      else None)"

text \<open>The lenient loops: they stop at the first element that is cut off.\<close>

primrec scan_entries :: "nat \<Rightarrow> bytes \<Rightarrow> (gostring, gostring) gomap \<Rightarrow> (gostring, gostring) gomap" where
  "scan_entries 0 rest m = m"
| "scan_entries (Suc n) rest m =
     (if length rest < 2 then m
      else let kl = unbe (take 2 rest); rest = drop 2 rest in
      if length rest < kl then m
      else let k = bytes_str (take kl rest); rest = drop kl rest in
      if length rest < 4 then m
      else let vl = unbe (take 4 rest); rest = drop 4 rest in
      if length rest < vl then m
      else scan_entries n (drop vl rest) (AList.update k (bytes_str (take vl rest)) m))"

primrec scan_any :: "nat \<Rightarrow> bytes \<Rightarrow> gostring option list" where
  "scan_any 0 rest = []"
| "scan_any (Suc n) rest =
     (case rest of
        [] \<Rightarrow> replicate (Suc n) None
      | hasValue # rest \<Rightarrow>
          if hasValue = 0 then None # scan_any n rest
          else if length rest < 4 then replicate (Suc n) None
          else let vl = unbe (take 4 rest); rest = drop 4 rest in
          if length rest < vl then replicate (Suc n) None
          else Some (bytes_str (take vl rest)) # scan_any n (drop vl rest))"

definition DecodeHashResponse :: "bytes \<Rightarrow> byte \<Rightarrow> hash_response decoded" where
  "DecodeHashResponse p cmd =
     (if length p < 1 then Inl ErrTooShort
      else
        let resp = \<lparr>hp_Cmd = cmd, hp_Status = p ! 0, hp_IntResult = 0, hp_BoolResult = False, hp_StrResult = [],
                     hp_MapResult = [], hp_SliceResult = [], hp_AnySlice = [], hp_FloatResult = 0, hp_ErrMsg = []\<rparr>
        in
        if hp_Status resp = StatusErr then
          (let errLen = unbe (sl 1 3 p)
           in Inr (if length p \<ge> 3 \<and> length p \<ge> 3 + errLen then resp\<lparr>hp_ErrMsg := bytes_str (sl 3 (3 + errLen) p)\<rparr> else resp))
        else if cmd \<in> {CmdHSet, CmdHDel, CmdHLen, CmdHStrLen, CmdHIncrBy} then
          (if length p < 9 then Inl ErrTooShort else Inr (resp\<lparr>hp_IntResult := s64 (unbe (sl 1 9 p))\<rparr>))
        else if cmd \<in> {CmdHExists, CmdHSetNX} then
          (if length p < 2 then Inl ErrTooShort else Inr (resp\<lparr>hp_BoolResult := p ! 1 \<noteq> 0\<rparr>))
        else if cmd = CmdHGet then
          (if length p < 5 then Inl ErrTooShort
           else let vl = unbe (sl 1 5 p)
             in Inr (if vl > 0 \<and> length p \<ge> 5 + vl then resp\<lparr>hp_StrResult := bytes_str (sl 5 (5 + vl) p)\<rparr> else resp))
        else if cmd = CmdHGetAll then
          (if length p < 5 then Inl ErrTooShort
           else Inr (resp\<lparr>hp_MapResult := scan_entries (unbe (sl 1 5 p)) (drop 5 p) []\<rparr>))
        else if cmd \<in> {CmdHKeys, CmdHVals} then
          (if length p < 5 then Inl ErrTooShort
           else Inr (resp\<lparr>hp_SliceResult := scan_strs 2 (unbe (sl 1 5 p)) (drop 5 p)\<rparr>))
        else if cmd = CmdHIncrByFloat then
          (if length p < 9 then Inl ErrTooShort else Inr (resp\<lparr>hp_FloatResult := of_nat (unbe (sl 1 9 p))\<rparr>))
        else if cmd = CmdHMGet then
          (if length p < 5 then Inl ErrTooShort
           else Inr (resp\<lparr>hp_AnySlice := scan_any (unbe (sl 1 5 p)) (drop 5 p)\<rparr>))
        else Inr resp)"

section \<open>Hash requests: round trip\<close>

definition hash_request_ok :: "hash_request \<Rightarrow> bool" where
  "hash_request_ok req \<longleftrightarrow>
     (let cmd = hq_Cmd req;
          no_field = (hq_Field req = []); no_value = (hq_Value req = []); no_fields = (hq_Fields req = []);
          no_pairs = (hq_FvPairs req = []); no_int = (hq_DeltaI64 req = 0); no_float = (hq_DeltaF64 req = 0)
      in length (hq_Key req) < 256 ^ 2 \<and> length (hq_Field req) < 256 ^ 2 \<and>
      ((cmd \<in> {CmdHGetAll, CmdHKeys, CmdHVals, CmdHLen}
         \<and> no_field \<and> no_value \<and> no_fields \<and> no_pairs \<and> no_int \<and> no_float)
       \<or> (cmd \<in> {CmdHGet, CmdHExists, CmdHStrLen} \<and> no_value \<and> no_fields \<and> no_pairs \<and> no_int \<and> no_float)
       \<or> (cmd \<in> {CmdHSet, CmdHSetNX} \<and> length (hq_Value req) < 256 ^ 4 \<and> no_fields \<and> no_pairs \<and> no_int \<and> no_float)
       \<or> (cmd \<in> {CmdHDel, CmdHMGet} \<and> length (hq_Fields req) < 256 ^ 2 \<and> (\<forall>f\<in>set (hq_Fields req). length f < 256 ^ 2)
         \<and> no_field \<and> no_value \<and> no_pairs \<and> no_int \<and> no_float)
       \<or> (cmd = CmdHIncrBy \<and> in_i64 (hq_DeltaI64 req) \<and> no_value \<and> no_fields \<and> no_pairs \<and> no_float)
       \<or> (cmd = CmdHIncrByFloat \<and> no_value \<and> no_fields \<and> no_pairs \<and> no_int)
       \<or> (cmd = CmdHMSet \<and> even (length (hq_FvPairs req)) \<and> length (hq_FvPairs req) div 2 < 256 ^ 2
         \<and> (\<forall>x\<in>set (hq_FvPairs req). length x < 256 ^ 2)
         \<and> no_field \<and> no_value \<and> no_fields \<and> no_int \<and> no_float)))"

lemma enc_pairs_strs: "even (length fvs) \<Longrightarrow> enc_pairs fvs = enc_strs 2 fvs"
  by (induction fvs rule: enc_pairs.induct) (auto simp: enc_strs_def)

lemma float_bits: "of_nat (unbe (be 8 (unat d))) = (d :: float64)"
proof -
  have "unat d < 256 ^ 8" using unsigned_less [of d] by simp
  then show ?thesis by (simp add: unbe_be_small)
qed

text \<open>A payload is a header of known length and the strings behind it; these facts read it back.\<close>

lemma head_fields:
  assumes "kl < 256 ^ 2"
  shows "unbe (sl 1 3 (c # be 2 kl @ r)) = kl" "(c # be 2 kl @ r) ! 0 = c"
    and "fl < 256 ^ 2 \<Longrightarrow> unbe (sl 3 5 (c # be 2 kl @ be 2 fl @ r)) = fl"
    and "vl < 256 ^ 4 \<Longrightarrow> unbe (sl 5 9 (c # be 2 kl @ be 2 fl @ be 4 vl @ r)) = vl"
    and "sl 5 13 (c # be 2 kl @ be 2 fl @ be 8 d @ r) = be 8 d"
  using assms by (simp_all add: sl_def drop_Cons' unbe_be_small)

lemma str_at:
  "length h = a \<Longrightarrow> bytes_str (sl a (a + length k) (h @ str_bytes k)) = k"
  "length h = a \<Longrightarrow> bytes_str (sl a (a + length k) (h @ str_bytes k @ y)) = k"
  "length h = a \<Longrightarrow> bytes_str (sl (a + length k) (a + length k + length f) (h @ str_bytes k @ str_bytes f)) = f"
  "length h = a \<Longrightarrow> bytes_str (sl (a + length k) (a + length k + length f) (h @ str_bytes k @ str_bytes f @ z)) = f"
  "length h = a \<Longrightarrow> bytes_str (sl (a + length k + length f) (a + length k + length f + length v) (h @ str_bytes k @ str_bytes f @ str_bytes v)) = v"
  "length h = a \<Longrightarrow> drop (a + length k) (h @ str_bytes k @ y) = y"
  by (simp_all add: sl_def)

lemma hash_roundtrip_key:
  assumes "hq_Cmd req \<in> {CmdHGetAll, CmdHKeys, CmdHVals, CmdHLen}" "length (hq_Key req) < 256 ^ 2" "hq_Field req = []"
    "hq_Value req = []" "hq_Fields req = []" "hq_FvPairs req = []" "hq_DeltaI64 req = 0" "hq_DeltaF64 req = 0"
  shows "\<exists>p. EncodeHashRequest req = Some p \<and> DecodeHashRequest p = Inr req"
proof -
  let ?k = "hq_Key req"
  define h where "h = hq_Cmd req # be 2 (length ?k)"
  have p: "EncodeHashRequest req = Some (h @ str_bytes ?k)" using assms(1) by (auto simp: EncodeHashRequest_def Let_def h_def)
  have "length h = 3" "unbe (sl 1 3 (h @ str_bytes ?k)) = length ?k" "(h @ str_bytes ?k) ! 0 = hq_Cmd req"
    using head_fields [OF assms(2)] by (simp_all add: h_def)
  moreover from this have "bytes_str (sl 3 (3 + length ?k) (h @ str_bytes ?k)) = ?k" using str_at(1) by blast
  ultimately have "DecodeHashRequest (h @ str_bytes ?k) = Inr req"
    using assms by (cases req) (auto simp: DecodeHashRequest_def Let_def)
  with p show ?thesis by blast
qed

lemma hash_roundtrip_field:
  assumes "hq_Cmd req \<in> {CmdHGet, CmdHExists, CmdHStrLen}" "length (hq_Key req) < 256 ^ 2" "length (hq_Field req) < 256 ^ 2"
    "hq_Value req = []" "hq_Fields req = []" "hq_FvPairs req = []" "hq_DeltaI64 req = 0" "hq_DeltaF64 req = 0"
  shows "\<exists>p. EncodeHashRequest req = Some p \<and> DecodeHashRequest p = Inr req"
proof -
  let ?k = "hq_Key req" and ?f = "hq_Field req"
  define h where "h = hq_Cmd req # be 2 (length ?k) @ be 2 (length ?f)"
  define p where "p = h @ str_bytes ?k @ str_bytes ?f"
  have e: "EncodeHashRequest req = Some p" using assms(1) by (auto simp: EncodeHashRequest_def Let_def h_def p_def hash_cmd_defs)
  have h: "length h = 5" by (simp add: h_def)
  have "unbe (sl 1 3 p) = length ?k" "p ! 0 = hq_Cmd req" "unbe (sl 3 5 p) = length ?f" "length p = 5 + length ?k + length ?f"
    using head_fields [OF assms(2)] assms(3) by (simp_all add: h_def p_def)
  moreover have "bytes_str (sl 5 (5 + length ?k) p) = ?k" "bytes_str (sl (5 + length ?k) (5 + length ?k + length ?f) p) = ?f"
    using str_at(2,3) [OF h] by (simp_all add: p_def)
  moreover have "hq_Cmd req \<notin> {CmdHGetAll, CmdHKeys, CmdHVals, CmdHLen}" using assms(1) by (auto simp: hash_cmd_defs)
  ultimately have "DecodeHashRequest p = Inr req"
    using assms by (cases req) (simp add: DecodeHashRequest_def Let_def)
  with e show ?thesis by blast
qed

lemma hash_roundtrip_set:
  assumes "hq_Cmd req \<in> {CmdHSet, CmdHSetNX}" "length (hq_Key req) < 256 ^ 2" "length (hq_Field req) < 256 ^ 2"
    "length (hq_Value req) < 256 ^ 4" "hq_Fields req = []" "hq_FvPairs req = []" "hq_DeltaI64 req = 0" "hq_DeltaF64 req = 0"
  shows "\<exists>p. EncodeHashRequest req = Some p \<and> DecodeHashRequest p = Inr req"
proof -
  let ?k = "hq_Key req" and ?f = "hq_Field req" and ?v = "hq_Value req"
  define h where "h = hq_Cmd req # be 2 (length ?k) @ be 2 (length ?f) @ be 4 (length ?v)"
  define p where "p = h @ str_bytes ?k @ str_bytes ?f @ str_bytes ?v"
  have e: "EncodeHashRequest req = Some p" using assms(1) by (auto simp: EncodeHashRequest_def Let_def h_def p_def hash_cmd_defs)
  have h: "length h = 9" by (simp add: h_def)
  have "unbe (sl 1 3 p) = length ?k" "p ! 0 = hq_Cmd req" "unbe (sl 3 5 p) = length ?f" "unbe (sl 5 9 p) = length ?v"
    "length p = 9 + length ?k + length ?f + length ?v"
    using head_fields [OF assms(2)] assms(3,4) by (simp_all add: h_def p_def)
  moreover have "bytes_str (sl 9 (9 + length ?k) p) = ?k" "bytes_str (sl (9 + length ?k) (9 + length ?k + length ?f) p) = ?f"
    "bytes_str (sl (9 + length ?k + length ?f) (9 + length ?k + length ?f + length ?v) p) = ?v"
    using str_at(2,4,5) [OF h] by (simp_all add: p_def)
  moreover have "hq_Cmd req \<notin> {CmdHGetAll, CmdHKeys, CmdHVals, CmdHLen}" "hq_Cmd req \<notin> {CmdHGet, CmdHExists, CmdHStrLen}"
    using assms(1) by (auto simp: hash_cmd_defs)
  ultimately have "DecodeHashRequest p = Inr req"
    using assms by (cases req) (simp add: DecodeHashRequest_def Let_def)
  with e show ?thesis by blast
qed

text \<open>The three remaining layouts, by what follows the five-byte header: counted strings or a 64-bit number.\<close>

lemma hash_payload5:
  fixes c :: byte and rest :: bytes
  assumes "length k < 256 ^ 2" "n < 256 ^ 2"
  defines "p \<equiv> c # be 2 (length k) @ be 2 n @ str_bytes k @ rest"
  shows "unbe (sl 1 3 p) = length k" "p ! 0 = c" "unbe (sl 3 5 p) = n" "5 + length k \<le> length p"
    "bytes_str (sl 5 (5 + length k) p) = k" "drop (5 + length k) p = rest"
proof -
  have h: "length (c # be 2 (length k) @ be 2 n) = 5" by simp
  show "unbe (sl 1 3 p) = length k" "p ! 0 = c" "unbe (sl 3 5 p) = n" "5 + length k \<le> length p"
    using head_fields [OF assms(1)] assms(2) by (simp_all add: p_def)
  show "bytes_str (sl 5 (5 + length k) p) = k" "drop (5 + length k) p = rest"
    using str_at(2,6) [OF h, of k rest] by (simp_all add: p_def)
qed

lemma hash_payload13:
  fixes c :: byte and d :: nat
  assumes "length k < 256 ^ 2" "length f < 256 ^ 2"
  defines "p \<equiv> c # be 2 (length k) @ be 2 (length f) @ be 8 d @ str_bytes k @ str_bytes f"
  shows "unbe (sl 1 3 p) = length k" "p ! 0 = c" "unbe (sl 3 5 p) = length f" "sl 5 13 p = be 8 d" "length p = 13 + length k + length f"
    "bytes_str (sl 13 (13 + length k) p) = k" "bytes_str (sl (13 + length k) (13 + length k + length f) p) = f"
proof -
  have h: "length (c # be 2 (length k) @ be 2 (length f) @ be 8 d) = 13" by simp
  show "unbe (sl 1 3 p) = length k" "p ! 0 = c" "unbe (sl 3 5 p) = length f" "sl 5 13 p = be 8 d" "length p = 13 + length k + length f"
    using head_fields [OF assms(1)] assms(2) by (simp_all add: p_def)
  show "bytes_str (sl 13 (13 + length k) p) = k" "bytes_str (sl (13 + length k) (13 + length k + length f) p) = f"
    using str_at(2,3) [OF h, of k] by (simp_all add: p_def)
qed

lemma hash_roundtrip_fields:
  assumes "hq_Cmd req \<in> {CmdHDel, CmdHMGet}" "length (hq_Key req) < 256 ^ 2" "length (hq_Fields req) < 256 ^ 2"
    "\<forall>f\<in>set (hq_Fields req). length f < 256 ^ 2"
    "hq_Field req = []" "hq_Value req = []" "hq_FvPairs req = []" "hq_DeltaI64 req = 0" "hq_DeltaF64 req = 0"
  shows "\<exists>p. EncodeHashRequest req = Some p \<and> DecodeHashRequest p = Inr req"
proof -
  define p where "p = hq_Cmd req # be 2 (length (hq_Key req)) @ be 2 (length (hq_Fields req)) @ str_bytes (hq_Key req) @ enc_strs 2 (hq_Fields req)"
  have e: "EncodeHashRequest req = Some p" using assms(1) by (auto simp: EncodeHashRequest_def Let_def p_def hash_cmd_defs)
  note h = hash_payload5 [OF assms(2,3), where c = "hq_Cmd req" and rest = "enc_strs 2 (hq_Fields req)", folded p_def]
  have r: "read_strs 2 (length (hq_Fields req)) (enc_strs 2 (hq_Fields req)) = Inr (hq_Fields req)"
    using read_enc_strs [OF assms(4), of "[]"] by simp
  have nc: "hq_Cmd req \<notin> {CmdHGetAll, CmdHKeys, CmdHVals, CmdHLen}" "hq_Cmd req \<notin> {CmdHGet, CmdHExists, CmdHStrLen}"
    "hq_Cmd req \<notin> {CmdHSet, CmdHSetNX}" using assms(1) by (auto simp: hash_cmd_defs)
  have "DecodeHashRequest p = Inr req"
    using assms(1,5-) h r nc by (cases req) (simp add: DecodeHashRequest_def Let_def)
  with e show ?thesis by blast
qed

lemma hash_roundtrip_pairs:
  assumes "hq_Cmd req = CmdHMSet" "length (hq_Key req) < 256 ^ 2" "even (length (hq_FvPairs req))" "length (hq_FvPairs req) div 2 < 256 ^ 2"
    "\<forall>f\<in>set (hq_FvPairs req). length f < 256 ^ 2"
    "hq_Field req = []" "hq_Value req = []" "hq_Fields req = []" "hq_DeltaI64 req = 0" "hq_DeltaF64 req = 0"
  shows "\<exists>p. EncodeHashRequest req = Some p \<and> DecodeHashRequest p = Inr req"
proof -
  define p where "p = CmdHMSet # be 2 (length (hq_Key req)) @ be 2 (length (hq_FvPairs req) div 2) @ str_bytes (hq_Key req) @ enc_strs 2 (hq_FvPairs req)"
  have e: "EncodeHashRequest req = Some p"
    using assms(1) enc_pairs_strs [OF assms(3)] by (simp add: EncodeHashRequest_def Let_def p_def hash_cmd_defs)
  note h = hash_payload5 [OF assms(2,4), where c = CmdHMSet and rest = "enc_strs 2 (hq_FvPairs req)", folded p_def]
  have r: "read_strs 2 (length (hq_FvPairs req) div 2 * 2) (enc_strs 2 (hq_FvPairs req)) = Inr (hq_FvPairs req)"
    using read_enc_strs [OF assms(5), of "[]"] assms(3) by simp
  have "DecodeHashRequest p = Inr req"
    using assms(1,6-) h r by (cases req) (simp add: DecodeHashRequest_def Let_def hash_cmd_defs)
  with e show ?thesis by blast
qed

lemma hash_roundtrip_incr:
  assumes "length (hq_Key req) < 256 ^ 2" "length (hq_Field req) < 256 ^ 2" "hq_Value req = []" "hq_Fields req = []" "hq_FvPairs req = []"
    and "(hq_Cmd req = CmdHIncrBy \<and> in_i64 (hq_DeltaI64 req) \<and> hq_DeltaF64 req = 0) \<or> (hq_Cmd req = CmdHIncrByFloat \<and> hq_DeltaI64 req = 0)"
  shows "\<exists>p. EncodeHashRequest req = Some p \<and> DecodeHashRequest p = Inr req"
proof -
  let ?k = "hq_Key req" and ?f = "hq_Field req"
  define d where "d = (if hq_Cmd req = CmdHIncrBy then u64 (hq_DeltaI64 req) else unat (hq_DeltaF64 req))"
  define p where "p = hq_Cmd req # be 2 (length ?k) @ be 2 (length ?f) @ be 8 d @ str_bytes ?k @ str_bytes ?f"
  have e: "EncodeHashRequest req = Some p" using assms(6) by (auto simp: EncodeHashRequest_def Let_def p_def d_def hash_cmd_defs)
  note h = hash_payload13 [OF assms(1,2), where c = "hq_Cmd req" and d = d, folded p_def]
  have "DecodeHashRequest p = Inr req"
  proof (cases "hq_Cmd req = CmdHIncrBy")
    case True
    then have "s64 (unbe (be 8 d)) = hq_DeltaI64 req" "hq_DeltaF64 req = 0"
      using assms(6) unbe_be_small [OF u64_less [of "hq_DeltaI64 req"]] s64_u64 [of "hq_DeltaI64 req"] by (auto simp: d_def hash_cmd_defs)
    then show ?thesis using True assms(3-5) h by (cases req) (simp add: DecodeHashRequest_def Let_def hash_cmd_defs)
  next
    case False
    then have c: "hq_Cmd req = CmdHIncrByFloat" "hq_DeltaI64 req = 0" using assms(6) by auto
    have "of_nat (unbe (be 8 d)) = hq_DeltaF64 req" using False float_bits by (simp add: d_def)
    then show ?thesis using c assms(3-5) h by (cases req) (simp add: DecodeHashRequest_def Let_def hash_cmd_defs)
  qed
  with e show ?thesis by blast
qed

lemma hash_request_wire:
  assumes "hash_request_ok req"
  shows "\<exists>p. EncodeHashRequest req = Some p \<and> DecodeHashRequest p = Inr req"
  using assms unfolding hash_request_ok_def Let_def
  apply (elim conjE disjE)
  subgoal by (rule hash_roundtrip_key)
  subgoal by (rule hash_roundtrip_field)
  subgoal by (rule hash_roundtrip_set)
  subgoal by (rule hash_roundtrip_fields)
  subgoal by (rule hash_roundtrip_incr) simp_all
  subgoal by (rule hash_roundtrip_incr) simp_all
  subgoal by (rule hash_roundtrip_pairs)
  done

text \<open>Every hash request survives the wire: all fourteen commands, in their seven payload layouts.\<close>

theorem hash_request_roundtrip:
  assumes "hash_request_ok req"
  shows "\<exists>p. EncodeHashRequest req = Some p \<and> DecodeHashRequest p = Inr req"
  by (rule hash_request_wire [OF assms])

theorem hash_request_roundtrip_witness:
  "\<exists>p. EncodeHashRequest \<lparr>hq_Cmd = CmdHMSet, hq_Key = ''h'', hq_Field = [], hq_Value = [], hq_Fields = [], hq_FvPairs = [''f'', ''v''],
          hq_DeltaI64 = 0, hq_DeltaF64 = 0\<rparr> = Some p
     \<and> DecodeHashRequest p = Inr \<lparr>hq_Cmd = CmdHMSet, hq_Key = ''h'', hq_Field = [], hq_Value = [], hq_Fields = [], hq_FvPairs = [''f'', ''v''],
          hq_DeltaI64 = 0, hq_DeltaF64 = 0\<rparr>"
  by (rule hash_request_roundtrip) (simp add: hash_request_ok_def hash_cmd_defs)

section \<open>Hash responses: round trip\<close>

lemma scan_any_enc:
  assumes "\<forall>v\<in>set vs. case v of Some s \<Rightarrow> length s < 256 ^ 4 | None \<Rightarrow> True"
  shows "scan_any (length vs) (concat (map enc_any vs)) = vs"
  using assms by (induction vs) (auto simp: enc_any_def enc_str_def unbe_be_small Let_def split: option.splits)

lemma scan_entries_enc:
  assumes "\<forall>k\<in>set ks. length k < 256 ^ 2 \<and> length (the_default [] (map_of m k)) < 256 ^ 4"
  shows "scan_entries (length ks) (concat (map (enc_entry m) ks)) acc = fold (\<lambda>k. AList.update k (the_default [] (map_of m k))) ks acc"
  using assms by (induction ks arbitrary: acc) (auto simp: enc_entry_def enc_str_def unbe_be_small Let_def)

lemma fold_update_map:
  "map_of (fold (\<lambda>k. AList.update k (g k)) ks acc) k = (if k \<in> set ks then Some (g k) else map_of acc k)"
  by (induction ks arbitrary: acc) (auto simp: update_conv')

definition hash_response_ok :: "hash_response \<Rightarrow> bool" where
  "hash_response_ok resp \<longleftrightarrow>
     (let cmd = hp_Cmd resp;
          no_int = (hp_IntResult resp = 0); no_bool = (\<not> hp_BoolResult resp); no_str = (hp_StrResult resp = []);
          no_map = (hp_MapResult resp = []); no_slice = (hp_SliceResult resp = []); no_any = (hp_AnySlice resp = []);
          no_float = (hp_FloatResult resp = 0)
      in if hp_Status resp = StatusErr
         then length (hp_ErrMsg resp) < 256 ^ 2 \<and> no_int \<and> no_bool \<and> no_str \<and> no_map \<and> no_slice \<and> no_any \<and> no_float
         else hp_ErrMsg resp = [] \<and>
          ((cmd \<in> {CmdHSet, CmdHDel, CmdHLen, CmdHStrLen, CmdHIncrBy} \<and> in_i64 (hp_IntResult resp)
             \<and> no_bool \<and> no_str \<and> no_map \<and> no_slice \<and> no_any \<and> no_float)
           \<or> (cmd \<in> {CmdHExists, CmdHSetNX} \<and> no_int \<and> no_str \<and> no_map \<and> no_slice \<and> no_any \<and> no_float)
           \<or> (cmd = CmdHGet \<and> length (hp_StrResult resp) < 256 ^ 4 \<and> no_int \<and> no_bool \<and> no_map \<and> no_slice \<and> no_any \<and> no_float)
           \<or> (cmd = CmdHGetAll \<and> gm_wf (hp_MapResult resp) \<and> length (hp_MapResult resp) < 256 ^ 4
             \<and> (\<forall>(k, v)\<in>set (hp_MapResult resp). length k < 256 ^ 2 \<and> length v < 256 ^ 4)
             \<and> no_int \<and> no_bool \<and> no_str \<and> no_slice \<and> no_any \<and> no_float)
           \<or> (cmd \<in> {CmdHKeys, CmdHVals} \<and> length (hp_SliceResult resp) < 256 ^ 4 \<and> (\<forall>e\<in>set (hp_SliceResult resp). length e < 256 ^ 2)
             \<and> no_int \<and> no_bool \<and> no_str \<and> no_map \<and> no_any \<and> no_float)
           \<or> (cmd = CmdHIncrByFloat \<and> no_int \<and> no_bool \<and> no_str \<and> no_map \<and> no_slice \<and> no_any)
           \<or> (cmd = CmdHMGet \<and> length (hp_AnySlice resp) < 256 ^ 4
             \<and> (\<forall>v\<in>set (hp_AnySlice resp). case v of Some s \<Rightarrow> length s < 256 ^ 4 | None \<Rightarrow> True)
             \<and> no_int \<and> no_bool \<and> no_str \<and> no_map \<and> no_slice \<and> no_float)
           \<or> (cmd = CmdHMSet \<and> no_int \<and> no_bool \<and> no_str \<and> no_map \<and> no_slice \<and> no_any \<and> no_float)))"

text \<open>What the client sees of a response: the map as a function, everything else as it is.\<close>

definition same_response :: "hash_response \<Rightarrow> hash_response \<Rightarrow> bool" where
  "same_response r r' \<longleftrightarrow> r' = r\<lparr>hp_MapResult := hp_MapResult r'\<rparr> \<and> map_of (hp_MapResult r') = map_of (hp_MapResult r)"

lemma same_response_refl [simp]: "same_response r r"
  by (simp add: same_response_def)

lemma response_head:
  "n < 256 ^ 4 \<Longrightarrow> unbe (sl 1 5 (st # be 4 n @ r)) = n" "drop 5 (st # be 4 n @ r) = r"
  "sl 5 (5 + length s) (st # be 4 n @ str_bytes s) = str_bytes s"
  "sl 1 9 (st # be 8 m) = be 8 m"
  by (simp_all add: sl_def drop_Cons' unbe_be_small)

lemma hash_response_err:
  assumes "hp_Status resp = StatusErr" "length (hp_ErrMsg resp) < 256 ^ 2" "hp_IntResult resp = 0" "\<not> hp_BoolResult resp" "hp_StrResult resp = []"
    "hp_MapResult resp = []" "hp_SliceResult resp = []" "hp_AnySlice resp = []" "hp_FloatResult resp = 0"
  shows "\<exists>p. EncodeHashResponse ord resp = Some p \<and> DecodeHashResponse p (hp_Cmd resp) = Inr resp"
proof -
  let ?m = "hp_ErrMsg resp"
  define p where "p = StatusErr # be 2 (length ?m) @ str_bytes ?m"
  have e: "EncodeHashResponse ord resp = Some p" using assms(1) by (simp add: EncodeHashResponse_def p_def)
  have "unbe (sl 1 3 p) = length ?m" "bytes_str (sl 3 (3 + length ?m) p) = ?m" "p ! 0 = StatusErr" "length p = 3 + length ?m"
    using assms(2) by (simp_all add: p_def sl_def drop_Cons' unbe_be_small)
  then have "DecodeHashResponse p (hp_Cmd resp) = Inr resp" using assms by (cases resp) (simp add: DecodeHashResponse_def Let_def)
  with e show ?thesis by blast
qed

lemma hash_response_scalar:
  assumes "hp_Status resp \<noteq> StatusErr" "hp_ErrMsg resp = []" "hp_StrResult resp = []" "hp_MapResult resp = []" "hp_SliceResult resp = []" "hp_AnySlice resp = []"
    and "(hp_Cmd resp \<in> {CmdHSet, CmdHDel, CmdHLen, CmdHStrLen, CmdHIncrBy} \<and> in_i64 (hp_IntResult resp) \<and> \<not> hp_BoolResult resp \<and> hp_FloatResult resp = 0)
      \<or> (hp_Cmd resp \<in> {CmdHExists, CmdHSetNX} \<and> hp_IntResult resp = 0 \<and> hp_FloatResult resp = 0)
      \<or> (hp_Cmd resp = CmdHIncrByFloat \<and> hp_IntResult resp = 0 \<and> \<not> hp_BoolResult resp)
      \<or> (hp_Cmd resp = CmdHMSet \<and> hp_IntResult resp = 0 \<and> \<not> hp_BoolResult resp \<and> hp_FloatResult resp = 0)"
  shows "\<exists>p. EncodeHashResponse ord resp = Some p \<and> DecodeHashResponse p (hp_Cmd resp) = Inr resp"
  using assms(7)
proof (elim disjE)
  assume a: "hp_Cmd resp \<in> {CmdHSet, CmdHDel, CmdHLen, CmdHStrLen, CmdHIncrBy} \<and> in_i64 (hp_IntResult resp) \<and> \<not> hp_BoolResult resp \<and> hp_FloatResult resp = 0"
  have "s64 (unbe (be 8 (u64 (hp_IntResult resp)))) = hp_IntResult resp"
    using a unbe_be_small [OF u64_less] s64_u64 by auto
  then show ?thesis using a assms(1-6) response_head(4) [of "hp_Status resp" "u64 (hp_IntResult resp)"]
    by (cases resp) (simp add: EncodeHashResponse_def DecodeHashResponse_def Let_def)
next
  assume "hp_Cmd resp \<in> {CmdHExists, CmdHSetNX} \<and> hp_IntResult resp = 0 \<and> hp_FloatResult resp = 0"
  moreover from this have "hp_Cmd resp \<notin> {CmdHSet, CmdHDel, CmdHLen, CmdHStrLen, CmdHIncrBy}" by (auto simp: hash_cmd_defs)
  ultimately show ?thesis using assms(1-6) by (cases resp) (simp add: EncodeHashResponse_def DecodeHashResponse_def Let_def)
next
  assume "hp_Cmd resp = CmdHIncrByFloat \<and> hp_IntResult resp = 0 \<and> \<not> hp_BoolResult resp"
  then show ?thesis using assms(1-6) response_head(4) [of "hp_Status resp" "unat (hp_FloatResult resp)"] float_bits [of "hp_FloatResult resp"]
    by (cases resp) (simp add: EncodeHashResponse_def DecodeHashResponse_def Let_def hash_cmd_defs)
next
  assume "hp_Cmd resp = CmdHMSet \<and> hp_IntResult resp = 0 \<and> \<not> hp_BoolResult resp \<and> hp_FloatResult resp = 0"
  then show ?thesis using assms(1-6) by (cases resp) (simp add: EncodeHashResponse_def DecodeHashResponse_def Let_def hash_cmd_defs)
qed

lemma hash_response_get:
  assumes "hp_Status resp \<noteq> StatusErr" "hp_Cmd resp = CmdHGet" "length (hp_StrResult resp) < 256 ^ 4" "hp_ErrMsg resp = []" "hp_IntResult resp = 0"
    "\<not> hp_BoolResult resp" "hp_MapResult resp = []" "hp_SliceResult resp = []" "hp_AnySlice resp = []" "hp_FloatResult resp = 0"
  shows "\<exists>p. EncodeHashResponse ord resp = Some p \<and> DecodeHashResponse p (hp_Cmd resp) = Inr resp"
  using assms response_head(1) [OF assms(3), of "hp_Status resp" "str_bytes (hp_StrResult resp)"]
    response_head(3) [of "hp_StrResult resp" "hp_Status resp" "length (hp_StrResult resp)"]
  by (cases resp) (simp add: EncodeHashResponse_def DecodeHashResponse_def Let_def hash_cmd_defs)

lemma hash_response_slice:
  assumes "hp_Status resp \<noteq> StatusErr" "hp_Cmd resp \<in> {CmdHKeys, CmdHVals}" "length (hp_SliceResult resp) < 256 ^ 4"
    "\<forall>e\<in>set (hp_SliceResult resp). length e < 256 ^ 2" "hp_ErrMsg resp = []" "hp_IntResult resp = 0"
    "\<not> hp_BoolResult resp" "hp_StrResult resp = []" "hp_MapResult resp = []" "hp_AnySlice resp = []" "hp_FloatResult resp = 0"
  shows "\<exists>p. EncodeHashResponse ord resp = Some p \<and> DecodeHashResponse p (hp_Cmd resp) = Inr resp"
proof -
  let ?s = "hp_SliceResult resp"
  have s: "scan_strs 2 (length ?s) (enc_strs 2 ?s) = ?s" using scan_enc_strs [OF assms(4), of "[]"] by simp
  have nc: "hp_Cmd resp \<notin> {CmdHSet, CmdHDel, CmdHLen, CmdHStrLen, CmdHIncrBy}" "hp_Cmd resp \<notin> {CmdHExists, CmdHSetNX}"
    "hp_Cmd resp \<noteq> CmdHGet" "hp_Cmd resp \<noteq> CmdHGetAll" using assms(2) by (auto simp: hash_cmd_defs)
  define p where "p = hp_Status resp # be 4 (length ?s) @ enc_strs 2 ?s"
  have "EncodeHashResponse ord resp = Some p" using assms(1,2) nc by (simp add: EncodeHashResponse_def Let_def p_def)
  moreover have "unbe (sl 1 5 p) = length ?s" "drop 5 p = enc_strs 2 ?s" "p ! 0 = hp_Status resp" "5 \<le> length p" "p \<noteq> []"
    using response_head(1,2) [where n = "length ?s"] assms(3) by (simp_all add: p_def)
  then have "DecodeHashResponse p (hp_Cmd resp) = Inr resp"
    using assms(1,2,5-) nc s by (cases resp) (auto simp: DecodeHashResponse_def Let_def)
  ultimately show ?thesis by blast
qed

lemma hash_response_any:
  assumes "hp_Status resp \<noteq> StatusErr" "hp_Cmd resp = CmdHMGet" "length (hp_AnySlice resp) < 256 ^ 4"
    "\<forall>v\<in>set (hp_AnySlice resp). case v of Some s \<Rightarrow> length s < 256 ^ 4 | None \<Rightarrow> True" "hp_ErrMsg resp = []" "hp_IntResult resp = 0"
    "\<not> hp_BoolResult resp" "hp_StrResult resp = []" "hp_MapResult resp = []" "hp_SliceResult resp = []" "hp_FloatResult resp = 0"
  shows "\<exists>p. EncodeHashResponse ord resp = Some p \<and> DecodeHashResponse p (hp_Cmd resp) = Inr resp"
proof -
  let ?s = "hp_AnySlice resp"
  define p where "p = hp_Status resp # be 4 (length ?s) @ concat (map enc_any ?s)"
  have "EncodeHashResponse ord resp = Some p" using assms(1,2) by (simp add: EncodeHashResponse_def Let_def p_def hash_cmd_defs)
  moreover have "unbe (sl 1 5 p) = length ?s" "drop 5 p = concat (map enc_any ?s)" "p ! 0 = hp_Status resp" "5 \<le> length p" "p \<noteq> []"
    using response_head(1,2) [where n = "length ?s"] assms(3) by (simp_all add: p_def)
  then have "DecodeHashResponse p (hp_Cmd resp) = Inr resp"
    using assms(1,2,5-) scan_any_enc [OF assms(4)] by (cases resp) (simp add: DecodeHashResponse_def Let_def hash_cmd_defs)
  ultimately show ?thesis by blast
qed

lemma hash_response_map:
  assumes "hp_Status resp \<noteq> StatusErr" "hp_Cmd resp = CmdHGetAll" "gm_wf (hp_MapResult resp)" "length (hp_MapResult resp) < 256 ^ 4"
    "\<forall>(k, v)\<in>set (hp_MapResult resp). length k < 256 ^ 2 \<and> length v < 256 ^ 4" "hp_ErrMsg resp = []" "hp_IntResult resp = 0"
    "\<not> hp_BoolResult resp" "hp_StrResult resp = []" "hp_SliceResult resp = []" "hp_AnySlice resp = []" "hp_FloatResult resp = 0"
    and ord: "iter_order ord"
  shows "\<exists>p r. EncodeHashResponse ord resp = Some p \<and> DecodeHashResponse p (hp_Cmd resp) = Inr r \<and> same_response resp r"
proof -
  let ?m = "hp_MapResult resp"
  let ?ks = "ord (gm_keys ?m)"
  have ks: "set ?ks = set (gm_keys ?m)" "length ?ks = length ?m" using ord by (simp_all add: iter_order_set iter_order_length gm_keys_def)
  have small: "\<forall>k\<in>set ?ks. length k < 256 ^ 2 \<and> length (the_default [] (map_of ?m k)) < 256 ^ 4"
  proof
    fix k assume "k \<in> set ?ks"
    then obtain v where v: "map_of ?m k = Some v" using ks(1) by (auto simp: gm_keys_iff)
    then have "(k, v) \<in> set ?m" by (rule map_of_SomeD)
    then show "length k < 256 ^ 2 \<and> length (the_default [] (map_of ?m k)) < 256 ^ 4" using assms(5) v by auto
  qed
  define p where "p = hp_Status resp # be 4 (length ?m) @ concat (map (enc_entry ?m) ?ks)"
  define m' where "m' = fold (\<lambda>k. AList.update k (the_default [] (map_of ?m k))) ?ks []"
  have e: "EncodeHashResponse ord resp = Some p" using assms(1,2) by (simp add: EncodeHashResponse_def Let_def p_def hash_cmd_defs)
  have "unbe (sl 1 5 p) = length ?m" "drop 5 p = concat (map (enc_entry ?m) ?ks)" "p ! 0 = hp_Status resp" "5 \<le> length p" "p \<noteq> []"
    using response_head(1,2) [where n = "length ?m"] assms(4) by (simp_all add: p_def)
  then have d: "DecodeHashResponse p (hp_Cmd resp) = Inr (resp\<lparr>hp_MapResult := m'\<rparr>)"
    using assms(1,2,6-12) scan_entries_enc [OF small, of "[]"] ks(2)
    by (cases resp) (simp add: DecodeHashResponse_def Let_def hash_cmd_defs m'_def)
  have "map_of m' k = map_of ?m k" for k
    unfolding m'_def fold_update_map using ks(1) gm_keys_iff [of k ?m] by (cases "map_of ?m k") auto
  then have "same_response resp (resp\<lparr>hp_MapResult := m'\<rparr>)" by (simp add: same_response_def fun_eq_iff)
  with e d show ?thesis by blast
qed

lemma hash_response_wire:
  assumes "hash_response_ok resp" "iter_order ord"
  shows "\<exists>p r. EncodeHashResponse ord resp = Some p \<and> DecodeHashResponse p (hp_Cmd resp) = Inr r \<and> same_response resp r"
proof -
  have whole: ?thesis if "\<exists>p. EncodeHashResponse ord resp = Some p \<and> DecodeHashResponse p (hp_Cmd resp) = Inr resp"
    using that same_response_refl by blast
  show ?thesis
  proof (cases "hp_Status resp = StatusErr")
    case True
    then show ?thesis using assms(1) unfolding hash_response_ok_def Let_def by (intro whole hash_response_err) simp_all
  next
    case False
    note f = assms(1) [unfolded hash_response_ok_def Let_def if_not_P [OF False]]
    from f show ?thesis
      apply (elim conjE disjE)
      subgoal by (rule whole, rule hash_response_scalar [OF False]) simp_all
      subgoal by (rule whole, rule hash_response_scalar [OF False]) simp_all
      subgoal by (rule whole, rule hash_response_get [OF False])
      subgoal by (rule hash_response_map [OF False _ _ _ _ _ _ _ _ _ _ _ assms(2)])
      subgoal by (rule whole, rule hash_response_slice [OF False])
      subgoal by (rule whole, rule hash_response_scalar [OF False]) simp_all
      subgoal by (rule whole, rule hash_response_any [OF False])
      subgoal by (rule whole, rule hash_response_scalar [OF False]) simp_all
      done
  qed
qed

text \<open>Every hash response survives the wire: numbers, flags, strings, slices with missing values, error messages,
  and maps whatever order the encoder walks them in.\<close>

theorem hash_response_roundtrip:
  assumes "hash_response_ok resp" "iter_order ord"
  shows "\<exists>p r. EncodeHashResponse ord resp = Some p \<and> DecodeHashResponse p (hp_Cmd resp) = Inr r \<and> same_response resp r"
  by (rule hash_response_wire [OF assms])

theorem hash_response_roundtrip_witness:
  "\<exists>p r. EncodeHashResponse rev \<lparr>hp_Cmd = CmdHGetAll, hp_Status = StatusOK, hp_IntResult = 0, hp_BoolResult = False, hp_StrResult = [],
      hp_MapResult = [(''a'', ''1''), (''b'', ''2'')], hp_SliceResult = [], hp_AnySlice = [], hp_FloatResult = 0, hp_ErrMsg = []\<rparr> = Some p
     \<and> DecodeHashResponse p CmdHGetAll = Inr r \<and> map_of (hp_MapResult r) ''b'' = Some ''2''"
proof -
  let ?r = "\<lparr>hp_Cmd = CmdHGetAll, hp_Status = StatusOK, hp_IntResult = 0, hp_BoolResult = False, hp_StrResult = [],
      hp_MapResult = [(''a'', ''1''), (''b'', ''2'')], hp_SliceResult = [], hp_AnySlice = [], hp_FloatResult = 0, hp_ErrMsg = []\<rparr>"
  have "hash_response_ok ?r" by (simp add: hash_response_ok_def hash_cmd_defs status_defs gm_wf_def gm_keys_def)
  from hash_response_roundtrip [OF this iter_order_rev] show ?thesis by (auto simp: same_response_def)
qed

lemma read_strs_Cons:
  "unbe (be w m) \<le> length s \<Longrightarrow> read_strs w (Suc n) (be w m @ s) =
     (case read_strs w n (drop (unbe (be w m)) s) of Inl err \<Rightarrow> Inl err | Inr ss \<Rightarrow> Inr (bytes_str (take (unbe (be w m)) s) # ss))"
  by (simp add: Let_def)

text \<open>\<^verbatim>\<open>HMSET\<close> gives each value a two-byte length where \<^verbatim>\<open>HSET\<close> gives it four: a value of 65536
  bytes is encoded without complaint and decoded as the empty string.\<close>

theorem hmset_value_truncated:
  assumes "length v = 65536" "length k < 256 ^ 2" "length f < 256 ^ 2"
  shows "\<exists>p. EncodeHashRequest \<lparr>hq_Cmd = CmdHMSet, hq_Key = k, hq_Field = [], hq_Value = [], hq_Fields = [], hq_FvPairs = [f, v],
          hq_DeltaI64 = 0, hq_DeltaF64 = 0\<rparr> = Some p
     \<and> DecodeHashRequest p = Inr \<lparr>hq_Cmd = CmdHMSet, hq_Key = k, hq_Field = [], hq_Value = [], hq_Fields = [], hq_FvPairs = [f, []],
          hq_DeltaI64 = 0, hq_DeltaF64 = 0\<rparr>"
proof -
  define rest where "rest = be 2 (length f) @ str_bytes f @ be 2 65536 @ str_bytes v"
  define p where "p = CmdHMSet # be 2 (length k) @ be 2 1 @ str_bytes k @ rest"
  have "(1 :: nat) < 256 ^ 2" by simp
  note h = hash_payload5 [OF assms(2) this, where c = CmdHMSet and rest = rest, folded p_def]
  have z: "unbe (be 2 65536) = 0" by (simp add: unbe_be)
  have "read_strs 2 (Suc 0) (be 2 65536 @ str_bytes v) = Inr [[]]"
    by (subst read_strs_Cons) (simp_all add: z bytes_str_def)
  then have "read_strs 2 (Suc (Suc 0)) rest = Inr [f, []]"
    unfolding rest_def by (subst read_strs_Cons) (simp_all add: unbe_be_small [OF assms(3)] del: read_strs.simps)
  then have "read_strs 2 2 rest = Inr [f, []]" by (simp only: numeral_2_eq_2 [symmetric])
  then have "DecodeHashRequest p = Inr \<lparr>hq_Cmd = CmdHMSet, hq_Key = k, hq_Field = [], hq_Value = [], hq_Fields = [], hq_FvPairs = [f, []],
          hq_DeltaI64 = 0, hq_DeltaF64 = 0\<rparr>"
    using h by (simp add: DecodeHashRequest_def Let_def hash_cmd_defs)
  moreover have "EncodeHashRequest \<lparr>hq_Cmd = CmdHMSet, hq_Key = k, hq_Field = [], hq_Value = [], hq_Fields = [], hq_FvPairs = [f, v],
          hq_DeltaI64 = 0, hq_DeltaF64 = 0\<rparr> = Some p"
    using assms(1) by (simp add: EncodeHashRequest_def Let_def hash_cmd_defs p_def rest_def enc_str_def)
  ultimately show ?thesis by blast
qed

theorem hmset_value_truncated_witness:
  "\<exists>p. EncodeHashRequest \<lparr>hq_Cmd = CmdHMSet, hq_Key = ''k'', hq_Field = [], hq_Value = [], hq_Fields = [],
          hq_FvPairs = [''f'', replicate 65536 (CHR ''x'')], hq_DeltaI64 = 0, hq_DeltaF64 = 0\<rparr> = Some p
     \<and> DecodeHashRequest p = Inr \<lparr>hq_Cmd = CmdHMSet, hq_Key = ''k'', hq_Field = [], hq_Value = [], hq_Fields = [], hq_FvPairs = [''f'', []],
          hq_DeltaI64 = 0, hq_DeltaF64 = 0\<rparr>"
  by (rule hmset_value_truncated) (simp only: length_replicate, simp_all)

end
