(* ===== verification/Proto_List.thy ===== *)
theory Proto_List
  imports Protocol
begin

text \<open>
  The list and key-management part of \<^verbatim>\<open>net/protocol_ext.go\<close>: command codes, list requests and list responses.  All
  offsets are computed in \<^verbatim>\<open>int\<close> and checked before use, so the decoders return a value or an error on every payload.
\<close>

section \<open>Commands\<close>

definition CmdLPush :: byte where "CmdLPush = 48"
definition CmdRPush :: byte where "CmdRPush = 49"
definition CmdLPop :: byte where "CmdLPop = 50"
definition CmdRPop :: byte where "CmdRPop = 51"
definition CmdLLen :: byte where "CmdLLen = 52"
definition CmdLRange :: byte where "CmdLRange = 53"
definition CmdLIndex :: byte where "CmdLIndex = 54"
definition CmdLSet :: byte where "CmdLSet = 55"
definition CmdLRem :: byte where "CmdLRem = 56"
definition CmdLTrim :: byte where "CmdLTrim = 57"
definition CmdLInsert :: byte where "CmdLInsert = 58"
definition CmdBLPop :: byte where "CmdBLPop = 59"
definition CmdBRPop :: byte where "CmdBRPop = 60"
definition CmdLPos :: byte where "CmdLPos = 61"

definition CmdExists :: byte where "CmdExists = 64"
definition CmdType :: byte where "CmdType = 65"
definition CmdExpire :: byte where "CmdExpire = 66"
definition CmdExpireAt :: byte where "CmdExpireAt = 67"
definition CmdPExpire :: byte where "CmdPExpire = 68"
definition CmdPExpireAt :: byte where "CmdPExpireAt = 69"
definition CmdTTL :: byte where "CmdTTL = 70"
definition CmdPTTL :: byte where "CmdPTTL = 71"
definition CmdPersist :: byte where "CmdPersist = 72"
definition CmdKeys :: byte where "CmdKeys = 73"

lemmas list_cmd_defs = CmdLPush_def CmdRPush_def CmdLPop_def CmdRPop_def CmdLLen_def CmdLRange_def CmdLIndex_def
  CmdLSet_def CmdLRem_def CmdLTrim_def CmdLInsert_def CmdBLPop_def CmdBRPop_def CmdLPos_def

lemmas key_cmd_defs = CmdExists_def CmdType_def CmdExpire_def CmdExpireAt_def CmdPExpire_def CmdPExpireAt_def CmdTTL_def
  CmdPTTL_def CmdPersist_def CmdKeys_def

definition IsListCmd :: "byte \<Rightarrow> bool" where
  "IsListCmd cmd \<longleftrightarrow> cmd \<ge> CmdLPush \<and> cmd \<le> CmdLPos"

definition IsKeyCmd :: "byte \<Rightarrow> bool" where
  "IsKeyCmd cmd \<longleftrightarrow> cmd \<ge> CmdExists \<and> cmd \<le> CmdKeys"

section \<open>List requests\<close>

record list_request =
  lq_Cmd :: byte
  lq_Key :: gostring
  lq_Elements :: "gostring list"
  lq_Value :: gostring
  lq_Index :: int
  lq_Start :: int
  lq_Stop :: int
  lq_Count :: int
  lq_Pivot :: gostring
  lq_Before :: bool
  lq_Timeout :: int
  lq_Rank :: int
  lq_MaxLen :: int

definition EncodeListRequest :: "list_request \<Rightarrow> bytes option" where
  "EncodeListRequest req =
     (let cmd = lq_Cmd req; k = lq_Key req; v = lq_Value req; kl = be 2 (length k); vl = be 4 (length v) in
      if cmd \<in> {CmdLPop, CmdRPop, CmdLLen} then Some ([cmd] @ kl @ str_bytes k)
      else if cmd \<in> {CmdLPush, CmdRPush} then
        Some ([cmd] @ kl @ be 4 (length (lq_Elements req)) @ str_bytes k @ enc_strs 2 (lq_Elements req))
      else if cmd \<in> {CmdLRange, CmdLTrim} then
        Some ([cmd] @ kl @ be 8 (u64 (lq_Start req)) @ be 8 (u64 (lq_Stop req)) @ str_bytes k)
      else if cmd = CmdLIndex then Some ([cmd] @ kl @ be 8 (u64 (lq_Index req)) @ str_bytes k)
      else if cmd = CmdLSet then Some ([cmd] @ kl @ be 8 (u64 (lq_Index req)) @ vl @ str_bytes k @ str_bytes v)
      else if cmd = CmdLRem then Some ([cmd] @ kl @ be 8 (u64 (lq_Count req)) @ vl @ str_bytes k @ str_bytes v)
      else if cmd = CmdLInsert then
        Some ([cmd] @ kl @ [if lq_Before req then 1 else 0] @ be 2 (length (lq_Pivot req)) @ vl
              @ str_bytes k @ str_bytes (lq_Pivot req) @ str_bytes v)
      else if cmd \<in> {CmdBLPop, CmdBRPop} then Some ([cmd] @ kl @ be 8 (u64 (lq_Timeout req)) @ str_bytes k)
      else if cmd = CmdLPos then
        Some ([cmd] @ kl @ be 8 (u64 (lq_Rank req)) @ be 8 (u64 (lq_Count req)) @ be 8 (u64 (lq_MaxLen req)) @ vl
              @ str_bytes k @ str_bytes v)
      else None)"

definition DecodeListRequest :: "bytes \<Rightarrow> list_request decoded" where
  "DecodeListRequest p =
     (if length p < 3 then Inl ErrTooShort
      else
        let cmd = p ! 0;
            req = \<lparr>lq_Cmd = cmd, lq_Key = [], lq_Elements = [], lq_Value = [], lq_Index = 0, lq_Start = 0, lq_Stop = 0,
                    lq_Count = 0, lq_Pivot = [], lq_Before = False, lq_Timeout = 0, lq_Rank = 0, lq_MaxLen = 0\<rparr>;
            keyLen = unbe (sl 1 3 p)
        in
        if cmd \<in> {CmdLPop, CmdRPop, CmdLLen} then
          (if length p < 3 + keyLen then Inl ErrTruncated
           else Inr (req\<lparr>lq_Key := bytes_str (sl 3 (3 + keyLen) p)\<rparr>))
        else if cmd \<in> {CmdLPush, CmdRPush} then
          (if length p < 7 then Inl ErrTooShort
           else let numElems = unbe (sl 3 7 p) in
             if 7 + keyLen > length p then Inl ErrTruncated
             else case read_strs 2 numElems (drop (7 + keyLen) p) of
                    Inl err \<Rightarrow> Inl err
                  | Inr es \<Rightarrow> Inr (req\<lparr>lq_Key := bytes_str (sl 7 (7 + keyLen) p), lq_Elements := es\<rparr>))
        else if cmd \<in> {CmdLRange, CmdLTrim} then
          (if length p < 19 then Inl ErrTooShort
           else if length p < 19 + keyLen then Inl ErrTruncated
           else Inr (req\<lparr>lq_Start := s64 (unbe (sl 3 11 p)), lq_Stop := s64 (unbe (sl 11 19 p)),
                         lq_Key := bytes_str (sl 19 (19 + keyLen) p)\<rparr>))
        else if cmd = CmdLIndex then
          (if length p < 11 then Inl ErrTooShort
           else if length p < 11 + keyLen then Inl ErrTruncated
           else Inr (req\<lparr>lq_Index := s64 (unbe (sl 3 11 p)), lq_Key := bytes_str (sl 11 (11 + keyLen) p)\<rparr>))
        else if cmd = CmdLSet then
          (if length p < 15 then Inl ErrTooShort
           else let valueLen = unbe (sl 11 15 p) in
             if length p < 15 + keyLen + valueLen then Inl ErrTruncated
             else Inr (req\<lparr>lq_Index := s64 (unbe (sl 3 11 p)), lq_Key := bytes_str (sl 15 (15 + keyLen) p),
                           lq_Value := bytes_str (sl (15 + keyLen) (15 + keyLen + valueLen) p)\<rparr>))
        else if cmd = CmdLRem then
          (if length p < 15 then Inl ErrTooShort
           else let valueLen = unbe (sl 11 15 p) in
             if length p < 15 + keyLen + valueLen then Inl ErrTruncated
             else Inr (req\<lparr>lq_Count := s64 (unbe (sl 3 11 p)), lq_Key := bytes_str (sl 15 (15 + keyLen) p),
                           lq_Value := bytes_str (sl (15 + keyLen) (15 + keyLen + valueLen) p)\<rparr>))
        else if cmd = CmdLInsert then
          (if length p < 10 then Inl ErrTooShort
           else let pivotLen = unbe (sl 4 6 p); valueLen = unbe (sl 6 10 p) in
             if 10 + keyLen + pivotLen + valueLen > length p then Inl ErrTruncated
             else Inr (req\<lparr>lq_Before := p ! 3 \<noteq> 0, lq_Key := bytes_str (sl 10 (10 + keyLen) p),
                           lq_Pivot := bytes_str (sl (10 + keyLen) (10 + keyLen + pivotLen) p),
                           lq_Value := bytes_str (sl (10 + keyLen + pivotLen) (10 + keyLen + pivotLen + valueLen) p)\<rparr>))
        else if cmd \<in> {CmdBLPop, CmdBRPop} then
          (if length p < 11 then Inl ErrTooShort
           else if length p < 11 + keyLen then Inl ErrTruncated
           else Inr (req\<lparr>lq_Timeout := s64 (unbe (sl 3 11 p)), lq_Key := bytes_str (sl 11 (11 + keyLen) p)\<rparr>))
        else if cmd = CmdLPos then
          (if length p < 31 then Inl ErrTooShort
           else let valueLen = unbe (sl 27 31 p) in
             if length p < 31 + keyLen + valueLen then Inl ErrTruncated
             else Inr (req\<lparr>lq_Rank := s64 (unbe (sl 3 11 p)), lq_Count := s64 (unbe (sl 11 19 p)),
                           lq_MaxLen := s64 (unbe (sl 19 27 p)), lq_Key := bytes_str (sl 31 (31 + keyLen) p),
                           lq_Value := bytes_str (sl (31 + keyLen) (31 + keyLen + valueLen) p)\<rparr>))
        else Inl ErrInvalidCommand)"

section \<open>List responses\<close>

record list_response =
  lp_Cmd :: byte
  lp_Status :: byte
  lp_IntResult :: int
  lp_BoolResult :: bool
  lp_StrResult :: gostring
  lp_SliceResult :: "gostring list"
  lp_PosResult :: "int list"
  lp_ErrMsg :: gostring

definition EncodeListResponse :: "list_response \<Rightarrow> bytes option" where
  "EncodeListResponse resp =
     (if lp_Status resp = StatusErr then Some ([StatusErr] @ be 2 (length (lp_ErrMsg resp)) @ str_bytes (lp_ErrMsg resp))
      else let cmd = lp_Cmd resp; st = [lp_Status resp] in
      if cmd \<in> {CmdLPush, CmdRPush, CmdLLen, CmdLRem, CmdLInsert} then Some (st @ be 8 (u64 (lp_IntResult resp)))
      else if cmd \<in> {CmdLPop, CmdRPop, CmdBLPop, CmdBRPop, CmdLIndex} then
        Some (st @ be 4 (length (lp_StrResult resp)) @ str_bytes (lp_StrResult resp))
      else if cmd = CmdLRange then Some (st @ be 4 (length (lp_SliceResult resp)) @ enc_strs 2 (lp_SliceResult resp))
      else if cmd = CmdLSet then Some (st @ [if lp_BoolResult resp then 1 else 0])
      else if cmd = CmdLTrim then Some st
      else if cmd = CmdLPos then
        Some (st @ be 4 (length (lp_PosResult resp)) @ concat (map (\<lambda>pos. be 8 (u64 pos)) (lp_PosResult resp)))
      else None)"

primrec scan_positions :: "nat \<Rightarrow> bytes \<Rightarrow> int list" where
  "scan_positions 0 rest = []"
| "scan_positions (Suc n) rest =
     (if length rest < 8 then [] else s64 (unbe (take 8 rest)) # scan_positions n (drop 8 rest))"

definition DecodeListResponse :: "bytes \<Rightarrow> byte \<Rightarrow> list_response decoded" where
  "DecodeListResponse p cmd =
     (if length p < 1 then Inl ErrTooShort
      else
        let resp = \<lparr>lp_Cmd = cmd, lp_Status = p ! 0, lp_IntResult = 0, lp_BoolResult = False, lp_StrResult = [],
                     lp_SliceResult = [], lp_PosResult = [], lp_ErrMsg = []\<rparr>
        in
        if lp_Status resp = StatusErr then
          (let errLen = unbe (sl 1 3 p)
           in Inr (if length p \<ge> 3 \<and> length p \<ge> 3 + errLen then resp\<lparr>lp_ErrMsg := bytes_str (sl 3 (3 + errLen) p)\<rparr> else resp))
        else if cmd \<in> {CmdLPush, CmdRPush, CmdLLen, CmdLRem, CmdLInsert} then
          (if length p < 9 then Inl ErrTooShort else Inr (resp\<lparr>lp_IntResult := s64 (unbe (sl 1 9 p))\<rparr>))
        else if cmd \<in> {CmdLPop, CmdRPop, CmdBLPop, CmdBRPop, CmdLIndex} then
          (if length p < 5 then Inl ErrTooShort
           else let vl = unbe (sl 1 5 p)
             in Inr (if vl > 0 \<and> length p \<ge> 5 + vl then resp\<lparr>lp_StrResult := bytes_str (sl 5 (5 + vl) p)\<rparr> else resp))
        else if cmd = CmdLRange then
          (if length p < 5 then Inl ErrTooShort
           else Inr (resp\<lparr>lp_SliceResult := scan_strs 2 (unbe (sl 1 5 p)) (drop 5 p)\<rparr>))
        else if cmd = CmdLSet then
          (if length p < 2 then Inl ErrTooShort else Inr (resp\<lparr>lp_BoolResult := p ! 1 \<noteq> 0\<rparr>))
        else if cmd = CmdLPos then
          (if length p < 5 then Inl ErrTooShort
           else Inr (resp\<lparr>lp_PosResult := scan_positions (unbe (sl 1 5 p)) (drop 5 p)\<rparr>))
        else Inr resp)"

section \<open>List requests: round trip\<close>

lemma sl_Cons: "0 < a \<Longrightarrow> sl a b (c # r) = sl (a - 1) (b - 1) r"
  by (cases a) (simp_all add: sl_def)

lemma sl_skip: "length xs \<le> a \<Longrightarrow> sl a b (xs @ ys) = sl (a - length xs) (b - length xs) ys"
  by (simp add: sl_def)

lemma sl_here: "length xs = b \<Longrightarrow> sl 0 b (xs @ ys) = xs" "length xs = b \<Longrightarrow> sl 0 b xs = xs"
  by (simp_all add: sl_def)

lemma s64_be: "in_i64 x \<Longrightarrow> s64 (unbe (be 8 (u64 x))) = x"
  using unbe_be_small [OF u64_less] s64_u64 by simp

lemmas payload_simps = sl_Cons sl_skip sl_here s64_be unbe_be_small nth_append

definition list_request_ok :: "list_request \<Rightarrow> bool" where
  "list_request_ok req \<longleftrightarrow>
     (let cmd = lq_Cmd req;
          b = \<lparr>lq_Cmd = cmd, lq_Key = lq_Key req, lq_Elements = [], lq_Value = [], lq_Index = 0, lq_Start = 0, lq_Stop = 0,
                lq_Count = 0, lq_Pivot = [], lq_Before = False, lq_Timeout = 0, lq_Rank = 0, lq_MaxLen = 0\<rparr>
      in length (lq_Key req) < 256 ^ 2 \<and> length (lq_Value req) < 256 ^ 4 \<and>
        in_i64 (lq_Index req) \<and> in_i64 (lq_Start req) \<and> in_i64 (lq_Stop req) \<and> in_i64 (lq_Count req) \<and>
        in_i64 (lq_Timeout req) \<and> in_i64 (lq_Rank req) \<and> in_i64 (lq_MaxLen req) \<and>
      ((cmd \<in> {CmdLPop, CmdRPop, CmdLLen} \<and> req = b)
       \<or> (cmd \<in> {CmdLPush, CmdRPush} \<and> length (lq_Elements req) < 256 ^ 4 \<and> (\<forall>e\<in>set (lq_Elements req). length e < 256 ^ 2)
          \<and> req = b\<lparr>lq_Elements := lq_Elements req\<rparr>)
       \<or> (cmd \<in> {CmdLRange, CmdLTrim} \<and> req = b\<lparr>lq_Start := lq_Start req, lq_Stop := lq_Stop req\<rparr>)
       \<or> (cmd = CmdLIndex \<and> req = b\<lparr>lq_Index := lq_Index req\<rparr>)
       \<or> (cmd = CmdLSet \<and> req = b\<lparr>lq_Index := lq_Index req, lq_Value := lq_Value req\<rparr>)
       \<or> (cmd = CmdLRem \<and> req = b\<lparr>lq_Count := lq_Count req, lq_Value := lq_Value req\<rparr>)
       \<or> (cmd = CmdLInsert \<and> length (lq_Pivot req) < 256 ^ 2
          \<and> req = b\<lparr>lq_Before := lq_Before req, lq_Pivot := lq_Pivot req, lq_Value := lq_Value req\<rparr>)
       \<or> (cmd \<in> {CmdBLPop, CmdBRPop} \<and> req = b\<lparr>lq_Timeout := lq_Timeout req\<rparr>)
       \<or> (cmd = CmdLPos
          \<and> req = b\<lparr>lq_Rank := lq_Rank req, lq_Count := lq_Count req, lq_MaxLen := lq_MaxLen req, lq_Value := lq_Value req\<rparr>)))"

definition list_wire :: "list_request \<Rightarrow> bool" where
  "list_wire req \<longleftrightarrow> (\<exists>p. EncodeListRequest req = Some p \<and> DecodeListRequest p = Inr req)"

lemmas list_wire_simps = list_wire_def EncodeListRequest_def DecodeListRequest_def Let_def payload_simps

lemma list_wire_key:
  assumes "length (lq_Key req) < 256 ^ 2" "lq_Cmd req \<in> {CmdLPop, CmdRPop, CmdLLen}"
    "lq_Elements req = []" "lq_Value req = []" "lq_Index req = 0" "lq_Start req = 0" "lq_Stop req = 0" "lq_Count req = 0" "lq_Pivot req = []"
    "\<not> lq_Before req" "lq_Timeout req = 0" "lq_Rank req = 0" "lq_MaxLen req = 0"
  shows "list_wire req"
  using assms by (cases req) (simp add: list_wire_simps)

lemma list_wire_push:
  assumes "length (lq_Key req) < 256 ^ 2" "lq_Cmd req \<in> {CmdLPush, CmdRPush}"
    "length (lq_Elements req) < 256 ^ 4" "\<forall>e\<in>set (lq_Elements req). length e < 256 ^ 2"
    "lq_Value req = []" "lq_Index req = 0" "lq_Start req = 0" "lq_Stop req = 0" "lq_Count req = 0" "lq_Pivot req = []"
    "\<not> lq_Before req" "lq_Timeout req = 0" "lq_Rank req = 0" "lq_MaxLen req = 0"
  shows "list_wire req"
proof -
  have r: "read_strs 2 (length (lq_Elements req)) (enc_strs 2 (lq_Elements req)) = Inr (lq_Elements req)"
    using read_enc_strs [OF assms(4), of "[]"] by simp
  show ?thesis using assms(1-3,5-) r by (cases req) (auto simp: list_wire_simps list_cmd_defs drop_Cons')
qed

lemma list_wire_range:
  assumes "length (lq_Key req) < 256 ^ 2" "lq_Cmd req \<in> {CmdLRange, CmdLTrim}" "in_i64 (lq_Start req)" "in_i64 (lq_Stop req)"
    "lq_Elements req = []" "lq_Value req = []" "lq_Index req = 0" "lq_Count req = 0" "lq_Pivot req = []"
    "\<not> lq_Before req" "lq_Timeout req = 0" "lq_Rank req = 0" "lq_MaxLen req = 0"
  shows "list_wire req"
  using assms by (cases req) (auto simp: list_wire_simps list_cmd_defs)

lemma list_wire_index:
  assumes "length (lq_Key req) < 256 ^ 2" "lq_Cmd req = CmdLIndex" "in_i64 (lq_Index req)"
    "lq_Elements req = []" "lq_Value req = []" "lq_Start req = 0" "lq_Stop req = 0" "lq_Count req = 0" "lq_Pivot req = []"
    "\<not> lq_Before req" "lq_Timeout req = 0" "lq_Rank req = 0" "lq_MaxLen req = 0"
  shows "list_wire req"
  using assms by (cases req) (auto simp: list_wire_simps list_cmd_defs)

lemma list_wire_set:
  assumes "length (lq_Key req) < 256 ^ 2" "lq_Cmd req = CmdLSet" "in_i64 (lq_Index req)" "length (lq_Value req) < 256 ^ 4"
    "lq_Elements req = []" "lq_Start req = 0" "lq_Stop req = 0" "lq_Count req = 0" "lq_Pivot req = []"
    "\<not> lq_Before req" "lq_Timeout req = 0" "lq_Rank req = 0" "lq_MaxLen req = 0"
  shows "list_wire req"
  using assms by (cases req) (auto simp: list_wire_simps list_cmd_defs)

lemma list_wire_rem:
  assumes "length (lq_Key req) < 256 ^ 2" "lq_Cmd req = CmdLRem" "in_i64 (lq_Count req)" "length (lq_Value req) < 256 ^ 4"
    "lq_Elements req = []" "lq_Index req = 0" "lq_Start req = 0" "lq_Stop req = 0" "lq_Pivot req = []"
    "\<not> lq_Before req" "lq_Timeout req = 0" "lq_Rank req = 0" "lq_MaxLen req = 0"
  shows "list_wire req"
  using assms by (cases req) (auto simp: list_wire_simps list_cmd_defs)

lemma list_wire_insert:
  assumes "length (lq_Key req) < 256 ^ 2" "lq_Cmd req = CmdLInsert" "length (lq_Pivot req) < 256 ^ 2" "length (lq_Value req) < 256 ^ 4"
    "lq_Elements req = []" "lq_Index req = 0" "lq_Start req = 0" "lq_Stop req = 0" "lq_Count req = 0"
    "lq_Timeout req = 0" "lq_Rank req = 0" "lq_MaxLen req = 0"
  shows "list_wire req"
  using assms by (cases req) (auto simp: list_wire_simps list_cmd_defs)

lemma list_wire_block:
  assumes "length (lq_Key req) < 256 ^ 2" "lq_Cmd req \<in> {CmdBLPop, CmdBRPop}" "in_i64 (lq_Timeout req)"
    "lq_Elements req = []" "lq_Value req = []" "lq_Index req = 0" "lq_Start req = 0" "lq_Stop req = 0" "lq_Count req = 0" "lq_Pivot req = []"
    "\<not> lq_Before req" "lq_Rank req = 0" "lq_MaxLen req = 0"
  shows "list_wire req"
  using assms by (cases req) (auto simp: list_wire_simps list_cmd_defs)

lemma list_wire_pos:
  assumes "length (lq_Key req) < 256 ^ 2" "lq_Cmd req = CmdLPos" "in_i64 (lq_Rank req)" "in_i64 (lq_Count req)" "in_i64 (lq_MaxLen req)"
    "length (lq_Value req) < 256 ^ 4" "lq_Elements req = []" "lq_Index req = 0" "lq_Start req = 0" "lq_Stop req = 0" "lq_Pivot req = []"
    "\<not> lq_Before req" "lq_Timeout req = 0"
  shows "list_wire req"
  using assms by (cases req) (auto simp: list_wire_simps list_cmd_defs)

lemma list_request_wire:
  assumes "list_request_ok req"
  shows "\<exists>p. EncodeListRequest req = Some p \<and> DecodeListRequest p = Inr req"
proof -
  have "list_wire req"
    using assms unfolding list_request_ok_def Let_def
    apply (elim conjE disjE)
    subgoal by (rule list_wire_key; cases req; simp)
    subgoal by (rule list_wire_push; cases req; simp)
    subgoal by (rule list_wire_range; cases req; simp)
    subgoal by (rule list_wire_index; cases req; simp)
    subgoal by (rule list_wire_set; cases req; simp)
    subgoal by (rule list_wire_rem; cases req; simp)
    subgoal by (rule list_wire_insert; cases req; simp)
    subgoal by (rule list_wire_block; cases req; simp)
    subgoal by (rule list_wire_pos; cases req; simp)
    done
  then show ?thesis by (simp add: list_wire_def)
qed

text \<open>Every list request survives the wire: all fourteen commands, in their nine payload layouts.\<close>

theorem list_request_roundtrip:
  assumes "list_request_ok req"
  shows "\<exists>p. EncodeListRequest req = Some p \<and> DecodeListRequest p = Inr req"
  by (rule list_request_wire [OF assms])

theorem list_request_roundtrip_witness:
  "\<exists>p. EncodeListRequest \<lparr>lq_Cmd = CmdLInsert, lq_Key = ''l'', lq_Elements = [], lq_Value = ''v'', lq_Index = 0, lq_Start = 0, lq_Stop = 0,
       lq_Count = 0, lq_Pivot = ''p'', lq_Before = True, lq_Timeout = 0, lq_Rank = 0, lq_MaxLen = 0\<rparr> = Some p
     \<and> DecodeListRequest p = Inr \<lparr>lq_Cmd = CmdLInsert, lq_Key = ''l'', lq_Elements = [], lq_Value = ''v'', lq_Index = 0, lq_Start = 0, lq_Stop = 0,
       lq_Count = 0, lq_Pivot = ''p'', lq_Before = True, lq_Timeout = 0, lq_Rank = 0, lq_MaxLen = 0\<rparr>"
  by (rule list_request_roundtrip) (simp add: list_request_ok_def list_cmd_defs in_i64_def)

section \<open>List responses: round trip\<close>

lemma scan_positions_enc: "\<forall>x\<in>set ps. in_i64 x \<Longrightarrow> scan_positions (length ps) (concat (map (\<lambda>x. be 8 (u64 x)) ps)) = ps"
  by (induction ps) (simp_all add: s64_be)

definition list_response_ok :: "list_response \<Rightarrow> bool" where
  "list_response_ok resp \<longleftrightarrow>
     (let cmd = lp_Cmd resp;
          b = \<lparr>lp_Cmd = cmd, lp_Status = lp_Status resp, lp_IntResult = 0, lp_BoolResult = False, lp_StrResult = [],
                lp_SliceResult = [], lp_PosResult = [], lp_ErrMsg = []\<rparr>
      in if lp_Status resp = StatusErr then length (lp_ErrMsg resp) < 256 ^ 2 \<and> resp = b\<lparr>lp_ErrMsg := lp_ErrMsg resp\<rparr>
         else
           (cmd \<in> {CmdLPush, CmdRPush, CmdLLen, CmdLRem, CmdLInsert} \<and> in_i64 (lp_IntResult resp)
             \<and> resp = b\<lparr>lp_IntResult := lp_IntResult resp\<rparr>)
           \<or> (cmd \<in> {CmdLPop, CmdRPop, CmdBLPop, CmdBRPop, CmdLIndex} \<and> length (lp_StrResult resp) < 256 ^ 4
             \<and> resp = b\<lparr>lp_StrResult := lp_StrResult resp\<rparr>)
           \<or> (cmd = CmdLRange \<and> length (lp_SliceResult resp) < 256 ^ 4 \<and> (\<forall>e\<in>set (lp_SliceResult resp). length e < 256 ^ 2)
             \<and> resp = b\<lparr>lp_SliceResult := lp_SliceResult resp\<rparr>)
           \<or> (cmd = CmdLSet \<and> resp = b\<lparr>lp_BoolResult := lp_BoolResult resp\<rparr>)
           \<or> (cmd = CmdLTrim \<and> resp = b)
           \<or> (cmd = CmdLPos \<and> length (lp_PosResult resp) < 256 ^ 4 \<and> (\<forall>x\<in>set (lp_PosResult resp). in_i64 x)
             \<and> resp = b\<lparr>lp_PosResult := lp_PosResult resp\<rparr>))"

definition list_reply :: "list_response \<Rightarrow> bool" where
  "list_reply resp \<longleftrightarrow> (\<exists>p. EncodeListResponse resp = Some p \<and> DecodeListResponse p (lp_Cmd resp) = Inr resp)"

lemmas list_reply_simps = list_reply_def EncodeListResponse_def DecodeListResponse_def Let_def payload_simps drop_Cons'

lemma list_reply_err:
  assumes "lp_Status resp = StatusErr" "length (lp_ErrMsg resp) < 256 ^ 2" "lp_IntResult resp = 0" "\<not> lp_BoolResult resp" "lp_StrResult resp = []"
    "lp_SliceResult resp = []" "lp_PosResult resp = []"
  shows "list_reply resp"
  using assms by (cases resp) (simp add: list_reply_simps)

lemma list_reply_scalar:
  assumes "lp_Status resp \<noteq> StatusErr" "lp_ErrMsg resp = []" "lp_SliceResult resp = []" "lp_PosResult resp = []"
    and "lp_Cmd resp \<in> {CmdLPush, CmdRPush, CmdLLen, CmdLRem, CmdLInsert} \<and> in_i64 (lp_IntResult resp) \<and> \<not> lp_BoolResult resp \<and> lp_StrResult resp = []
      \<or> lp_Cmd resp \<in> {CmdLPop, CmdRPop, CmdBLPop, CmdBRPop, CmdLIndex} \<and> length (lp_StrResult resp) < 256 ^ 4 \<and> lp_IntResult resp = 0 \<and> \<not> lp_BoolResult resp
      \<or> lp_Cmd resp = CmdLSet \<and> lp_IntResult resp = 0 \<and> lp_StrResult resp = []
      \<or> lp_Cmd resp = CmdLTrim \<and> lp_IntResult resp = 0 \<and> \<not> lp_BoolResult resp \<and> lp_StrResult resp = []"
  shows "list_reply resp"
  using assms by (cases resp) (auto simp: list_reply_simps list_cmd_defs)

lemma list_reply_slice:
  assumes "lp_Status resp \<noteq> StatusErr" "lp_Cmd resp = CmdLRange" "length (lp_SliceResult resp) < 256 ^ 4" "\<forall>e\<in>set (lp_SliceResult resp). length e < 256 ^ 2"
    "lp_ErrMsg resp = []" "lp_IntResult resp = 0" "\<not> lp_BoolResult resp" "lp_StrResult resp = []" "lp_PosResult resp = []"
  shows "list_reply resp"
proof -
  have "scan_strs 2 (length (lp_SliceResult resp)) (enc_strs 2 (lp_SliceResult resp)) = lp_SliceResult resp"
    using scan_enc_strs [OF assms(4), of "[]"] by simp
  then show ?thesis using assms(1-3,5-) by (cases resp) (simp add: list_reply_simps list_cmd_defs)
qed

lemma list_reply_pos:
  assumes "lp_Status resp \<noteq> StatusErr" "lp_Cmd resp = CmdLPos" "length (lp_PosResult resp) < 256 ^ 4" "\<forall>x\<in>set (lp_PosResult resp). in_i64 x"
    "lp_ErrMsg resp = []" "lp_IntResult resp = 0" "\<not> lp_BoolResult resp" "lp_StrResult resp = []" "lp_SliceResult resp = []"
  shows "list_reply resp"
  using scan_positions_enc [OF assms(4)] assms(1-3,5-) by (cases resp) (simp add: list_reply_simps list_cmd_defs)

lemma list_response_wire:
  assumes "list_response_ok resp"
  shows "\<exists>p. EncodeListResponse resp = Some p \<and> DecodeListResponse p (lp_Cmd resp) = Inr resp"
proof -
  have "list_reply resp"
  proof (cases "lp_Status resp = StatusErr")
    case True
    then show ?thesis using assms unfolding list_response_ok_def Let_def by (intro list_reply_err; cases resp; simp)
  next
    case False
    from assms [unfolded list_response_ok_def Let_def if_not_P [OF False]] show ?thesis
      apply (elim conjE disjE)
      subgoal by (rule list_reply_scalar [OF False]; cases resp; simp)
      subgoal by (rule list_reply_scalar [OF False]; cases resp; simp)
      subgoal by (rule list_reply_slice [OF False]; cases resp; simp)
      subgoal by (rule list_reply_scalar [OF False]; cases resp; simp)
      subgoal by (rule list_reply_scalar [OF False]; cases resp; simp)
      subgoal by (rule list_reply_pos [OF False]; cases resp; simp)
      done
  qed
  then show ?thesis by (simp add: list_reply_def)
qed

text \<open>Every list response survives the wire: lengths, elements, ranges, positions, flags and error messages.\<close>

theorem list_response_roundtrip:
  assumes "list_response_ok resp"
  shows "\<exists>p. EncodeListResponse resp = Some p \<and> DecodeListResponse p (lp_Cmd resp) = Inr resp"
  by (rule list_response_wire [OF assms])

theorem list_response_roundtrip_witness:
  "\<exists>p. EncodeListResponse \<lparr>lp_Cmd = CmdLPos, lp_Status = StatusOK, lp_IntResult = 0, lp_BoolResult = False, lp_StrResult = [],
       lp_SliceResult = [], lp_PosResult = [0, 3], lp_ErrMsg = []\<rparr> = Some p
     \<and> DecodeListResponse p CmdLPos = Inr \<lparr>lp_Cmd = CmdLPos, lp_Status = StatusOK, lp_IntResult = 0, lp_BoolResult = False, lp_StrResult = [],
       lp_SliceResult = [], lp_PosResult = [0, 3], lp_ErrMsg = []\<rparr>"
proof -
  let ?r = "\<lparr>lp_Cmd = CmdLPos, lp_Status = StatusOK, lp_IntResult = 0, lp_BoolResult = False, lp_StrResult = [],
       lp_SliceResult = [], lp_PosResult = [0, 3], lp_ErrMsg = []\<rparr>"
  have "list_response_ok ?r" by (simp add: list_response_ok_def list_cmd_defs status_defs in_i64_def)
  from list_response_roundtrip [OF this] show ?thesis by simp
qed

end
