(* ===== verification/Raft.thy ===== *)
theory Raft
  imports Prelude
begin

text \<open>
  The consensus core: \<^verbatim>\<open>raft/log.go\<close>, \<^verbatim>\<open>raft/rpc.go\<close>, \<^verbatim>\<open>raft/raft.go\<close>.  A \<^verbatim>\<open>uint64\<close> is a natural number below
  \<open>2 ^ 64\<close>, reduced by \<open>w64\<close> where the code adds; \<open>w64_dec\<close> subtracts one.  The event loop serialises all events, so a handler is
  a function from the state before to the state after, together with the requests its goroutines send and the response it
  gives.  \<open>applyCh\<close> is the sequence of messages delivered so far, \<open>proposeCh\<close> the queue of proposals.  The two timers are not
  state: a timeout may be handled at any moment.  The maps \<open>nextIndex\<close> and \<open>matchIndex\<close> are nil before the first call
  of \<open>becomeLeader\<close>; they are written by a leader only.
\<close>

definition w64 :: "nat \<Rightarrow> nat" where
  "w64 n = n mod 2 ^ 64"

definition w64_dec :: "nat \<Rightarrow> nat" where
  "w64_dec n = (if n = 0 then 2 ^ 64 - 1 else n - 1)"

lemma w64_code [code]: "w64 n = nat (int n mod 2 ^ 64)"
  by (simp add: w64_def nat_mod_distrib nat_power_eq)

lemma w64_id [simp]: "n < 2 ^ 64 \<Longrightarrow> w64 n = n"
  by (simp add: w64_def)

section \<open>The log\<close>

record LogEntry =
  le_Index :: nat
  le_Term :: nat
  le_Command :: bytes

type_synonym raft_log = "LogEntry list"

definition NewLog :: raft_log where
  "NewLog = [\<lparr>le_Index = 0, le_Term = 0, le_Command = []\<rparr>]"

definition log_Append :: "LogEntry list \<Rightarrow> raft_log \<Rightarrow> raft_log" where
  "log_Append es l = l @ es"

definition log_Get :: "nat \<Rightarrow> raft_log \<Rightarrow> LogEntry option" where
  "log_Get i l = (if i = 0 \<or> i \<ge> length l then None else Some (l ! i))"

definition log_Last :: "raft_log \<Rightarrow> nat \<times> nat" where
  "log_Last l = (if l = [] then (0, 0) else (let e = last l in (le_Index e, le_Term e)))"

definition log_Len :: "raft_log \<Rightarrow> int" where
  "log_Len l = int (length l) - 1"

definition log_Truncate :: "nat \<Rightarrow> raft_log \<Rightarrow> raft_log" where
  "log_Truncate from l = (if from < length l then take from l else l)"

definition log_Slice :: "nat \<Rightarrow> nat \<Rightarrow> raft_log \<Rightarrow> LogEntry list" where
  "log_Slice start stop l =
     (let start = (if start < 1 then 1 else start);
          stop = (if stop > length l then length l else stop)
      in if start \<ge> stop then [] else take (stop - start) (drop start l))"

section \<open>Messages\<close>

record AppendEntriesRequest =
  ae_Term :: nat
  ae_LeaderID :: nat
  ae_PrevLogIndex :: nat
  ae_PrevLogTerm :: nat
  ae_Entries :: "LogEntry list"
  ae_LeaderCommit :: nat

record AppendEntriesResponse =
  aer_Term :: nat
  aer_Success :: bool
  aer_LastIndex :: nat

record RequestVoteRequest =
  rv_Term :: nat
  rv_CandidateID :: nat
  rv_LastLogIndex :: nat
  rv_LastLogTerm :: nat

record RequestVoteResponse =
  rvr_Term :: nat
  rvr_VoteGranted :: bool

datatype rpc = AE AppendEntriesRequest | AER AppendEntriesResponse | RV RequestVoteRequest | RVR RequestVoteResponse

section \<open>The state of a node\<close>

datatype raft_role = Follower | Candidate | Leader

fun State_String :: "raft_role \<Rightarrow> gostring" where
  "State_String Follower = ''Follower''"
| "State_String Candidate = ''Candidate''"
| "State_String Leader = ''Leader''"

record raft_config =
  NodeID :: nat
  Peers :: "gostring list"
  HeartbeatInterval :: int
  ElectionTimeout :: int
  CommitTimeout :: int
  MaxLogEntries :: int

definition DefaultConfig :: raft_config where
  "DefaultConfig = \<lparr>NodeID = 0, Peers = [], HeartbeatInterval = 100000000, ElectionTimeout = 500000000,
     CommitTimeout = 50000000, MaxLogEntries = 10000\<rparr>"

record ApplyMsg =
  am_Index :: nat
  am_Command :: bytes

record raft =
  r_config :: raft_config
  currentTerm :: nat
  votedFor :: nat
  r_log :: raft_log
  commitIndex :: nat
  lastApplied :: nat
  r_state :: raft_role
  leaderID :: nat
  nextIndex :: "(nat, nat) gomap"
  matchIndex :: "(nat, nat) gomap"
  proposeCh :: "bytes list"
  applyCh :: "ApplyMsg list"
  votesReceived :: nat
  votesNeeded :: nat

definition NewRaft :: "raft_config \<Rightarrow> raft" where
  "NewRaft cfg = \<lparr>r_config = cfg, currentTerm = 0, votedFor = 0, r_log = NewLog, commitIndex = 0, lastApplied = 0,
     r_state = Follower, leaderID = 0, nextIndex = [], matchIndex = [], proposeCh = [], applyCh = [],
     votesReceived = 0, votesNeeded = 0\<rparr>"

definition Raft_Propose :: "bytes \<Rightarrow> raft \<Rightarrow> raft \<times> bool" where
  "Raft_Propose cmd r =
     (if r_state r \<noteq> Leader then (r, False)
      else if length (proposeCh r) < 64 then (r\<lparr>proposeCh := proposeCh r @ [cmd]\<rparr>, True)
      else (r, False))"

section \<open>Transitions\<close>

definition becomeFollower :: "nat \<Rightarrow> raft \<Rightarrow> raft" where
  "becomeFollower term r =
     (let r = (if term > currentTerm r then r\<lparr>currentTerm := term, votedFor := 0\<rparr> else r)
      in r\<lparr>r_state := Follower, leaderID := 0\<rparr>)"

definition becomeCandidate :: "raft \<Rightarrow> raft" where
  "becomeCandidate r = r\<lparr>r_state := Candidate, currentTerm := w64 (currentTerm r + 1), votedFor := NodeID (r_config r),
     votesReceived := 1, votesNeeded := length (Peers (r_config r)) div 2 + 1\<rparr>"

definition other_peers :: "raft_config \<Rightarrow> nat list" where
  "other_peers cfg = filter (\<lambda>pid. pid \<noteq> NodeID cfg) (map (\<lambda>i. i + 1) [0..<length (Peers cfg)])"

definition becomeLeader :: "raft \<Rightarrow> raft" where
  "becomeLeader r =
     (let (lastIdx, _) = log_Last (r_log r)
      in r\<lparr>r_state := Leader, leaderID := NodeID (r_config r),
           nextIndex := map (\<lambda>pid. (pid, w64 (lastIdx + 1))) (other_peers (r_config r)),
           matchIndex := map (\<lambda>pid. (pid, 0)) (other_peers (r_config r))\<rparr>)"

section \<open>Commit and apply\<close>

function applyCommitted :: "raft \<Rightarrow> raft" where
  "applyCommitted r =
     (if lastApplied r < commitIndex r
      then applyCommitted
        (let i = lastApplied r + 1; r = r\<lparr>lastApplied := i\<rparr>
         in (case log_Get i (r_log r) of
               Some ent \<Rightarrow> r\<lparr>applyCh := applyCh r @ [\<lparr>am_Index = le_Index ent, am_Command = le_Command ent\<rparr>]\<rparr>
             | None \<Rightarrow> r))
      else r)"
  by auto
termination
  by (relation "measure (\<lambda>r. commitIndex r - lastApplied r)") (auto simp: Let_def split: option.splits)

definition match_count :: "nat \<Rightarrow> raft \<Rightarrow> nat" where
  "match_count n r = 1 + length (filter (\<lambda>(_, idx). idx \<ge> n) (matchIndex r))"

function advance_loop :: "nat \<Rightarrow> raft \<Rightarrow> raft" where
  "advance_loop n r =
     (case log_Get n (r_log r) of
        None \<Rightarrow> r
      | Some ent \<Rightarrow>
          if le_Term ent \<noteq> currentTerm r then advance_loop (n + 1) r
          else if match_count n r > length (Peers (r_config r)) div 2 then advance_loop (n + 1) (r\<lparr>commitIndex := n\<rparr>)
          else r)"
  by auto
termination
  by (relation "measure (\<lambda>(n, r). length (r_log r) - n)") (auto simp: log_Get_def split: if_splits)

declare applyCommitted.simps [simp del] advance_loop.simps [simp del]

definition advanceCommitIndex :: "raft \<Rightarrow> raft" where
  "advanceCommitIndex r =
     (if r_state r \<noteq> Leader then r else applyCommitted (advance_loop (w64 (commitIndex r + 1)) r))"

section \<open>Replication\<close>

definition sendAppendEntriesTo :: "nat \<Rightarrow> raft \<Rightarrow> (nat \<times> rpc) list" where
  "sendAppendEntriesTo peer r =
     (case map_of (nextIndex r) peer of
        None \<Rightarrow> []
      | Some next_ \<Rightarrow>
          let prevIdx = w64_dec next_;
              prevTerm = (if prevIdx > 0 then (case log_Get prevIdx (r_log r) of Some ent \<Rightarrow> le_Term ent | None \<Rightarrow> 0) else 0);
              entries = log_Slice next_ (w64 (next_ + 100)) (r_log r)
          in [(peer, AE \<lparr>ae_Term = currentTerm r, ae_LeaderID = NodeID (r_config r), ae_PrevLogIndex = prevIdx,
                 ae_PrevLogTerm = prevTerm, ae_Entries = entries, ae_LeaderCommit = commitIndex r\<rparr>)])"

definition broadcastAppendEntries :: "raft \<Rightarrow> (nat \<times> rpc) list" where
  "broadcastAppendEntries r = concat (map (\<lambda>pid. sendAppendEntriesTo pid r) (other_peers (r_config r)))"

definition handleHeartbeatTimeout :: "raft \<Rightarrow> raft \<times> (nat \<times> rpc) list" where
  "handleHeartbeatTimeout r = (if r_state r \<noteq> Leader then (r, []) else (r, broadcastAppendEntries r))"

definition handlePropose :: "bytes \<Rightarrow> raft \<Rightarrow> raft \<times> (nat \<times> rpc) list" where
  "handlePropose cmd r =
     (if r_state r \<noteq> Leader then (r, [])
      else let (lastIdx, _) = log_Last (r_log r);
               entry = \<lparr>le_Index = w64 (lastIdx + 1), le_Term = currentTerm r, le_Command = cmd\<rparr>;
               r = r\<lparr>r_log := log_Append [entry] (r_log r)\<rparr>
           in (advanceCommitIndex r, broadcastAppendEntries r))"

section \<open>Elections\<close>

definition broadcastRequestVote :: "raft \<Rightarrow> (nat \<times> rpc) list" where
  "broadcastRequestVote r =
     (let (lastIdx, lastTerm) = log_Last (r_log r)
      in map (\<lambda>pid. (pid, RV \<lparr>rv_Term = currentTerm r, rv_CandidateID = NodeID (r_config r),
               rv_LastLogIndex = lastIdx, rv_LastLogTerm = lastTerm\<rparr>)) (other_peers (r_config r)))"

definition handleElectionTimeout :: "raft \<Rightarrow> raft \<times> (nat \<times> rpc) list" where
  "handleElectionTimeout r =
     (if r_state r = Leader then (r, [])
      else let r = becomeCandidate r in (r, broadcastRequestVote r))"

section \<open>Message handlers\<close>

definition prev_ok :: "AppendEntriesRequest \<Rightarrow> raft_log \<Rightarrow> bool" where
  "prev_ok req l \<longleftrightarrow> ae_PrevLogIndex req = 0 \<or>
     (case log_Get (ae_PrevLogIndex req) l of None \<Rightarrow> False | Some entry \<Rightarrow> le_Term entry = ae_PrevLogTerm req)"

definition handleAppendEntries :: "AppendEntriesRequest \<Rightarrow> raft \<Rightarrow> raft \<times> AppendEntriesResponse" where
  "handleAppendEntries req r =
     (if ae_Term req < currentTerm r
      then (r, \<lparr>aer_Term = currentTerm r, aer_Success = False, aer_LastIndex = 0\<rparr>)
      else
        let r = (if ae_Term req > currentTerm r then becomeFollower (ae_Term req) r else r);
            r = r\<lparr>leaderID := ae_LeaderID req, r_state := Follower\<rparr>
        in if \<not> prev_ok req (r_log r)
           then (r, \<lparr>aer_Term = currentTerm r, aer_Success = False, aer_LastIndex = 0\<rparr>)
           else
             let r = (if ae_Entries req \<noteq> []
                      then r\<lparr>r_log := log_Append (ae_Entries req) (log_Truncate (w64 (ae_PrevLogIndex req + 1)) (r_log r))\<rparr>
                      else r);
                 r = (if ae_LeaderCommit req > commitIndex r
                      then applyCommitted (r\<lparr>commitIndex := min (ae_LeaderCommit req) (fst (log_Last (r_log r)))\<rparr>)
                      else r)
             in (r, \<lparr>aer_Term = currentTerm r, aer_Success = True,
                      aer_LastIndex = w64 (ae_PrevLogIndex req + length (ae_Entries req))\<rparr>))"

definition handleAppendEntriesResponse :: "nat \<Rightarrow> AppendEntriesResponse \<Rightarrow> raft \<Rightarrow> raft \<times> (nat \<times> rpc) list" where
  "handleAppendEntriesResponse from resp r =
     (if aer_Term resp > currentTerm r then (becomeFollower (aer_Term resp) r, [])
      else if aer_Term resp < currentTerm r \<or> r_state r \<noteq> Leader then (r, [])
      else if aer_Success resp then
        let r = (if aer_LastIndex resp > the_default 0 (map_of (matchIndex r) from)
                 then r\<lparr>matchIndex := AList.update from (aer_LastIndex resp) (matchIndex r),
                        nextIndex := AList.update from (w64 (aer_LastIndex resp + 1)) (nextIndex r)\<rparr>
                 else r)
        in (advanceCommitIndex r, [])
      else
        let r = (if the_default 0 (map_of (nextIndex r) from) > 1
                 then r\<lparr>nextIndex := AList.update from (the_default 0 (map_of (nextIndex r) from) - 1) (nextIndex r)\<rparr>
                 else r)
        in (r, sendAppendEntriesTo from r))"

definition handleRequestVote :: "RequestVoteRequest \<Rightarrow> raft \<Rightarrow> raft \<times> RequestVoteResponse" where
  "handleRequestVote req r =
     (if rv_Term req < currentTerm r then (r, \<lparr>rvr_Term = currentTerm r, rvr_VoteGranted = False\<rparr>)
      else
        let r = (if rv_Term req > currentTerm r then becomeFollower (rv_Term req) r else r);
            (lastIdx, lastTerm) = log_Last (r_log r);
            logOK = (rv_LastLogTerm req > lastTerm \<or> rv_LastLogTerm req = lastTerm \<and> rv_LastLogIndex req \<ge> lastIdx)
        in if (votedFor r = 0 \<or> votedFor r = rv_CandidateID req) \<and> logOK
           then (let r = r\<lparr>votedFor := rv_CandidateID req\<rparr> in (r, \<lparr>rvr_Term = currentTerm r, rvr_VoteGranted = True\<rparr>))
           else (r, \<lparr>rvr_Term = currentTerm r, rvr_VoteGranted = False\<rparr>))"

definition handleRequestVoteResponse :: "RequestVoteResponse \<Rightarrow> raft \<Rightarrow> raft" where
  "handleRequestVoteResponse resp r =
     (if rvr_Term resp > currentTerm r then becomeFollower (rvr_Term resp) r
      else if rvr_Term resp < currentTerm r \<or> r_state r \<noteq> Candidate then r
      else if rvr_VoteGranted resp then
        let r = r\<lparr>votesReceived := votesReceived r + 1\<rparr>
        in if votesReceived r \<ge> votesNeeded r then becomeLeader r else r
      else r)"

fun handleRPC :: "nat \<Rightarrow> rpc \<Rightarrow> raft \<Rightarrow> raft \<times> (nat \<times> rpc) list \<times> rpc option" where
  "handleRPC from (AE req) r = (let (r, resp) = handleAppendEntries req r in (r, [], Some (AER resp)))"
| "handleRPC from (AER resp) r = (let (r, out) = handleAppendEntriesResponse from resp r in (r, out, None))"
| "handleRPC from (RV req) r = (let (r, resp) = handleRequestVote req r in (r, [], Some (RVR resp)))"
| "handleRPC from (RVR resp) r = (handleRequestVoteResponse resp r, [], None)"

end
