(* ===== verification/Server.thy ===== *)
theory Server
  imports Cache_Ext Proto_Hash Proto_List Raft
begin

text \<open>
  \<^verbatim>\<open>net/server.go\<close>, \<^verbatim>\<open>net/server_ext.go\<close> and \<^verbatim>\<open>net/raft_cmd.go\<close>: what the server does with one request frame.  A
  handler runs one cache operation, so the requests of all connections are interleaved at the granularity of a request; only
  a blocking pop looks at the cache several times, and \<open>se_others\<close> is what the other connections do in between.  The
  environment also gives the instants a blocking pop reads, the JSON of the server statistics, the text of a
  \<^verbatim>\<open>strconv\<close> error and, for a replicated write, how the proposal ends.  A panic closes the connection.
\<close>

section \<open>State and environment\<close>

datatype raft_outcome = RaftApplied | RaftRefused | RaftTimeout

record server_env =
  se_env :: env
  se_float :: "float64 float64_ops"
  se_strconv :: "num_error \<Rightarrow> gostring"
  se_stats :: bytes
  se_clock :: "nat \<Rightarrow> int"
  se_others :: "nat \<Rightarrow> cache \<Rightarrow> cache"
  se_raft :: raft_outcome

record server =
  sv_cache :: cache
  sv_raft :: "raft_role option"
  sv_raftNextReqID :: nat
  sv_totalRequests :: nat

definition NewServer :: "cache \<Rightarrow> server" where
  "NewServer c = \<lparr>sv_cache = c, sv_raft = None, sv_raftNextReqID = 0, sv_totalRequests = 0\<rparr>"

fun gerror_Error :: "server_env \<Rightarrow> gerror \<Rightarrow> gostring" where
  "gerror_Error se ErrKeyNotFound = ''key not found''"
| "gerror_Error se ErrKeyEmpty = ''key cannot be empty''"
| "gerror_Error se ErrValueNil = ''value cannot be nil''"
| "gerror_Error se ErrNegativeTTL = ''ttl cannot be negative''"
| "gerror_Error se ErrCacheClosed = ''cache is closed''"
| "gerror_Error se ErrInvalidShards = ''shard count must be power of two and >= 1''"
| "gerror_Error se ErrUnknownPolicy = ''unknown eviction policy''"
| "gerror_Error se ErrUnknownRehasher = ''unknown rehasher''"
| "gerror_Error se ErrFieldNotFound = ''field not found''"
| "gerror_Error se ErrIndexOutOfRange = ''index out of range''"
| "gerror_Error se ErrInvalidIncr = ''value is not an integer or float''"
| "gerror_Error se ErrNotLeader = ''not leader''"
| "gerror_Error se ErrRehashInProgress = ''rehash already in progress''"
| "gerror_Error se (ErrStrconv ne) = se_strconv se ne"

definition answering :: "('r \<Rightarrow> 'a) \<Rightarrow> (cache \<times> 'r) go \<Rightarrow> (cache \<times> 'a) go" where
  "answering f m = go_bind m (\<lambda>(c, r). Ret (c, f r))"

section \<open>Key-value requests\<close>

definition kv_ok :: "bytes \<Rightarrow> kv_response" where
  "kv_ok v = \<lparr>rs_Status = StatusOK, rs_Value = v, rs_ErrMsg = []\<rparr>"

definition kv_fail :: "gostring \<Rightarrow> kv_response" where
  "kv_fail msg = \<lparr>rs_Status = StatusErr, rs_Value = [], rs_ErrMsg = msg\<rparr>"

definition kv_answer :: "server_env \<Rightarrow> ('a \<Rightarrow> bytes) \<Rightarrow> 'a result \<Rightarrow> kv_response" where
  "kv_answer se f r = (case r of Inl err \<Rightarrow> kv_fail (gerror_Error se err) | Inr x \<Rightarrow> kv_ok (f x))"

definition flag_bytes :: "bool \<Rightarrow> bytes" where
  "flag_bytes b = [if b then 1 else 0]"

text \<open>An empty value arrives as nil.\<close>

definition wire_value :: "bytes \<Rightarrow> bytes option" where
  "wire_value v = (if v = [] then None else Some v)"

definition process_local :: "server_env \<Rightarrow> cache \<Rightarrow> kv_request \<Rightarrow> (cache \<times> kv_response) go" where
  "process_local se c req =
     (let cmd = rq_Cmd req; k = rq_Key req; ttl = rq_TTL req; e = se_env se in
      if cmd = CmdGet then
        answering (\<lambda>r. if r = Inl ErrKeyNotFound then \<lparr>rs_Status = StatusNotFound, rs_Value = [], rs_ErrMsg = []\<rparr>
                   else kv_answer se (\<lambda>v. v) r) (Cache_Get e c k)
      else if cmd = CmdSet then
        answering (kv_answer se (\<lambda>_. [])) (Cache_Set e c k (wire_value (rq_Value req)) [if ttl > 0 then i64 (ttl * 1000000) else 0])
      else if cmd = CmdDel then answering (kv_answer se (\<lambda>_. [])) (Cache_Del e c k)
      else if cmd = CmdLen then go_bind (Cache_Len e c) (\<lambda>n. Ret (c, kv_ok (be 8 (u64 n))))
      else if cmd = CmdCleanup then answering (\<lambda>n. kv_ok (be 8 (u64 n))) (Cleanup e c)
      else if cmd = CmdStats then Ret (c, kv_ok (se_stats se))
      else if cmd = CmdExists then answering (kv_answer se flag_bytes) (Cache_Exists e c k)
      else if cmd = CmdType then answering (kv_answer se (\<lambda>t. [t])) (Cache_Type e c k)
      else if cmd = CmdExpire then answering (kv_answer se flag_bytes) (Cache_Expire e c k (go_div ttl 1000))
      else if cmd = CmdExpireAt then answering (kv_answer se flag_bytes) (Cache_ExpireAt e c k (go_div ttl 1000))
      else if cmd = CmdPExpire then answering (kv_answer se flag_bytes) (Cache_PExpire e c k ttl)
      else if cmd = CmdPExpireAt then answering (kv_answer se flag_bytes) (Cache_PExpireAt e c k ttl)
      else if cmd = CmdTTL then answering (kv_answer se (\<lambda>n. be 8 (u64 n))) (Cache_TTL e c k)
      else if cmd = CmdPTTL then answering (kv_answer se (\<lambda>n. be 8 (u64 n))) (Cache_PTTL e c k)
      else if cmd = CmdPersist then answering (kv_answer se flag_bytes) (Cache_Persist e c k)
      else if cmd = CmdKeys then
        go_bind (Cache_Keys e c k) (\<lambda>r. Ret (c, kv_answer se (\<lambda>ks. be 4 (length ks) @ enc_strs 2 ks) r))
      else Ret (c, kv_fail ''invalid command''))"

section \<open>Set requests\<close>

definition set_blank :: "byte \<Rightarrow> byte \<Rightarrow> set_response" where
  "set_blank cmd st = \<lparr>sp_Cmd = cmd, sp_Status = st, sp_Changed = 0, sp_IsMember = False, sp_Card = 0, sp_Elems = [], sp_ErrMsg = []\<rparr>"

definition set_fail :: "byte \<Rightarrow> gostring \<Rightarrow> set_response" where
  "set_fail cmd msg = (set_blank cmd StatusErr)\<lparr>sp_ErrMsg := msg\<rparr>"

definition set_answer :: "server_env \<Rightarrow> byte \<Rightarrow> ('a \<Rightarrow> set_response \<Rightarrow> set_response) \<Rightarrow> 'a result \<Rightarrow> set_response" where
  "set_answer se cmd f r = (case r of Inl err \<Rightarrow> set_fail cmd (gerror_Error se err) | Inr x \<Rightarrow> f x (set_blank cmd StatusOK))"

definition set_elems :: "gostring list option \<Rightarrow> set_response \<Rightarrow> set_response" where
  "set_elems es r = r\<lparr>sp_Elems := the_default [] es\<rparr>"

definition processSet_local :: "server_env \<Rightarrow> cache \<Rightarrow> set_request \<Rightarrow> (cache \<times> set_response) go" where
  "processSet_local se c req =
     (let cmd = sq_Cmd req; k = sq_Key req; es = sq_Elems req; e = se_env se in
      if cmd = CmdSAdd then answering (set_answer se cmd (\<lambda>n r. r\<lparr>sp_Changed := u64 n\<rparr>)) (Cache_SAdd c k es)
      else if cmd = CmdSRem then answering (set_answer se cmd (\<lambda>n r. r\<lparr>sp_Changed := u64 n\<rparr>)) (Cache_SRem c k es)
      else if cmd = CmdSIsMember then
        answering (set_answer se cmd (\<lambda>b r. r\<lparr>sp_IsMember := b\<rparr>)) (Cache_SIsMember c k (case es of x # _ \<Rightarrow> x | [] \<Rightarrow> []))
      else if cmd = CmdSMembers then answering (set_answer se cmd set_elems) (Cache_SMembers e c k)
      else if cmd = CmdSCard then answering (set_answer se cmd (\<lambda>n r. r\<lparr>sp_Card := u64 n\<rparr>)) (Cache_SCard c k)
      else if cmd = CmdSPop then
        answering (\<lambda>x. if x = Inl ErrKeyNotFound then set_blank cmd StatusNotFound
                   else set_answer se cmd (\<lambda>el r. r\<lparr>sp_Elems := [el]\<rparr>) x) (Cache_SPop e c k)
      else if cmd = CmdSRandMember then answering (set_answer se cmd set_elems) (Cache_SRandMember e c k (sq_Count req))
      else if cmd = CmdSUnion then Ret (c, set_answer se cmd set_elems (Cache_SUnion e c (sq_Keys req)))
      else if cmd = CmdSInter then Ret (c, set_answer se cmd set_elems (Cache_SInter e c (sq_Keys req)))
      else if cmd = CmdSDiff then Ret (c, set_answer se cmd set_elems (Cache_SDiff e c (sq_Keys req)))
      else Ret (c, set_fail cmd ''invalid command''))"

section \<open>Hash requests\<close>

definition hash_blank :: "byte \<Rightarrow> byte \<Rightarrow> hash_response" where
  "hash_blank cmd st = \<lparr>hp_Cmd = cmd, hp_Status = st, hp_IntResult = 0, hp_BoolResult = False, hp_StrResult = [],
     hp_MapResult = [], hp_SliceResult = [], hp_AnySlice = [], hp_FloatResult = 0, hp_ErrMsg = []\<rparr>"

definition hash_fail :: "byte \<Rightarrow> gostring \<Rightarrow> hash_response" where
  "hash_fail cmd msg = (hash_blank cmd StatusErr)\<lparr>hp_ErrMsg := msg\<rparr>"

definition hash_answer :: "server_env \<Rightarrow> byte \<Rightarrow> ('a \<Rightarrow> hash_response \<Rightarrow> hash_response) \<Rightarrow> 'a result \<Rightarrow> hash_response" where
  "hash_answer se cmd f r = (case r of Inl err \<Rightarrow> hash_fail cmd (gerror_Error se err) | Inr x \<Rightarrow> f x (hash_blank cmd StatusOK))"

definition hash_lookup :: "server_env \<Rightarrow> byte \<Rightarrow> ('a \<Rightarrow> hash_response \<Rightarrow> hash_response) \<Rightarrow> 'a result \<Rightarrow> hash_response" where
  "hash_lookup se cmd f r =
     (case r of Inl ErrKeyNotFound \<Rightarrow> hash_blank cmd StatusNotFound | _ \<Rightarrow> hash_answer se cmd f r)"

definition processHash_local :: "server_env \<Rightarrow> cache \<Rightarrow> hash_request \<Rightarrow> (cache \<times> hash_response) go" where
  "processHash_local se c req =
     (let cmd = hq_Cmd req; k = hq_Key req; f = hq_Field req; e = se_env se in
      if cmd = CmdHSet then answering (hash_answer se cmd (\<lambda>n r. r\<lparr>hp_IntResult := n\<rparr>)) (Cache_HSet c k f (hq_Value req))
      else if cmd = CmdHSetNX then answering (hash_answer se cmd (\<lambda>b r. r\<lparr>hp_BoolResult := b\<rparr>)) (Cache_HSetNX c k f (hq_Value req))
      else if cmd = CmdHGet then answering (hash_lookup se cmd (\<lambda>v r. r\<lparr>hp_StrResult := v\<rparr>)) (Cache_HGet c k f)
      else if cmd = CmdHDel then answering (hash_answer se cmd (\<lambda>n r. r\<lparr>hp_IntResult := n\<rparr>)) (Cache_HDel c k (hq_Fields req))
      else if cmd = CmdHExists then answering (hash_answer se cmd (\<lambda>b r. r\<lparr>hp_BoolResult := b\<rparr>)) (Cache_HExists c k f)
      else if cmd = CmdHGetAll then answering (hash_lookup se cmd (\<lambda>m r. r\<lparr>hp_MapResult := m\<rparr>)) (Cache_HGetAll c k)
      else if cmd = CmdHKeys then answering (hash_lookup se cmd (\<lambda>ks r. r\<lparr>hp_SliceResult := ks\<rparr>)) (Cache_HKeys e c k)
      else if cmd = CmdHVals then answering (hash_lookup se cmd (\<lambda>vs r. r\<lparr>hp_SliceResult := vs\<rparr>)) (Cache_HVals e c k)
      else if cmd = CmdHLen then answering (hash_answer se cmd (\<lambda>n r. r\<lparr>hp_IntResult := n\<rparr>)) (Cache_HLen c k)
      else if cmd = CmdHStrLen then answering (hash_answer se cmd (\<lambda>n r. r\<lparr>hp_IntResult := n\<rparr>)) (Cache_HStrLen c k f)
      else if cmd = CmdHIncrBy then
        answering (hash_answer se cmd (\<lambda>n r. r\<lparr>hp_IntResult := n\<rparr>)) (Cache_HIncrBy c k f (hq_DeltaI64 req))
      else if cmd = CmdHIncrByFloat then
        answering (hash_answer se cmd (\<lambda>x r. r\<lparr>hp_FloatResult := x\<rparr>)) (Cache_HIncrByFloat (se_float se) c k f (hq_DeltaF64 req))
      else if cmd = CmdHMGet then answering (hash_answer se cmd (\<lambda>vs r. r\<lparr>hp_AnySlice := vs\<rparr>)) (Cache_HMGet c k (hq_Fields req))
      else if cmd = CmdHMSet then answering (hash_answer se cmd (\<lambda>_ r. r)) (Cache_HMSet c k (hq_FvPairs req))
      else Ret (c, hash_fail cmd ''invalid command''))"

section \<open>List requests\<close>

definition list_blank :: "byte \<Rightarrow> byte \<Rightarrow> list_response" where
  "list_blank cmd st = \<lparr>lp_Cmd = cmd, lp_Status = st, lp_IntResult = 0, lp_BoolResult = False, lp_StrResult = [],
     lp_SliceResult = [], lp_PosResult = [], lp_ErrMsg = []\<rparr>"

definition list_fail :: "byte \<Rightarrow> gostring \<Rightarrow> list_response" where
  "list_fail cmd msg = (list_blank cmd StatusErr)\<lparr>lp_ErrMsg := msg\<rparr>"

definition list_answer :: "server_env \<Rightarrow> byte \<Rightarrow> ('a \<Rightarrow> list_response \<Rightarrow> list_response) \<Rightarrow> 'a result \<Rightarrow> list_response" where
  "list_answer se cmd f r = (case r of Inl err \<Rightarrow> list_fail cmd (gerror_Error se err) | Inr x \<Rightarrow> f x (list_blank cmd StatusOK))"

definition list_lookup :: "server_env \<Rightarrow> byte \<Rightarrow> ('a \<Rightarrow> list_response \<Rightarrow> list_response) \<Rightarrow> 'a result \<Rightarrow> list_response" where
  "list_lookup se cmd f r =
     (case r of Inl ErrKeyNotFound \<Rightarrow> list_blank cmd StatusNotFound | _ \<Rightarrow> list_answer se cmd f r)"

text \<open>The polling loop of a blocking pop.  It may run forever, so not returning is \<^term>\<open>None\<close>.\<close>

partial_function (option) poll_loop ::
  "(cache \<Rightarrow> (cache \<times> gostring result) go) \<Rightarrow> server_env \<Rightarrow> int \<Rightarrow> nat \<Rightarrow> cache \<Rightarrow> (cache \<times> gostring option) go option" where
  "poll_loop pop se deadline i c =
     (case pop c of
        Panic \<Rightarrow> Some Panic
      | Ret (c, Inr elem) \<Rightarrow> Some (Ret (c, Some elem))
      | Ret (c, Inl err) \<Rightarrow>
          if se_clock se i > deadline then Some (Ret (c, None))
          else poll_loop pop se deadline (Suc i) (se_others se i c))"

definition blocking_pop ::
  "(cache \<Rightarrow> (cache \<times> gostring result) go) \<Rightarrow> server_env \<Rightarrow> cache \<Rightarrow> list_request \<Rightarrow> (cache \<times> list_response) go option" where
  "blocking_pop pop se c req =
     (let cmd = lq_Cmd req in
      if lq_Timeout req > 0 then
        map_option (answering (\<lambda>x. case x of Some elem \<Rightarrow> (list_blank cmd StatusOK)\<lparr>lp_StrResult := elem\<rparr> | None \<Rightarrow> list_blank cmd StatusNotFound))
          (poll_loop pop se (e_now (se_env se) + i64 (lq_Timeout req * 1000000)) 0 c)
      else Some (answering (list_lookup se cmd (\<lambda>v r. r\<lparr>lp_StrResult := v\<rparr>)) (pop c)))"

definition processList_local :: "server_env \<Rightarrow> cache \<Rightarrow> list_request \<Rightarrow> (cache \<times> list_response) go option" where
  "processList_local se c req =
     (let cmd = lq_Cmd req; k = lq_Key req; v = lq_Value req;
          as_int = list_answer se cmd (\<lambda>n r. r\<lparr>lp_IntResult := n\<rparr>);
          as_str = list_lookup se cmd (\<lambda>x r. r\<lparr>lp_StrResult := x\<rparr>)
      in
      if cmd = CmdLPush then Some (answering as_int (Cache_LPush c k (lq_Elements req)))
      else if cmd = CmdRPush then Some (answering as_int (Cache_RPush c k (lq_Elements req)))
      else if cmd = CmdLPop then Some (answering as_str (Cache_LPop c k))
      else if cmd = CmdRPop then Some (answering as_str (Cache_RPop c k))
      else if cmd = CmdLLen then Some (answering as_int (Cache_LLen c k))
      else if cmd = CmdLRange then
        Some (answering (list_lookup se cmd (\<lambda>es r. r\<lparr>lp_SliceResult := es\<rparr>)) (Cache_LRange c k (lq_Start req) (lq_Stop req)))
      else if cmd = CmdLIndex then Some (answering as_str (Cache_LIndex c k (lq_Index req)))
      else if cmd = CmdLSet then
        Some (answering (list_lookup se cmd (\<lambda>_ r. r\<lparr>lp_BoolResult := True\<rparr>)) (Cache_LSet c k (lq_Index req) v))
      else if cmd = CmdLRem then Some (answering as_int (Cache_LRem c k (lq_Count req) v))
      else if cmd = CmdLTrim then Some (answering (list_answer se cmd (\<lambda>_ r. r)) (Cache_LTrim c k (lq_Start req) (lq_Stop req)))
      else if cmd = CmdLInsert then Some (answering as_int (Cache_LInsert c k (lq_Before req) (lq_Pivot req) v))
      else if cmd = CmdBLPop then blocking_pop (\<lambda>c. Cache_LPop c k) se c req
      else if cmd = CmdBRPop then blocking_pop (\<lambda>c. Cache_RPop c k) se c req
      else if cmd = CmdLPos then
        Some (answering (list_answer se cmd (\<lambda>ps r. r\<lparr>lp_PosResult := ps\<rparr>))
          (Cache_LPos c k v (lq_Rank req) (lq_Count req) (lq_MaxLen req)))
      else Some (Ret (c, list_fail cmd ''invalid command'')))"

section \<open>Replicated writes\<close>

record raft_command =
  rc_ReqID :: nat
  rc_Op :: byte
  rc_Key :: gostring
  rc_Value :: bytes
  rc_TTL :: int
  rc_Field :: gostring
  rc_Fields :: "gostring list"
  rc_FvPairs :: "gostring list"
  rc_DeltaI64 :: int
  rc_DeltaF64 :: float64
  rc_Elems :: "gostring list"
  rc_Index :: int
  rc_Start :: int
  rc_Stop :: int
  rc_Count :: int
  rc_Pivot :: gostring
  rc_Before :: bool

record raft_result =
  rr_err :: "gerror option"
  rr_unsupported :: bool
  rr_int :: int
  rr_bool :: bool
  rr_str :: gostring
  rr_float :: float64

definition raft_command_of :: "byte \<Rightarrow> gostring \<Rightarrow> raft_command" where
  "raft_command_of op k = \<lparr>rc_ReqID = 0, rc_Op = op, rc_Key = k, rc_Value = [], rc_TTL = 0, rc_Field = [], rc_Fields = [], rc_FvPairs = [],
     rc_DeltaI64 = 0, rc_DeltaF64 = 0, rc_Elems = [], rc_Index = 0, rc_Start = 0, rc_Stop = 0, rc_Count = 0, rc_Pivot = [], rc_Before = False\<rparr>"

definition isRaftWriteOp :: "byte \<Rightarrow> bool" where
  "isRaftWriteOp cmd \<longleftrightarrow> cmd \<in> {CmdSet, CmdDel, CmdCleanup, CmdSAdd, CmdSRem, CmdSPop,
     CmdHSet, CmdHSetNX, CmdHDel, CmdHMSet, CmdHIncrBy, CmdHIncrByFloat,
     CmdLPush, CmdRPush, CmdLPop, CmdRPop, CmdLSet, CmdLRem, CmdLTrim, CmdLInsert}"

text \<open>
  A command travels as JSON.  The encoder replaces every byte of a string that is not part of a valid UTF-8 sequence by
  U+FFFD; \<open>utf8_len\<close> is the length of the sequence at the start of a string, 0 if it is not valid.  Byte slices travel in
  base 64, numbers exactly, except that the field of a negative zero is left out; NaN and infinities are refused.
\<close>

definition in_range :: "nat \<Rightarrow> nat \<Rightarrow> char \<Rightarrow> bool" where
  "in_range lo hi c \<longleftrightarrow> lo \<le> (of_char c :: nat) \<and> (of_char c :: nat) \<le> hi"

fun utf8_len :: "gostring \<Rightarrow> nat" where
  "utf8_len (a # b # c # d # r) =
     (if in_range 0 127 a then 1
      else if in_range 194 223 a then (if in_range 128 191 b then 2 else 0)
      else if in_range 224 239 a then
        (if in_range (if in_range 224 224 a then 160 else 128) (if in_range 237 237 a then 159 else 191) b \<and> in_range 128 191 c then 3 else 0)
      else if in_range 240 244 a then
        (if in_range (if in_range 240 240 a then 144 else 128) (if in_range 244 244 a then 143 else 191) b
            \<and> in_range 128 191 c \<and> in_range 128 191 d then 4 else 0)
      else 0)"
| "utf8_len [a, b, c] =
     (if in_range 0 127 a then 1
      else if in_range 194 223 a then (if in_range 128 191 b then 2 else 0)
      else if in_range 224 239 a then
        (if in_range (if in_range 224 224 a then 160 else 128) (if in_range 237 237 a then 159 else 191) b \<and> in_range 128 191 c then 3 else 0)
      else 0)"
| "utf8_len [a, b] =
     (if in_range 0 127 a then 1 else if in_range 194 223 a then (if in_range 128 191 b then 2 else 0) else 0)"
| "utf8_len [a] = (if in_range 0 127 a then 1 else 0)"
| "utf8_len [] = 0"

function json_string :: "gostring \<Rightarrow> gostring" where
  "json_string s =
     (if s = [] then []
      else if utf8_len s = 0 then map char_of [239, 191, 189 :: nat] @ json_string (drop 1 s)
      else take (utf8_len s) s @ json_string (drop (utf8_len s) s))"
  by auto
termination
  by (relation "measure length") auto

declare json_string.simps [simp del]

definition json_float :: "server_env \<Rightarrow> float64 \<Rightarrow> gostring + float64" where
  "json_float se x =
     (if uint x div 2 ^ 52 mod 2 ^ 11 = 2047 then Inl (''json: unsupported value: '' @ FormatFloat (se_float se) x)
      else if uint x = 2 ^ 63 then Inr 0 else Inr x)"

definition json_command :: "server_env \<Rightarrow> raft_command \<Rightarrow> gostring + raft_command" where
  "json_command se rc =
     (case json_float se (rc_DeltaF64 rc) of
        Inl err \<Rightarrow> Inl err
      | Inr x \<Rightarrow> Inr (rc\<lparr>rc_Key := json_string (rc_Key rc), rc_Field := json_string (rc_Field rc),
            rc_Fields := map json_string (rc_Fields rc), rc_FvPairs := map json_string (rc_FvPairs rc), rc_DeltaF64 := x,
            rc_Elems := map json_string (rc_Elems rc), rc_Pivot := json_string (rc_Pivot rc)\<rparr>))"

definition raft_none :: raft_result where
  "raft_none = \<lparr>rr_err = None, rr_unsupported = False, rr_int = 0, rr_bool = False, rr_str = [], rr_float = 0\<rparr>"

definition raft_res :: "('a \<Rightarrow> raft_result \<Rightarrow> raft_result) \<Rightarrow> 'a result \<Rightarrow> raft_result" where
  "raft_res f r = (case r of Inl err \<Rightarrow> raft_none\<lparr>rr_err := Some err\<rparr> | Inr x \<Rightarrow> f x raft_none)"

definition onRaftApply :: "server_env \<Rightarrow> cache \<Rightarrow> raft_command \<Rightarrow> (cache \<times> raft_result) go" where
  "onRaftApply se c rc =
     (let op = rc_Op rc; k = rc_Key rc; e = se_env se; v = bytes_str (rc_Value rc);
          as_int = raft_res (\<lambda>n r. r\<lparr>rr_int := n\<rparr>); as_bool = raft_res (\<lambda>b r. r\<lparr>rr_bool := b\<rparr>);
          as_str = raft_res (\<lambda>x r. r\<lparr>rr_str := x\<rparr>); as_none = raft_res (\<lambda>_ r. r)
      in
      if op = CmdSet then
        answering as_none (Cache_Set e c k (wire_value (rc_Value rc)) [if rc_TTL rc > 0 then i64 (rc_TTL rc * 1000000) else 0])
      else if op = CmdDel then answering as_none (Cache_Del e c k)
      else if op = CmdCleanup then answering (\<lambda>_. raft_none) (Cleanup e c)
      else if op = CmdHSet then answering as_int (Cache_HSet c k (rc_Field rc) v)
      else if op = CmdHSetNX then answering as_bool (Cache_HSetNX c k (rc_Field rc) v)
      else if op = CmdHDel then answering as_int (Cache_HDel c k (rc_Fields rc))
      else if op = CmdHIncrBy then answering as_int (Cache_HIncrBy c k (rc_Field rc) (rc_DeltaI64 rc))
      else if op = CmdHIncrByFloat then
        answering (raft_res (\<lambda>x r. r\<lparr>rr_float := x\<rparr>)) (Cache_HIncrByFloat (se_float se) c k (rc_Field rc) (rc_DeltaF64 rc))
      else if op = CmdHMSet then answering as_none (Cache_HMSet c k (rc_FvPairs rc))
      else if op = CmdLPush then answering as_int (Cache_LPush c k (rc_Elems rc))
      else if op = CmdRPush then answering as_int (Cache_RPush c k (rc_Elems rc))
      else if op = CmdLPop then answering as_str (Cache_LPop c k)
      else if op = CmdRPop then answering as_str (Cache_RPop c k)
      else if op = CmdLSet then answering as_none (Cache_LSet c k (rc_Index rc) v)
      else if op = CmdLRem then answering as_int (Cache_LRem c k (rc_Count rc) v)
      else if op = CmdLTrim then answering as_none (Cache_LTrim c k (rc_Start rc) (rc_Stop rc))
      else if op = CmdLInsert then answering as_int (Cache_LInsert c k (rc_Before rc) (rc_Pivot rc) v)
      else if op = CmdSAdd then answering as_int (Cache_SAdd c k (rc_Elems rc))
      else if op = CmdSRem then answering as_int (Cache_SRem c k (rc_Elems rc))
      else if op = CmdSPop then answering as_str (Cache_SPop e c k)
      else Ret (c, raft_none\<lparr>rr_unsupported := True\<rparr>))"

subsection \<open>Proposing\<close>

definition raftPropose :: "server_env \<Rightarrow> server \<Rightarrow> raft_command \<Rightarrow> (server \<times> (gostring + raft_result)) go" where
  "raftPropose se s rc =
     (if sv_raft s = None then Ret (s, Inl ''raft not initialized'')
      else if sv_raft s \<noteq> Some Leader then Ret (s, Inl ''not leader'')
      else
        let id = w64 (sv_raftNextReqID s + 1); s = s\<lparr>sv_raftNextReqID := id\<rparr>
        in case json_command se (rc\<lparr>rc_ReqID := id\<rparr>) of
             Inl err \<Rightarrow> Ret (s, Inl err)
           | Inr rc \<Rightarrow>
               (case se_raft se of
                  RaftRefused \<Rightarrow> Ret (s, Inl ''raft propose failed'')
                | RaftTimeout \<Rightarrow> Ret (s, Inl ''raft apply timeout'')
                | RaftApplied \<Rightarrow> go_bind (onRaftApply se (sv_cache s) rc) (\<lambda>(c, res). Ret (s\<lparr>sv_cache := c\<rparr>, Inr res))))"

definition raft_error :: "server_env \<Rightarrow> raft_command \<Rightarrow> raft_result \<Rightarrow> gostring option" where
  "raft_error se rc res =
     (if rr_unsupported res then Some (''unsupported raft op: '' @ FormatInt (uint (rc_Op rc)))
      else map_option (gerror_Error se) (rr_err res))"

definition hashReqToRaft :: "hash_request \<Rightarrow> raft_command" where
  "hashReqToRaft req =
     (let cmd = hq_Cmd req; rc = (raft_command_of cmd (hq_Key req))\<lparr>rc_Field := hq_Field req\<rparr> in
      if cmd \<in> {CmdHSet, CmdHSetNX} then rc\<lparr>rc_Value := str_bytes (hq_Value req)\<rparr>
      else if cmd = CmdHDel then rc\<lparr>rc_Fields := hq_Fields req\<rparr>
      else if cmd = CmdHIncrBy then rc\<lparr>rc_DeltaI64 := hq_DeltaI64 req\<rparr>
      else if cmd = CmdHIncrByFloat then rc\<lparr>rc_DeltaF64 := hq_DeltaF64 req\<rparr>
      else if cmd = CmdHMSet then rc\<lparr>rc_FvPairs := hq_FvPairs req\<rparr>
      else rc)"

definition listReqToRaft :: "list_request \<Rightarrow> raft_command" where
  "listReqToRaft req =
     (let cmd = lq_Cmd req; rc = raft_command_of cmd (lq_Key req); v = str_bytes (lq_Value req) in
      if cmd \<in> {CmdLPush, CmdRPush} then rc\<lparr>rc_Elems := lq_Elements req\<rparr>
      else if cmd = CmdLSet then rc\<lparr>rc_Index := lq_Index req, rc_Value := v\<rparr>
      else if cmd = CmdLRem then rc\<lparr>rc_Count := lq_Count req, rc_Value := v\<rparr>
      else if cmd = CmdLTrim then rc\<lparr>rc_Start := lq_Start req, rc_Stop := lq_Stop req\<rparr>
      else if cmd = CmdLInsert then rc\<lparr>rc_Before := lq_Before req, rc_Pivot := lq_Pivot req, rc_Value := v\<rparr>
      else rc)"

definition setReqToRaft :: "set_request \<Rightarrow> raft_command" where
  "setReqToRaft req =
     (let cmd = sq_Cmd req; rc = raft_command_of cmd (sq_Key req) in
      if cmd \<in> {CmdSAdd, CmdSRem} then rc\<lparr>rc_Elems := sq_Elems req\<rparr> else rc)"

definition raftResultToHashResponse :: "server_env \<Rightarrow> raft_command \<Rightarrow> byte \<Rightarrow> raft_result \<Rightarrow> hash_response" where
  "raftResultToHashResponse se rc cmd res =
     (case raft_error se rc res of
        Some msg \<Rightarrow> hash_fail cmd msg
      | None \<Rightarrow>
          let ok = hash_blank cmd StatusOK in
          if cmd \<in> {CmdHSet, CmdHDel, CmdHIncrBy} then ok\<lparr>hp_IntResult := rr_int res\<rparr>
          else if cmd = CmdHSetNX then ok\<lparr>hp_BoolResult := rr_bool res\<rparr>
          else if cmd = CmdHIncrByFloat then ok\<lparr>hp_FloatResult := rr_float res\<rparr>
          else if cmd = CmdHMSet then ok
          else hash_fail cmd ''unsupported raft hash op'')"

definition raftResultToListResponse :: "server_env \<Rightarrow> raft_command \<Rightarrow> byte \<Rightarrow> raft_result \<Rightarrow> list_response" where
  "raftResultToListResponse se rc cmd res =
     (case raft_error se rc res of
        Some msg \<Rightarrow> if rr_err res = Some ErrKeyNotFound then list_blank cmd StatusNotFound else list_fail cmd msg
      | None \<Rightarrow>
          let ok = list_blank cmd StatusOK in
          if cmd \<in> {CmdLPush, CmdRPush, CmdLRem, CmdLInsert} then ok\<lparr>lp_IntResult := rr_int res\<rparr>
          else if cmd \<in> {CmdLPop, CmdRPop} then ok\<lparr>lp_StrResult := rr_str res\<rparr>
          else if cmd = CmdLSet then ok\<lparr>lp_BoolResult := True\<rparr>
          else if cmd = CmdLTrim then ok
          else list_fail cmd ''unsupported raft list op'')"

definition raftResultToSetResponse :: "server_env \<Rightarrow> raft_command \<Rightarrow> byte \<Rightarrow> raft_result \<Rightarrow> set_response" where
  "raftResultToSetResponse se rc cmd res =
     (case raft_error se rc res of
        Some msg \<Rightarrow> if rr_err res = Some ErrKeyNotFound \<and> cmd = CmdSPop then set_blank cmd StatusNotFound else set_fail cmd msg
      | None \<Rightarrow>
          let ok = set_blank cmd StatusOK in
          if cmd \<in> {CmdSAdd, CmdSRem} then ok\<lparr>sp_Changed := u64 (rr_int res)\<rparr>
          else if cmd = CmdSPop then ok\<lparr>sp_Elems := [rr_str res]\<rparr>
          else set_fail cmd ''unsupported raft set op'')"

section \<open>Dispatch\<close>

definition at_cache :: "server \<Rightarrow> (cache \<times> 'r) go \<Rightarrow> (server \<times> 'r) go" where
  "at_cache s m = go_bind m (\<lambda>(c, r). Ret (s\<lparr>sv_cache := c\<rparr>, r))"

definition replicated :: "server_env \<Rightarrow> server \<Rightarrow> raft_command \<Rightarrow> (gostring \<Rightarrow> 'r) \<Rightarrow> (raft_result \<Rightarrow> 'r) \<Rightarrow> (server \<times> 'r) go" where
  "replicated se s rc bad good =
     (if sv_raft s \<noteq> Some Leader then Ret (s, bad ''not leader'')
      else go_bind (raftPropose se s rc) (\<lambda>(s, r). Ret (s, case r of Inl err \<Rightarrow> bad err | Inr res \<Rightarrow> good res)))"

definition process :: "server_env \<Rightarrow> server \<Rightarrow> kv_request \<Rightarrow> (server \<times> kv_response) go" where
  "process se s req =
     (if sv_raft s \<noteq> None \<and> isRaftWriteOp (rq_Cmd req)
      then replicated se s ((raft_command_of (rq_Cmd req) (rq_Key req))\<lparr>rc_Value := rq_Value req, rc_TTL := rq_TTL req\<rparr>)
             kv_fail (\<lambda>_. kv_ok [])
      else at_cache s (process_local se (sv_cache s) req))"

definition processSet :: "server_env \<Rightarrow> server \<Rightarrow> set_request \<Rightarrow> (server \<times> set_response) go" where
  "processSet se s req =
     (if sv_raft s \<noteq> None \<and> isRaftWriteOp (sq_Cmd req)
      then replicated se s (setReqToRaft req) (set_fail (sq_Cmd req)) (raftResultToSetResponse se (setReqToRaft req) (sq_Cmd req))
      else at_cache s (processSet_local se (sv_cache s) req))"

definition processHash :: "server_env \<Rightarrow> server \<Rightarrow> hash_request \<Rightarrow> (server \<times> hash_response) go" where
  "processHash se s req =
     (if sv_raft s \<noteq> None \<and> isRaftWriteOp (hq_Cmd req)
      then replicated se s (hashReqToRaft req) (hash_fail (hq_Cmd req)) (raftResultToHashResponse se (hashReqToRaft req) (hq_Cmd req))
      else at_cache s (processHash_local se (sv_cache s) req))"

definition processList :: "server_env \<Rightarrow> server \<Rightarrow> list_request \<Rightarrow> (server \<times> list_response) go option" where
  "processList se s req =
     (if sv_raft s \<noteq> None \<and> isRaftWriteOp (lq_Cmd req)
      then Some (replicated se s (listReqToRaft req) (list_fail (lq_Cmd req)) (raftResultToListResponse se (listReqToRaft req) (lq_Cmd req)))
      else map_option (at_cache s) (processList_local se (sv_cache s) req))"

datatype job = KvJob kv_request | SetJob set_request | HashJob hash_request | ListJob list_request

definition tagged :: "byte \<Rightarrow> bytes option \<Rightarrow> bytes" where
  "tagged cmd raw = [cmd] @ the_default [] raw"

fun processRequest :: "server_env \<Rightarrow> server \<Rightarrow> job \<Rightarrow> (server \<times> bytes) go option" where
  "processRequest se s (HashJob req) =
     Some (go_bind (processHash se s req) (\<lambda>(s, r). Ret (s, tagged (hq_Cmd req) (EncodeHashResponse (e_ord (se_env se)) r))))"
| "processRequest se s (ListJob req) =
     map_option (\<lambda>m. go_bind m (\<lambda>(s, r). Ret (s, tagged (lq_Cmd req) (EncodeListResponse r)))) (processList se s req)"
| "processRequest se s (SetJob req) =
     Some (go_bind (processSet se s req) (\<lambda>(s, r). Ret (s, tagged (sq_Cmd req) (EncodeSetResponse r))))"
| "processRequest se s (KvJob req) =
     Some (go_bind (process se s req) (\<lambda>(s, r). Ret (s, Response_EncodePayload r)))"

definition FrameTypeRequest :: byte where "FrameTypeRequest = 0"
definition FrameTypeResponse :: byte where "FrameTypeResponse = 1"

text \<open>The request in a payload, or the text of the error response.\<close>

definition decode_job :: "bytes \<Rightarrow> bytes \<Rightarrow> (gostring + job) go" where
  "decode_job spare p =
     (let cmd = p ! 0 in
      if IsHashCmd cmd then
        Ret (case DecodeHashRequest p of Inl _ \<Rightarrow> Inl ''invalid hash request'' | Inr r \<Rightarrow> Inr (HashJob r))
      else if IsListCmd cmd then
        Ret (case DecodeListRequest p of Inl _ \<Rightarrow> Inl ''invalid list request'' | Inr r \<Rightarrow> Inr (ListJob r))
      else if cmd \<ge> CmdSAdd \<and> cmd \<le> CmdSDiff then
        go_bind (DecodeSetRequest spare p) (\<lambda>d. Ret (case d of Inl _ \<Rightarrow> Inl ''invalid set request'' | Inr r \<Rightarrow> Inr (SetJob r)))
      else
        go_bind (DecodeRequestPayload spare p) (\<lambda>d. Ret (case d of Inl _ \<Rightarrow> Inl ''invalid request'' | Inr r \<Rightarrow> Inr (KvJob r))))"

text \<open>One turn of the read loop: the server after it and the response frame, if any.\<close>

definition response_frame :: "frame \<Rightarrow> bytes \<Rightarrow> frame" where
  "response_frame f payload = \<lparr>fr_StreamID = fr_StreamID f, fr_Type = FrameTypeResponse, fr_Flags = 0, fr_Payload = payload\<rparr>"

definition handle_frame :: "server_env \<Rightarrow> bytes \<Rightarrow> server \<Rightarrow> frame \<Rightarrow> (server \<times> frame option) go option" where
  "handle_frame se spare s f =
     (if fr_Type f \<noteq> FrameTypeRequest then Some (Ret (s, None))
      else if fr_Payload f = [] then Some (Ret (s, Some (response_frame f (Response_EncodePayload (kv_fail ''empty request'')))))
      else (case decode_job spare (fr_Payload f) of
              Panic \<Rightarrow> Some Panic
            | Ret (Inl msg) \<Rightarrow> Some (Ret (s, Some (response_frame f (Response_EncodePayload (kv_fail msg)))))
            | Ret (Inr j) \<Rightarrow>
                map_option (\<lambda>m. go_bind m (\<lambda>(s, payload). Ret (s, Some (response_frame f payload))))
                  (processRequest se (s\<lparr>sv_totalRequests := w64 (sv_totalRequests s + 1)\<rparr>) j)))"

end
