(* ===== verification/Client.thy ===== *)
theory Client
  imports Server
begin

text \<open>
  \<^verbatim>\<open>net/client.go\<close> and \<^verbatim>\<open>net/client_ext.go\<close>: the methods of a client connection and its read loop.  A method builds a
  request, hands it to \<^verbatim>\<open>do\<close>, \<^verbatim>\<open>doSet\<close>, \<^verbatim>\<open>doHash\<close> or \<^verbatim>\<open>doList\<close>, the argument \<open>call\<close> here, and turns the response into a
  result; \<open>call\<close> fails when the connection is closed, a write fails or the read times out.  The read loop hands a
  response to the caller that waits under its stream number in the table of its kind.
\<close>

section \<open>Results\<close>

datatype client_error =
    ClKeyNotFound
  | ClNotLeader
  | ClServer gostring
  | ClReadTimeout
  | ClWrite
  | ClConnClosed
  | ClBadResponse

definition serverError :: "gostring \<Rightarrow> client_error" where
  "serverError msg = (if msg = ''not leader'' then ClNotLeader else ClServer msg)"

definition checked :: "bool \<Rightarrow> (gostring \<Rightarrow> client_error) \<Rightarrow> byte \<Rightarrow> gostring \<Rightarrow> 'a \<Rightarrow> client_error + 'a" where
  "checked may_miss to_error st msg x =
     (if may_miss \<and> st = StatusNotFound then Inl ClKeyNotFound
      else if st \<noteq> StatusOK then Inl (to_error msg)
      else Inr x)"

definition after_call :: "client_error + 'r \<Rightarrow> ('r \<Rightarrow> client_error + 'a) \<Rightarrow> client_error + 'a" where
  "after_call r f = (case r of Inl err \<Rightarrow> Inl err | Inr resp \<Rightarrow> f resp)"

type_synonym kv_call = "kv_request \<Rightarrow> client_error + kv_response"
type_synonym set_call = "set_request \<Rightarrow> client_error + set_response"
type_synonym hash_call = "hash_request \<Rightarrow> client_error + hash_response"
type_synonym list_call = "list_request \<Rightarrow> client_error + list_response"

section \<open>Key-value and key-management methods\<close>

definition kv_of :: "byte \<Rightarrow> gostring \<Rightarrow> bytes \<Rightarrow> int \<Rightarrow> kv_request" where
  "kv_of cmd k v ttl = \<lparr>rq_Cmd = cmd, rq_Key = k, rq_Value = v, rq_TTL = ttl\<rparr>"

definition cc_get :: "kv_call \<Rightarrow> gostring \<Rightarrow> client_error + bytes" where
  "cc_get call k = after_call (call (kv_of CmdGet k [] 0)) (\<lambda>r. checked True serverError (rs_Status r) (rs_ErrMsg r) (rs_Value r))"

definition cc_set :: "kv_call \<Rightarrow> gostring \<Rightarrow> bytes \<Rightarrow> int \<Rightarrow> client_error + unit" where
  "cc_set call k v ttl =
     after_call (call (kv_of CmdSet k v (if ttl > 0 then go_div ttl 1000000 else 0)))
       (\<lambda>r. checked False serverError (rs_Status r) (rs_ErrMsg r) ())"

definition cc_del :: "kv_call \<Rightarrow> gostring \<Rightarrow> client_error + unit" where
  "cc_del call k = after_call (call (kv_of CmdDel k [] 0)) (\<lambda>r. checked False serverError (rs_Status r) (rs_ErrMsg r) ())"

definition counted_value :: "kv_response \<Rightarrow> client_error + int" where
  "counted_value r =
     (if rs_Status r \<noteq> StatusOK then Inl (serverError (rs_ErrMsg r))
      else if length (rs_Value r) < 8 then Inl ClBadResponse
      else Inr (s64 (unbe (take 8 (rs_Value r)))))"

definition cc_lenCmd :: "kv_call \<Rightarrow> client_error + int" where
  "cc_lenCmd call = after_call (call (kv_of CmdLen [] [] 0)) counted_value"

definition cc_cleanupCmd :: "kv_call \<Rightarrow> client_error + int" where
  "cc_cleanupCmd call = after_call (call (kv_of CmdCleanup [] [] 0)) counted_value"

definition cc_statsCmd :: "kv_call \<Rightarrow> client_error + bytes" where
  "cc_statsCmd call = after_call (call (kv_of CmdStats [] [] 0)) (\<lambda>r. checked False serverError (rs_Status r) (rs_ErrMsg r) (rs_Value r))"

definition flag_value :: "kv_response \<Rightarrow> client_error + bool" where
  "flag_value r = checked False ClServer (rs_Status r) (rs_ErrMsg r) (rs_Value r \<noteq> [] \<and> rs_Value r ! 0 = 1)"

definition number_value :: "kv_response \<Rightarrow> client_error + int" where
  "number_value r =
     checked False ClServer (rs_Status r) (rs_ErrMsg r)
       (if length (rs_Value r) \<ge> 8 then s64 (unbe (take 8 (rs_Value r))) else 0)"

definition cc_existsCmd :: "kv_call \<Rightarrow> gostring \<Rightarrow> client_error + bool" where
  "cc_existsCmd call k = after_call (call (kv_of CmdExists k [] 0)) flag_value"

definition cc_typeCmd :: "kv_call \<Rightarrow> gostring \<Rightarrow> client_error + byte" where
  "cc_typeCmd call k = after_call (call (kv_of CmdType k [] 0))
     (\<lambda>r. checked False ClServer (rs_Status r) (rs_ErrMsg r) (case rs_Value r of t # _ \<Rightarrow> t | [] \<Rightarrow> 0))"

definition cc_expireCmd :: "kv_call \<Rightarrow> gostring \<Rightarrow> int \<Rightarrow> client_error + bool" where
  "cc_expireCmd call k seconds = after_call (call (kv_of CmdExpire k [] (i64 (seconds * 1000)))) flag_value"

definition cc_pExpireCmd :: "kv_call \<Rightarrow> gostring \<Rightarrow> int \<Rightarrow> client_error + bool" where
  "cc_pExpireCmd call k ms = after_call (call (kv_of CmdPExpire k [] ms)) flag_value"

definition cc_ttlCmd :: "kv_call \<Rightarrow> gostring \<Rightarrow> client_error + int" where
  "cc_ttlCmd call k = after_call (call (kv_of CmdTTL k [] 0)) number_value"

definition cc_pttlCmd :: "kv_call \<Rightarrow> gostring \<Rightarrow> client_error + int" where
  "cc_pttlCmd call k = after_call (call (kv_of CmdPTTL k [] 0)) number_value"

definition cc_persistCmd :: "kv_call \<Rightarrow> gostring \<Rightarrow> client_error + bool" where
  "cc_persistCmd call k = after_call (call (kv_of CmdPersist k [] 0)) flag_value"

definition cc_keysCmd :: "kv_call \<Rightarrow> gostring \<Rightarrow> client_error + gostring list" where
  "cc_keysCmd call pattern = after_call (call (kv_of CmdKeys pattern [] 0))
     (\<lambda>r. checked False ClServer (rs_Status r) (rs_ErrMsg r)
        (if length (rs_Value r) < 4 then [] else scan_strs 2 (unbe (sl 0 4 (rs_Value r))) (drop 4 (rs_Value r))))"

section \<open>Set methods\<close>

definition set_of :: "byte \<Rightarrow> gostring \<Rightarrow> gostring list \<Rightarrow> int \<Rightarrow> gostring list \<Rightarrow> set_request" where
  "set_of cmd k es n ks = \<lparr>sq_Cmd = cmd, sq_Key = k, sq_Elems = es, sq_Count = n, sq_Keys = ks\<rparr>"

definition set_result :: "(set_response \<Rightarrow> 'a) \<Rightarrow> set_response \<Rightarrow> client_error + 'a" where
  "set_result f r = checked False serverError (sp_Status r) (sp_ErrMsg r) (f r)"

definition cc_sAdd :: "set_call \<Rightarrow> gostring \<Rightarrow> gostring list \<Rightarrow> client_error + int" where
  "cc_sAdd call k es = after_call (call (set_of CmdSAdd k es 0 [])) (set_result (\<lambda>r. s64 (sp_Changed r)))"

definition cc_sRem :: "set_call \<Rightarrow> gostring \<Rightarrow> gostring list \<Rightarrow> client_error + int" where
  "cc_sRem call k es = after_call (call (set_of CmdSRem k es 0 [])) (set_result (\<lambda>r. s64 (sp_Changed r)))"

definition cc_sIsMember :: "set_call \<Rightarrow> gostring \<Rightarrow> gostring \<Rightarrow> client_error + bool" where
  "cc_sIsMember call k el = after_call (call (set_of CmdSIsMember k [el] 0 [])) (set_result sp_IsMember)"

definition cc_sMembers :: "set_call \<Rightarrow> gostring \<Rightarrow> client_error + gostring list" where
  "cc_sMembers call k = after_call (call (set_of CmdSMembers k [] 0 [])) (set_result sp_Elems)"

definition cc_sCard :: "set_call \<Rightarrow> gostring \<Rightarrow> client_error + int" where
  "cc_sCard call k = after_call (call (set_of CmdSCard k [] 0 [])) (set_result (\<lambda>r. s64 (sp_Card r)))"

definition cc_sPop :: "set_call \<Rightarrow> gostring \<Rightarrow> client_error + gostring" where
  "cc_sPop call k = after_call (call (set_of CmdSPop k [] 0 []))
     (\<lambda>r. checked True serverError (sp_Status r) (sp_ErrMsg r) (case sp_Elems r of el # _ \<Rightarrow> el | [] \<Rightarrow> []))"

definition cc_sRandMember :: "set_call \<Rightarrow> gostring \<Rightarrow> int \<Rightarrow> client_error + gostring list" where
  "cc_sRandMember call k n = after_call (call (set_of CmdSRandMember k [] (s32 (u32 n)) [])) (set_result sp_Elems)"

definition cc_sUnion :: "set_call \<Rightarrow> gostring list \<Rightarrow> client_error + gostring list" where
  "cc_sUnion call ks = after_call (call (set_of CmdSUnion [] [] 0 ks)) (set_result sp_Elems)"

definition cc_sInter :: "set_call \<Rightarrow> gostring list \<Rightarrow> client_error + gostring list" where
  "cc_sInter call ks = after_call (call (set_of CmdSInter [] [] 0 ks)) (set_result sp_Elems)"

definition cc_sDiff :: "set_call \<Rightarrow> gostring list \<Rightarrow> client_error + gostring list" where
  "cc_sDiff call ks = after_call (call (set_of CmdSDiff [] [] 0 ks)) (set_result sp_Elems)"

section \<open>Hash methods\<close>

definition hash_of :: "byte \<Rightarrow> gostring \<Rightarrow> gostring \<Rightarrow> hash_request" where
  "hash_of cmd k f = \<lparr>hq_Cmd = cmd, hq_Key = k, hq_Field = f, hq_Value = [], hq_Fields = [], hq_FvPairs = [], hq_DeltaI64 = 0, hq_DeltaF64 = 0\<rparr>"

definition hash_result :: "bool \<Rightarrow> (hash_response \<Rightarrow> 'a) \<Rightarrow> hash_response \<Rightarrow> client_error + 'a" where
  "hash_result may_miss f r = checked may_miss ClServer (hp_Status r) (hp_ErrMsg r) (f r)"

definition cc_hSet :: "hash_call \<Rightarrow> gostring \<Rightarrow> gostring \<Rightarrow> gostring \<Rightarrow> client_error + int" where
  "cc_hSet call k f v = after_call (call ((hash_of CmdHSet k f)\<lparr>hq_Value := v\<rparr>)) (hash_result False hp_IntResult)"

definition cc_hSetNX :: "hash_call \<Rightarrow> gostring \<Rightarrow> gostring \<Rightarrow> gostring \<Rightarrow> client_error + bool" where
  "cc_hSetNX call k f v = after_call (call ((hash_of CmdHSetNX k f)\<lparr>hq_Value := v\<rparr>)) (hash_result False hp_BoolResult)"

definition cc_hGet :: "hash_call \<Rightarrow> gostring \<Rightarrow> gostring \<Rightarrow> client_error + gostring" where
  "cc_hGet call k f = after_call (call (hash_of CmdHGet k f)) (hash_result True hp_StrResult)"

definition cc_hDel :: "hash_call \<Rightarrow> gostring \<Rightarrow> gostring list \<Rightarrow> client_error + int" where
  "cc_hDel call k fs = after_call (call ((hash_of CmdHDel k [])\<lparr>hq_Fields := fs\<rparr>)) (hash_result False hp_IntResult)"

definition cc_hExists :: "hash_call \<Rightarrow> gostring \<Rightarrow> gostring \<Rightarrow> client_error + bool" where
  "cc_hExists call k f = after_call (call (hash_of CmdHExists k f)) (hash_result False hp_BoolResult)"

definition cc_hGetAll :: "hash_call \<Rightarrow> gostring \<Rightarrow> client_error + (gostring, gostring) gomap" where
  "cc_hGetAll call k = after_call (call (hash_of CmdHGetAll k [])) (hash_result True hp_MapResult)"

definition cc_hKeys :: "hash_call \<Rightarrow> gostring \<Rightarrow> client_error + gostring list" where
  "cc_hKeys call k = after_call (call (hash_of CmdHKeys k [])) (hash_result False hp_SliceResult)"

definition cc_hVals :: "hash_call \<Rightarrow> gostring \<Rightarrow> client_error + gostring list" where
  "cc_hVals call k = after_call (call (hash_of CmdHVals k [])) (hash_result False hp_SliceResult)"

definition cc_hLen :: "hash_call \<Rightarrow> gostring \<Rightarrow> client_error + int" where
  "cc_hLen call k = after_call (call (hash_of CmdHLen k [])) (hash_result False hp_IntResult)"

definition cc_hStrLen :: "hash_call \<Rightarrow> gostring \<Rightarrow> gostring \<Rightarrow> client_error + int" where
  "cc_hStrLen call k f = after_call (call (hash_of CmdHStrLen k f)) (hash_result False hp_IntResult)"

definition cc_hIncrBy :: "hash_call \<Rightarrow> gostring \<Rightarrow> gostring \<Rightarrow> int \<Rightarrow> client_error + int" where
  "cc_hIncrBy call k f d = after_call (call ((hash_of CmdHIncrBy k f)\<lparr>hq_DeltaI64 := d\<rparr>)) (hash_result False hp_IntResult)"

definition cc_hIncrByFloat :: "hash_call \<Rightarrow> gostring \<Rightarrow> gostring \<Rightarrow> float64 \<Rightarrow> client_error + float64" where
  "cc_hIncrByFloat call k f d = after_call (call ((hash_of CmdHIncrByFloat k f)\<lparr>hq_DeltaF64 := d\<rparr>)) (hash_result False hp_FloatResult)"

definition cc_hmGet :: "hash_call \<Rightarrow> gostring \<Rightarrow> gostring list \<Rightarrow> client_error + gostring option list" where
  "cc_hmGet call k fs = after_call (call ((hash_of CmdHMGet k [])\<lparr>hq_Fields := fs\<rparr>)) (hash_result False hp_AnySlice)"

definition cc_hmSet :: "hash_call \<Rightarrow> gostring \<Rightarrow> gostring list \<Rightarrow> client_error + unit" where
  "cc_hmSet call k fvs = after_call (call ((hash_of CmdHMSet k [])\<lparr>hq_FvPairs := fvs\<rparr>)) (hash_result False (\<lambda>_. ()))"

section \<open>List methods\<close>

definition list_of :: "byte \<Rightarrow> gostring \<Rightarrow> list_request" where
  "list_of cmd k = \<lparr>lq_Cmd = cmd, lq_Key = k, lq_Elements = [], lq_Value = [], lq_Index = 0, lq_Start = 0, lq_Stop = 0,
     lq_Count = 0, lq_Pivot = [], lq_Before = False, lq_Timeout = 0, lq_Rank = 0, lq_MaxLen = 0\<rparr>"

definition list_result :: "bool \<Rightarrow> (list_response \<Rightarrow> 'a) \<Rightarrow> list_response \<Rightarrow> client_error + 'a" where
  "list_result may_miss f r = checked may_miss ClServer (lp_Status r) (lp_ErrMsg r) (f r)"

definition cc_lPush :: "list_call \<Rightarrow> gostring \<Rightarrow> gostring list \<Rightarrow> client_error + int" where
  "cc_lPush call k es = after_call (call ((list_of CmdLPush k)\<lparr>lq_Elements := es\<rparr>)) (list_result False lp_IntResult)"

definition cc_rPush :: "list_call \<Rightarrow> gostring \<Rightarrow> gostring list \<Rightarrow> client_error + int" where
  "cc_rPush call k es = after_call (call ((list_of CmdRPush k)\<lparr>lq_Elements := es\<rparr>)) (list_result False lp_IntResult)"

definition cc_lPop :: "list_call \<Rightarrow> gostring \<Rightarrow> client_error + gostring" where
  "cc_lPop call k = after_call (call (list_of CmdLPop k)) (list_result True lp_StrResult)"

definition cc_rPop :: "list_call \<Rightarrow> gostring \<Rightarrow> client_error + gostring" where
  "cc_rPop call k = after_call (call (list_of CmdRPop k)) (list_result True lp_StrResult)"

definition cc_lLen :: "list_call \<Rightarrow> gostring \<Rightarrow> client_error + int" where
  "cc_lLen call k = after_call (call (list_of CmdLLen k)) (list_result False lp_IntResult)"

definition cc_lRange :: "list_call \<Rightarrow> gostring \<Rightarrow> int \<Rightarrow> int \<Rightarrow> client_error + gostring list" where
  "cc_lRange call k a b = after_call (call ((list_of CmdLRange k)\<lparr>lq_Start := a, lq_Stop := b\<rparr>)) (list_result False lp_SliceResult)"

definition cc_lIndex :: "list_call \<Rightarrow> gostring \<Rightarrow> int \<Rightarrow> client_error + gostring" where
  "cc_lIndex call k i = after_call (call ((list_of CmdLIndex k)\<lparr>lq_Index := i\<rparr>)) (list_result True lp_StrResult)"

definition cc_lSet :: "list_call \<Rightarrow> gostring \<Rightarrow> int \<Rightarrow> gostring \<Rightarrow> client_error + unit" where
  "cc_lSet call k i v = after_call (call ((list_of CmdLSet k)\<lparr>lq_Index := i, lq_Value := v\<rparr>)) (list_result True (\<lambda>_. ()))"

definition cc_lRem :: "list_call \<Rightarrow> gostring \<Rightarrow> int \<Rightarrow> gostring \<Rightarrow> client_error + int" where
  "cc_lRem call k n v = after_call (call ((list_of CmdLRem k)\<lparr>lq_Count := n, lq_Value := v\<rparr>)) (list_result False lp_IntResult)"

definition cc_lTrim :: "list_call \<Rightarrow> gostring \<Rightarrow> int \<Rightarrow> int \<Rightarrow> client_error + unit" where
  "cc_lTrim call k a b = after_call (call ((list_of CmdLTrim k)\<lparr>lq_Start := a, lq_Stop := b\<rparr>)) (list_result False (\<lambda>_. ()))"

definition cc_lInsert :: "list_call \<Rightarrow> gostring \<Rightarrow> bool \<Rightarrow> gostring \<Rightarrow> gostring \<Rightarrow> client_error + int" where
  "cc_lInsert call k before pivot v =
     after_call (call ((list_of CmdLInsert k)\<lparr>lq_Before := before, lq_Pivot := pivot, lq_Value := v\<rparr>)) (list_result False lp_IntResult)"

definition cc_bLPop :: "list_call \<Rightarrow> gostring \<Rightarrow> int \<Rightarrow> client_error + gostring" where
  "cc_bLPop call k timeout = after_call (call ((list_of CmdBLPop k)\<lparr>lq_Timeout := go_div timeout 1000000\<rparr>)) (list_result True lp_StrResult)"

definition cc_bRPop :: "list_call \<Rightarrow> gostring \<Rightarrow> int \<Rightarrow> client_error + gostring" where
  "cc_bRPop call k timeout = after_call (call ((list_of CmdBRPop k)\<lparr>lq_Timeout := go_div timeout 1000000\<rparr>)) (list_result True lp_StrResult)"

definition cc_lPos :: "list_call \<Rightarrow> gostring \<Rightarrow> gostring \<Rightarrow> int \<Rightarrow> int \<Rightarrow> int \<Rightarrow> client_error + int list" where
  "cc_lPos call k v rank n maxLen =
     after_call (call ((list_of CmdLPos k)\<lparr>lq_Value := v, lq_Rank := rank, lq_Count := n, lq_MaxLen := maxLen\<rparr>)) (list_result False lp_PosResult)"

section \<open>The read loop\<close>

datatype answer = KvAnswer kv_response | SetAnswer set_response | HashAnswer hash_response | ListAnswer list_response

definition read_answer :: "bytes \<Rightarrow> bytes \<Rightarrow> answer go" where
  "read_answer spare p =
     (let cmd = p ! 0 in
      if IsHashCmd cmd then
        Ret (HashAnswer (case DecodeHashResponse (drop 1 p) cmd of Inl _ \<Rightarrow> hash_fail 0 ''malformed hash response'' | Inr r \<Rightarrow> r))
      else if IsListCmd cmd then
        Ret (ListAnswer (case DecodeListResponse (drop 1 p) cmd of Inl _ \<Rightarrow> list_fail 0 ''malformed list response'' | Inr r \<Rightarrow> r))
      else if cmd \<ge> CmdSAdd \<and> cmd \<le> CmdSDiff then
        go_bind (DecodeSetResponse spare (drop 1 p) cmd)
          (\<lambda>d. Ret (SetAnswer (case d of Inl _ \<Rightarrow> set_fail 0 ''malformed set response'' | Inr r \<Rightarrow> r)))
      else
        go_bind (DecodeResponsePayload spare p)
          (\<lambda>d. Ret (KvAnswer (case d of Inl _ \<Rightarrow> kv_fail ''malformed response'' | Inr r \<Rightarrow> r))))"

end
