(* ===== verification/Client_Conn.thy ===== *)
theory Client_Conn
  imports Client
begin

text \<open>
  The connections of \<^verbatim>\<open>net/client.go\<close>: the pool of connections, the stream numbers, the tables of waiting callers, the pooled
  response channels, \<^verbatim>\<open>do\<close> and its three variants, the read loop and \<^verbatim>\<open>closeAllPending\<close>.  Callers and read loops run
  concurrently; a run is a list of events, each one atomic step of one of them.  The theorems say that a caller receives
  a response to its own stream whenever the read loop looks up and sends in one step, and that otherwise it may receive
  the response of an earlier call.
\<close>

section \<open>State\<close>

datatype kind = KvKind | SetKind | HashKind | ListKind

fun answer_kind :: "answer \<Rightarrow> kind" where
  "answer_kind (KvAnswer _) = KvKind"
| "answer_kind (SetAnswer _) = SetKind"
| "answer_kind (HashAnswer _) = HashKind"
| "answer_kind (ListAnswer _) = ListKind"

fun job_kind :: "job \<Rightarrow> kind" where
  "job_kind (KvJob _) = KvKind"
| "job_kind (SetJob _) = SetKind"
| "job_kind (HashJob _) = HashKind"
| "job_kind (ListJob _) = ListKind"

text \<open>A channel is a position in \<open>cl_chans\<close>; it buffers at most one response.\<close>

record conn =
  co_nextStreamID :: nat
  co_closed :: bool
  co_pending :: "kind \<Rightarrow> (nat, nat) gomap"

record client =
  cl_conns :: "conn list"
  cl_nextConn :: nat
  cl_chans :: "answer option list"
  cl_pools :: "kind \<Rightarrow> nat list"

definition new_conn :: conn where
  "new_conn = \<lparr>co_nextStreamID = 0, co_closed = False, co_pending = (\<lambda>_. [])\<rparr>"

definition NewClient :: "nat \<Rightarrow> client" where
  "NewClient connCount = \<lparr>cl_conns = replicate connCount new_conn, cl_nextConn = 0, cl_chans = [], cl_pools = (\<lambda>_. [])\<rparr>"

definition pickConn :: "client \<Rightarrow> (client \<times> nat) go" where
  "pickConn cl =
     (let n = (cl_nextConn cl + 1) mod 2 ^ 32 in
      if cl_conns cl = [] then Panic else Ret (cl\<lparr>cl_nextConn := n\<rparr>, n mod length (cl_conns cl)))"

definition set_conn :: "client \<Rightarrow> nat \<Rightarrow> conn \<Rightarrow> client" where
  "set_conn cl i co = cl\<lparr>cl_conns := (cl_conns cl)[i := co]\<rparr>"

definition set_pending :: "conn \<Rightarrow> kind \<Rightarrow> (nat, nat) gomap \<Rightarrow> conn" where
  "set_pending co k m = co\<lparr>co_pending := (co_pending co)(k := m)\<rparr>"

section \<open>A call\<close>

record call =
  ca_conn :: nat
  ca_kind :: kind
  ca_sid :: nat
  ca_chan :: nat

definition next_stream :: "nat \<Rightarrow> nat" where
  "next_stream n = (let s = (n + 1) mod 2 ^ 32 in if s = 0 then 1 else s)"

lemma next_stream_code [code]: "next_stream n = (let s = nat ((int n + 1) mod 2 ^ 32) in if s = 0 then 1 else s)"
proof -
  have "(n + 1) mod 2 ^ 32 = nat ((int n + 1) mod 2 ^ 32)" by (simp add: nat_mod_distrib nat_add_distrib)
  then show ?thesis by (simp only: next_stream_def)
qed

text \<open>\<^verbatim>\<open>sync.Pool.Get\<close> takes some pooled channel or makes a new one; \<open>pick\<close> is its choice.\<close>

definition pool_get :: "kind \<Rightarrow> nat \<Rightarrow> client \<Rightarrow> client \<times> nat" where
  "pool_get k pick cl =
     (let pool = cl_pools cl k in
      if pick < length pool
      then (cl\<lparr>cl_pools := (cl_pools cl)(k := take pick pool @ drop (Suc pick) pool)\<rparr>, pool ! pick)
      else (cl\<lparr>cl_chans := cl_chans cl @ [None]\<rparr>, length (cl_chans cl)))"

fun encode_job :: "job \<Rightarrow> bytes option" where
  "encode_job (KvJob req) = Some (Request_EncodePayload req)"
| "encode_job (SetJob req) = EncodeSetRequest req"
| "encode_job (HashJob req) = EncodeHashRequest req"
| "encode_job (ListJob req) = EncodeListRequest req"

definition do_finish :: "call \<Rightarrow> client \<Rightarrow> client" where
  "do_finish ca cl =
     (let co = cl_conns cl ! ca_conn ca; k = ca_kind ca;
          cl = set_conn cl (ca_conn ca) (set_pending co k (AList.delete (ca_sid ca) (co_pending co k)));
          cl = cl\<lparr>cl_chans := (cl_chans cl)[ca_chan ca := None]\<rparr>
      in cl\<lparr>cl_pools := (cl_pools cl)(k := ca_chan ca # cl_pools cl k)\<rparr>)"

text \<open>Up to the frame being handed to the connection.\<close>

definition do_start :: "nat \<Rightarrow> job \<Rightarrow> nat \<Rightarrow> client \<Rightarrow> client \<times> (client_error + call \<times> frame)" where
  "do_start i j pick cl =
     (let co = cl_conns cl ! i; k = job_kind j in
      if co_closed co then (cl, Inl ClConnClosed)
      else
        let sid = next_stream (co_nextStreamID co);
            (cl, ch) = pool_get k pick cl;
            co = set_pending (co\<lparr>co_nextStreamID := sid\<rparr>) k (AList.update sid ch (co_pending co k));
            cl = set_conn cl i co;
            ca = \<lparr>ca_conn = i, ca_kind = k, ca_sid = sid, ca_chan = ch\<rparr>
        in case encode_job j of
             None \<Rightarrow> (do_finish ca cl, Inl ClBadResponse)
           | Some p \<Rightarrow> (cl, Inr (ca, \<lparr>fr_StreamID = sid, fr_Type = FrameTypeRequest, fr_Flags = 0, fr_Payload = p\<rparr>)))"

definition doSet :: "nat \<Rightarrow> set_request \<Rightarrow> nat \<Rightarrow> client \<Rightarrow> client \<times> (client_error + call \<times> frame)" where
  "doSet i req = do_start i (SetJob req)"

definition doHash :: "nat \<Rightarrow> hash_request \<Rightarrow> nat \<Rightarrow> client \<Rightarrow> client \<times> (client_error + call \<times> frame)" where
  "doHash i req = do_start i (HashJob req)"

definition doList :: "nat \<Rightarrow> list_request \<Rightarrow> nat \<Rightarrow> client \<Rightarrow> client \<times> (client_error + call \<times> frame)" where
  "doList i req = do_start i (ListJob req)"

definition markBad :: "nat \<Rightarrow> client \<Rightarrow> client" where
  "markBad i cl = set_conn cl i ((cl_conns cl ! i)\<lparr>co_closed := True\<rparr>)"

definition do_write_failed :: "call \<Rightarrow> client \<Rightarrow> client \<times> client_error" where
  "do_write_failed ca cl = (do_finish ca (markBad (ca_conn ca) cl), ClWrite)"

text \<open>The select of a caller: a buffered response, or nothing to receive yet, or the timer.\<close>

definition do_receive :: "call \<Rightarrow> client \<Rightarrow> (client \<times> answer) option" where
  "do_receive ca cl = map_option (\<lambda>a. (do_finish ca (cl\<lparr>cl_chans := (cl_chans cl)[ca_chan ca := None]\<rparr>), a)) (cl_chans cl ! ca_chan ca)"

definition do_timeout :: "call \<Rightarrow> client \<Rightarrow> client \<times> client_error" where
  "do_timeout ca cl = (do_finish ca cl, ClReadTimeout)"

section \<open>The read loop\<close>

definition chan_send :: "nat \<Rightarrow> answer \<Rightarrow> client \<Rightarrow> client" where
  "chan_send ch a cl = (if cl_chans cl ! ch = None then cl\<lparr>cl_chans := (cl_chans cl)[ch := Some a]\<rparr> else cl)"

text \<open>The channel of the caller that waits for a response, and the response.\<close>

definition read_load :: "bytes \<Rightarrow> nat \<Rightarrow> frame \<Rightarrow> client \<Rightarrow> (nat \<times> answer) option go" where
  "read_load spare i f cl =
     (if fr_Type f \<noteq> FrameTypeResponse \<or> fr_Payload f = [] then Ret None
      else go_bind (read_answer spare (fr_Payload f)) (\<lambda>a.
        Ret (map_option (\<lambda>ch. (ch, a)) (map_of (co_pending (cl_conns cl ! i) (answer_kind a)) (fr_StreamID f)))))"

fun failed_answer :: "kind \<Rightarrow> gostring \<Rightarrow> answer" where
  "failed_answer KvKind msg = KvAnswer (kv_fail msg)"
| "failed_answer SetKind msg = SetAnswer (set_fail 0 msg)"
| "failed_answer HashKind msg = HashAnswer (hash_fail 0 msg)"
| "failed_answer ListKind msg = ListAnswer (list_fail 0 msg)"

definition close_kind :: "nat \<Rightarrow> gostring \<Rightarrow> kind \<Rightarrow> client \<Rightarrow> client" where
  "close_kind i msg k cl =
     (let co = cl_conns cl ! i;
          cl = fold (\<lambda>(_, ch). chan_send ch (failed_answer k msg)) (co_pending co k) cl
      in set_conn cl i (set_pending co k []))"

text \<open>\<^verbatim>\<open>err.Error()\<close> on a nil error is a panic; it is evaluated only for a waiting caller.\<close>

definition closeAllPending :: "nat \<Rightarrow> gostring option \<Rightarrow> client \<Rightarrow> client go" where
  "closeAllPending i err cl =
     (case err of
        Some msg \<Rightarrow> Ret (close_kind i msg ListKind (close_kind i msg HashKind (close_kind i msg SetKind (close_kind i msg KvKind cl))))
      | None \<Rightarrow> if \<exists>k\<in>{KvKind, SetKind, HashKind, ListKind}. co_pending (cl_conns cl ! i) k \<noteq> [] then Panic else Ret cl)"

definition read_frame :: "bytes \<Rightarrow> nat \<Rightarrow> frame \<Rightarrow> client \<Rightarrow> client go" where
  "read_frame spare i f cl =
     (case read_load spare i f cl of
        Ret (Some (ch, a)) \<Rightarrow> Ret (chan_send ch a cl)
      | Ret None \<Rightarrow> Ret cl
      | Panic \<Rightarrow> closeAllPending i None cl)"

definition cc_close :: "nat \<Rightarrow> client \<Rightarrow> client go" where
  "cc_close i cl = closeAllPending i (Some ''connection closed'') (markBad i cl)"

definition Client_Close :: "client \<Rightarrow> client go" where
  "Client_Close cl = fold (\<lambda>i m. go_bind m (cc_close i)) [0..<length (cl_conns cl)] (Ret cl)"

section \<open>Runs\<close>

text \<open>The client with its unfinished calls, the lookups of the read loops that are not sent yet, and what has happened: the
  calls that went out, the responses that were looked up by connection and stream, and the responses callers received.\<close>

record world =
  wo_client :: client
  wo_calls :: "call list"
  wo_loaded :: "(nat \<times> nat \<times> answer) list"
  wo_started :: "call list"
  wo_read :: "(nat \<times> nat \<times> answer) list"
  wo_got :: "(call \<times> answer) list"

datatype client_event =
    Start nat job nat
  | Receive nat
  | Expire nat
  | WriteFails nat
  | Read nat frame
  | ReadError nat gostring
  | Load nat frame
  | Send nat
  | Close

definition world_init :: "nat \<Rightarrow> world" where
  "world_init n = \<lparr>wo_client = NewClient n, wo_calls = [], wo_loaded = [], wo_started = [], wo_read = [], wo_got = []\<rparr>"

definition without :: "nat \<Rightarrow> 'a list \<Rightarrow> 'a list" where
  "without n xs = take n xs @ drop (Suc n) xs"

definition looked_up :: "bytes \<Rightarrow> nat \<Rightarrow> frame \<Rightarrow> client \<Rightarrow> (nat \<times> nat \<times> answer) list" where
  "looked_up spare i f cl = (case read_load spare i f cl of Ret (Some (ch, a)) \<Rightarrow> [(i, fr_StreamID f, a)] | _ \<Rightarrow> [])"

primrec world_step :: "bytes \<Rightarrow> world \<Rightarrow> client_event \<Rightarrow> world go" where
  "world_step spare w (Start i j pick) =
     (if i \<ge> length (cl_conns (wo_client w)) then Ret w
      else case do_start i j pick (wo_client w) of
             (cl, Inl _) \<Rightarrow> Ret (w\<lparr>wo_client := cl\<rparr>)
           | (cl, Inr (ca, _)) \<Rightarrow> Ret (w\<lparr>wo_client := cl, wo_calls := wo_calls w @ [ca], wo_started := wo_started w @ [ca]\<rparr>))"
| "world_step spare w (Receive n) =
     (if n \<ge> length (wo_calls w) then Ret w
      else case do_receive (wo_calls w ! n) (wo_client w) of
             None \<Rightarrow> Ret w
           | Some (cl, a) \<Rightarrow> Ret (w\<lparr>wo_client := cl, wo_calls := without n (wo_calls w), wo_got := wo_got w @ [(wo_calls w ! n, a)]\<rparr>))"
| "world_step spare w (Expire n) =
     (if n \<ge> length (wo_calls w) then Ret w
      else Ret (w\<lparr>wo_client := fst (do_timeout (wo_calls w ! n) (wo_client w)), wo_calls := without n (wo_calls w)\<rparr>))"
| "world_step spare w (WriteFails n) =
     (if n \<ge> length (wo_calls w) then Ret w
      else Ret (w\<lparr>wo_client := fst (do_write_failed (wo_calls w ! n) (wo_client w)), wo_calls := without n (wo_calls w)\<rparr>))"
| "world_step spare w (Read i f) =
     (if i \<ge> length (cl_conns (wo_client w)) then Ret w
      else go_bind (read_frame spare i f (wo_client w)) (\<lambda>cl.
             Ret (w\<lparr>wo_client := cl, wo_read := wo_read w @ looked_up spare i f (wo_client w)\<rparr>)))"
| "world_step spare w (ReadError i msg) =
     (if i \<ge> length (cl_conns (wo_client w)) then Ret w
      else go_bind (closeAllPending i (Some msg) (wo_client w)) (\<lambda>cl. Ret (w\<lparr>wo_client := cl\<rparr>)))"
| "world_step spare w (Load i f) =
     (if i \<ge> length (cl_conns (wo_client w)) then Ret w
      else go_bind (read_load spare i f (wo_client w)) (\<lambda>r.
             Ret (w\<lparr>wo_loaded := wo_loaded w @ (case r of None \<Rightarrow> [] | Some (ch, a) \<Rightarrow> [(i, ch, a)]),
                    wo_read := wo_read w @ looked_up spare i f (wo_client w)\<rparr>)))"
| "world_step spare w (Send n) =
     (if n \<ge> length (wo_loaded w) then Ret w
      else case wo_loaded w ! n of (_, ch, a) \<Rightarrow>
             Ret (w\<lparr>wo_client := chan_send ch a (wo_client w), wo_loaded := without n (wo_loaded w)\<rparr>))"
| "world_step spare w Close = go_bind (Client_Close (wo_client w)) (\<lambda>cl. Ret (w\<lparr>wo_client := cl\<rparr>))"

primrec world_run :: "bytes \<Rightarrow> world \<Rightarrow> client_event list \<Rightarrow> world go" where
  "world_run spare w [] = Ret w"
| "world_run spare w (ev # evs) = go_bind (world_step spare w ev) (\<lambda>w. world_run spare w evs)"

fun atomic_read :: "client_event \<Rightarrow> bool" where
  "atomic_read (Load _ _) = False"
| "atomic_read (Send _) = False"
| "atomic_read _ = True"

definition own_answer :: "(nat \<times> nat \<times> answer) list \<Rightarrow> call \<Rightarrow> answer \<Rightarrow> bool" where
  "own_answer rd ca a \<longleftrightarrow>
     answer_kind a = ca_kind ca \<and>
     ((ca_conn ca, ca_sid ca, a) \<in> set rd \<or> (\<exists>msg. a = failed_answer (ca_kind ca) msg))"

definition stream_of :: "call \<Rightarrow> nat \<times> nat" where
  "stream_of ca = (ca_conn ca, ca_sid ca)"

section \<open>Channels and waiting callers\<close>

definition sound :: "(call \<Rightarrow> answer \<Rightarrow> bool) \<Rightarrow> call list \<Rightarrow> client \<Rightarrow> bool" where
  "sound R calls cl \<longleftrightarrow>
     distinct (map ca_chan calls) \<and> (\<forall>k. distinct (cl_pools cl k)) \<and>
     (\<forall>k k'. k \<noteq> k' \<longrightarrow> set (cl_pools cl k) \<inter> set (cl_pools cl k') = {}) \<and>
     (\<forall>k ch. ch \<in> set (cl_pools cl k) \<longrightarrow> ch < length (cl_chans cl) \<and> cl_chans cl ! ch = None) \<and>
     (\<forall>ca\<in>set calls. ca_chan ca < length (cl_chans cl) \<and> ca_conn ca < length (cl_conns cl) \<and>
        (\<forall>k. ca_chan ca \<notin> set (cl_pools cl k)) \<and> (\<forall>a. cl_chans cl ! ca_chan ca = Some a \<longrightarrow> R ca a)) \<and>
     (\<forall>i<length (cl_conns cl). \<forall>k sid ch. (sid, ch) \<in> set (co_pending (cl_conns cl ! i) k) \<longrightarrow>
        \<lparr>ca_conn = i, ca_kind = k, ca_sid = sid, ca_chan = ch\<rparr> \<in> set calls)"

lemma soundI:
  assumes "distinct (map ca_chan calls)" "\<And>k. distinct (cl_pools cl k)"
    "\<And>k k' ch. k \<noteq> k' \<Longrightarrow> ch \<in> set (cl_pools cl k) \<Longrightarrow> ch \<in> set (cl_pools cl k') \<Longrightarrow> False"
    "\<And>k ch. ch \<in> set (cl_pools cl k) \<Longrightarrow> ch < length (cl_chans cl) \<and> cl_chans cl ! ch = None"
    "\<And>ca. ca \<in> set calls \<Longrightarrow> ca_chan ca < length (cl_chans cl) \<and> ca_conn ca < length (cl_conns cl)"
    "\<And>ca k. ca \<in> set calls \<Longrightarrow> ca_chan ca \<notin> set (cl_pools cl k)"
    "\<And>ca a. ca \<in> set calls \<Longrightarrow> cl_chans cl ! ca_chan ca = Some a \<Longrightarrow> R ca a"
    "\<And>i k sid ch. i < length (cl_conns cl) \<Longrightarrow> (sid, ch) \<in> set (co_pending (cl_conns cl ! i) k) \<Longrightarrow>
       \<lparr>ca_conn = i, ca_kind = k, ca_sid = sid, ca_chan = ch\<rparr> \<in> set calls"
  shows "sound R calls cl"
  using assms unfolding sound_def by blast

lemma soundD:
  assumes "sound R calls cl"
  shows "distinct (map ca_chan calls)" "distinct (cl_pools cl k)"
    "k \<noteq> k' \<Longrightarrow> ch \<in> set (cl_pools cl k) \<Longrightarrow> ch \<notin> set (cl_pools cl k')"
    "ch \<in> set (cl_pools cl k) \<Longrightarrow> ch < length (cl_chans cl)" "ch \<in> set (cl_pools cl k) \<Longrightarrow> cl_chans cl ! ch = None"
    "ca \<in> set calls \<Longrightarrow> ca_chan ca < length (cl_chans cl)" "ca \<in> set calls \<Longrightarrow> ca_conn ca < length (cl_conns cl)"
    "ca \<in> set calls \<Longrightarrow> ca_chan ca \<notin> set (cl_pools cl k)"
    "ca \<in> set calls \<Longrightarrow> cl_chans cl ! ca_chan ca = Some a \<Longrightarrow> R ca a"
    "i < length (cl_conns cl) \<Longrightarrow> (sid, ch) \<in> set (co_pending (cl_conns cl ! i) k) \<Longrightarrow>
       \<lparr>ca_conn = i, ca_kind = k, ca_sid = sid, ca_chan = ch\<rparr> \<in> set calls"
  using assms unfolding sound_def by blast+

lemma sound_mono: "sound R calls cl \<Longrightarrow> (\<And>ca a. R ca a \<Longrightarrow> R' ca a) \<Longrightarrow> sound R' calls cl"
  unfolding sound_def by blast

lemma sound_chans:
  assumes "sound R calls cl" "length chs = length (cl_chans cl)"
    "\<And>k ch. ch \<in> set (cl_pools cl k) \<Longrightarrow> chs ! ch = None" "\<And>ca a. ca \<in> set calls \<Longrightarrow> chs ! ca_chan ca = Some a \<Longrightarrow> R ca a"
  shows "sound R calls (cl\<lparr>cl_chans := chs\<rparr>)"
  using assms unfolding sound_def by simp

lemma sound_one:
  assumes "sound R calls cl" "ca \<in> set calls" "ca' \<in> set calls" "ca_chan ca' = ca_chan ca"
  shows "ca' = ca"
  using soundD(1) [OF assms(1)] assms(2-4) by (auto simp: distinct_map inj_on_def)

lemma sound_chan_update:
  assumes "sound R calls cl" "ca \<in> set calls" "\<And>a. v = Some a \<Longrightarrow> R ca a"
  shows "sound R calls (cl\<lparr>cl_chans := (cl_chans cl)[ca_chan ca := v]\<rparr>)"
proof (rule sound_chans [OF assms(1)])
  note at = nth_list_update [OF soundD(6) [OF assms(1,2)]]
  show "(cl_chans cl)[ca_chan ca := v] ! ch = None" if "ch \<in> set (cl_pools cl k)" for ch k
    using soundD(5) [OF assms(1) that] soundD(8) [OF assms(1,2), of k] that unfolding at by metis
  show "R ca' a'" if "ca' \<in> set calls" "(cl_chans cl)[ca_chan ca := v] ! ca_chan ca' = Some a'" for ca' a'
  proof (cases "ca_chan ca' = ca_chan ca")
    case True
    have "ca' = ca" by (rule sound_one [OF assms(1,2) that(1) True])
    moreover have "v = Some a'" using that(2) True unfolding at by simp
    ultimately show ?thesis using assms(3) by simp
  next
    case False
    then have "cl_chans cl ! ca_chan ca' = Some a'" using that(2) unfolding at by simp
    then show ?thesis by (rule soundD(9) [OF assms(1) that(1)])
  qed
qed simp

lemma sound_send:
  assumes "sound R calls cl" "ca \<in> set calls" "R ca a"
  shows "sound R calls (chan_send (ca_chan ca) a cl)"
  using sound_chan_update [OF assms(1,2), of "Some a"] assms(1,3) by (simp add: chan_send_def)

text \<open>The pending callers of a connection, by kind and stream, are unfinished calls.\<close>

lemma sound_conn:
  assumes "sound R calls cl" "i < length (cl_conns cl)"
    "\<And>k sid ch. (sid, ch) \<in> set (co_pending co k) \<Longrightarrow> (sid, ch) \<in> set (co_pending (cl_conns cl ! i) k)
       \<or> \<lparr>ca_conn = i, ca_kind = k, ca_sid = sid, ca_chan = ch\<rparr> \<in> set calls"
  shows "sound R calls (set_conn cl i co)"
proof -
  have "\<lparr>ca_conn = m, ca_kind = k, ca_sid = sid, ca_chan = ch\<rparr> \<in> set calls"
    if "m < length (cl_conns cl)" "(sid, ch) \<in> set (co_pending ((cl_conns cl)[i := co] ! m) k)" for m k sid ch
    using that assms(3) [of sid ch k] soundD(10) [OF assms(1) that(1), of sid ch k] assms(2) by (cases "m = i") auto
  then show ?thesis using assms(1) unfolding sound_def set_conn_def by simp
qed

lemma sound_markBad: "sound R calls cl \<Longrightarrow> i < length (cl_conns cl) \<Longrightarrow> sound R calls (markBad i cl)"
  unfolding markBad_def by (rule sound_conn) auto

text \<open>The end of a call.\<close>

lemma set_AList_delete: "set (AList.delete k m) = {(k', v). (k', v) \<in> set m \<and> k' \<noteq> k}"
  by (auto simp: AList.delete_eq)

lemma sound_finish:
  assumes "sound R (xs @ ca # ys) cl"
  shows "sound R (xs @ ys) (do_finish ca cl)"
proof -
  let ?calls = "xs @ ca # ys" and ?k = "ca_kind ca"
  note s = soundD [OF assms]
  have ca: "ca \<in> set ?calls" by simp
  have chan: "ca_chan ca' \<noteq> ca_chan ca" if "ca' \<in> set (xs @ ys)" for ca'
    using s(1) imageI [OF that, of ca_chan] by auto
  define cl1 where "cl1 = set_conn cl (ca_conn ca) (set_pending (cl_conns cl ! ca_conn ca) ?k
      (AList.delete (ca_sid ca) (co_pending (cl_conns cl ! ca_conn ca) ?k)))"
  have "sound R ?calls cl1"
    unfolding cl1_def by (rule sound_conn [OF assms s(7) [OF ca]]) (auto simp: set_pending_def set_AList_delete split: if_splits)
  then have cl2: "sound R ?calls (cl1\<lparr>cl_chans := (cl_chans cl1)[ca_chan ca := None]\<rparr>)" (is "sound _ _ ?cl2")
    by (rule sound_chan_update) simp_all
  have gone: "(sid, ca_chan ca) \<notin> set (co_pending (cl_conns ?cl2 ! i) k)" if "i < length (cl_conns ?cl2)" for sid i k
  proof
    assume *: "(sid, ca_chan ca) \<in> set (co_pending (cl_conns ?cl2 ! i) k)"
    from soundD(10) [OF cl2 that *] have "\<lparr>ca_conn = i, ca_kind = k, ca_sid = sid, ca_chan = ca_chan ca\<rparr> = ca"
      by (intro sound_one [OF cl2 ca]) simp_all
    from arg_cong [OF this, of ca_conn] arg_cong [OF this, of ca_kind] arg_cong [OF this, of ca_sid]
    have "i = ca_conn ca" "k = ?k" "sid = ca_sid ca" by simp_all
    then show False using * that by (simp add: cl1_def set_conn_def set_pending_def set_AList_delete)
  qed
  have "sound R (xs @ ys) (?cl2\<lparr>cl_pools := (cl_pools ?cl2)(?k := ca_chan ca # cl_pools ?cl2 ?k)\<rparr>)"
  proof (rule soundI, goal_cases)
    case (3 k k' ch)
    then show ?case using soundD(3) [OF cl2 3(1), of ch] soundD(8) [OF cl2 ca] by (auto split: if_splits)
  next
    case (4 k ch)
    then show ?case using soundD(4,5) [OF cl2, of ch k] soundD(6) [OF cl2 ca] by (auto split: if_splits)
  next
    case (5 ca')
    then have "ca' \<in> set ?calls" by auto
    from soundD(6,7) [OF cl2 this] show ?case by simp
  next
    case (6 ca' k)
    then have "ca' \<in> set ?calls" by auto
    from soundD(8) [OF cl2 this] chan [OF 6] show ?case by simp
  next
    case (7 ca' a)
    then have "ca' \<in> set ?calls" by auto
    from soundD(9) [OF cl2 this, of a] 7 show ?case by simp
  next
    case (8 i k sid ch)
    then have i: "i < length (cl_conns ?cl2)" and p: "(sid, ch) \<in> set (co_pending (cl_conns ?cl2 ! i) k)" by simp_all
    have "ch \<noteq> ca_chan ca" using gone [OF i, of sid k] p by metis
    with soundD(10) [OF cl2 i p] show ?case by auto
  qed (use s(1) soundD(2) [OF cl2] soundD(8) [OF cl2 ca] in simp_all)
  then show ?thesis by (simp add: do_finish_def Let_def cl1_def set_conn_def)
qed

lemma set_AList_update: "x \<in> set (AList.update k v m) \<Longrightarrow> x = (k, v) \<or> x \<in> set m"
  by (induction m) (auto split: if_splits)

text \<open>A channel from the pool is empty and belongs to nobody else.\<close>

lemma pool_get_fresh:
  assumes "sound R calls cl" "pool_get k pick cl = (cl1, ch)"
  shows "cl_conns cl1 = cl_conns cl" "distinct (cl_pools cl1 k')" "set (cl_pools cl1 k') \<subseteq> set (cl_pools cl k')"
    "ch \<notin> set (cl_pools cl1 k')" "ch < length (cl_chans cl1)" "cl_chans cl1 ! ch = None"
    "c < length (cl_chans cl) \<Longrightarrow> c < length (cl_chans cl1) \<and> cl_chans cl1 ! c = cl_chans cl ! c" "ch \<notin> ca_chan ` set calls"
proof -
  note s = soundD [OF assms(1)]
  let ?pool = "take pick (cl_pools cl k) @ drop (Suc pick) (cl_pools cl k)"
  have "cl_conns cl1 = cl_conns cl \<and> distinct (cl_pools cl1 k') \<and> set (cl_pools cl1 k') \<subseteq> set (cl_pools cl k')
    \<and> ch \<notin> set (cl_pools cl1 k') \<and> ch < length (cl_chans cl1) \<and> cl_chans cl1 ! ch = None
    \<and> (c < length (cl_chans cl) \<longrightarrow> c < length (cl_chans cl1) \<and> cl_chans cl1 ! c = cl_chans cl ! c) \<and> ch \<notin> ca_chan ` set calls"
  proof (cases "pick < length (cl_pools cl k)")
    case True
    then have ch: "ch = cl_pools cl k ! pick" and cl1: "cl1 = cl\<lparr>cl_pools := (cl_pools cl)(k := ?pool)\<rparr>"
      using assms(2) by (auto simp: pool_get_def Let_def)
    have split: "cl_pools cl k = take pick (cl_pools cl k) @ ch # drop (Suc pick) (cl_pools cl k)"
      unfolding ch by (rule id_take_nth_drop [OF True])
    have "distinct (take pick (cl_pools cl k) @ ch # drop (Suc pick) (cl_pools cl k))" using s(2) [of k] split by metis
    then have d: "distinct ?pool" "ch \<notin> set ?pool" by auto
    have m: "ch \<in> set (cl_pools cl k)" unfolding ch using True by simp
    have "set ?pool \<subseteq> set (cl_pools cl k)" using set_take_subset set_drop_subset by fastforce
    moreover have "ch \<notin> set (cl_pools cl k')" if "k' \<noteq> k" using s(3) [OF _ m, of k'] that by metis
    moreover have "ch \<notin> ca_chan ` set calls" using s(8) m by blast
    ultimately show ?thesis using d s(2) [of k'] s(4,5) [OF m] by (simp add: cl1)
  next
    case False
    then have eq: "ch = length (cl_chans cl)" "cl1 = cl\<lparr>cl_chans := cl_chans cl @ [None]\<rparr>"
      using assms(2) by (auto simp: pool_get_def Let_def)
    have "length (cl_chans cl) \<notin> set (cl_pools cl k')" using s(4) [of "length (cl_chans cl)" k'] by blast
    moreover have "length (cl_chans cl) \<notin> ca_chan ` set calls" using s(6) by fastforce
    ultimately show ?thesis using s(2) [of k'] by (simp add: eq nth_append)
  qed
  then show "cl_conns cl1 = cl_conns cl" "distinct (cl_pools cl1 k')" "set (cl_pools cl1 k') \<subseteq> set (cl_pools cl k')"
    "ch \<notin> set (cl_pools cl1 k')" "ch < length (cl_chans cl1)" "cl_chans cl1 ! ch = None"
    "c < length (cl_chans cl) \<Longrightarrow> c < length (cl_chans cl1) \<and> cl_chans cl1 ! c = cl_chans cl ! c" "ch \<notin> ca_chan ` set calls"
    by blast+
qed

lemma sound_fresh:
  assumes "sound R calls cl" "i < length (cl_conns cl)" "pool_get k pick cl = (cl1, ch)"
  shows "sound R (calls @ [\<lparr>ca_conn = i, ca_kind = k, ca_sid = sid, ca_chan = ch\<rparr>]) cl1"
proof (rule soundI, goal_cases)
  note s = soundD [OF assms(1)] and f = pool_get_fresh [OF assms(1,3)]
  {
    case 1 show ?case using s(1) f(8) by simp
  next
    case (2 k') show ?case by (rule f(2))
  next
    case (3 k k' ch') then show ?case using s(3) [OF 3(1), of ch'] f(3) by blast
  next
    case (4 k' ch') then have m: "ch' \<in> set (cl_pools cl k')" using f(3) by blast
    from s(4,5) [OF m] f(7) [of ch'] show ?case by simp
  next
    case (5 ca) then show ?case using s(6,7) [of ca] f(5) f(7) [of "ca_chan ca"] assms(2) by (auto simp: f(1))
  next
    case (6 ca k') then show ?case using s(8) [of ca k'] f(3) [of k'] f(4) [of k'] by auto
  next
    case (7 ca a) then show ?case using s(6) [of ca] s(9) [of ca a] f(6) f(7) [of "ca_chan ca"] by auto
  next
    case (8 m k' sid' ch') then show ?case using s(10) [of m sid' ch' k'] by (simp add: f(1))
  }
qed

lemma sound_start:
  assumes "sound R calls cl" "i < length (cl_conns cl)" "pool_get k pick cl = (cl1, ch)"
  shows "sound R (calls @ [\<lparr>ca_conn = i, ca_kind = k, ca_sid = sid, ca_chan = ch\<rparr>])
    (set_conn cl1 i (set_pending ((cl_conns cl ! i)\<lparr>co_nextStreamID := n\<rparr>) k (AList.update sid ch (co_pending (cl_conns cl ! i) k))))"
  by (rule sound_conn [OF sound_fresh [OF assms]])
    (use pool_get_fresh(1) [OF assms(1,3)] assms(2) in \<open>auto simp: set_pending_def dest!: set_AList_update split: if_splits\<close>)

lemma sound_do_start:
  assumes "sound R calls cl" "i < length (cl_conns cl)" "do_start i j pick cl = (cl', r)"
  shows "case r of Inl _ \<Rightarrow> sound R calls cl' | Inr (ca, f) \<Rightarrow> sound R (calls @ [ca]) cl'"
proof -
  obtain cl1 ch where g: "pool_get (job_kind j) pick cl = (cl1, ch)" by (metis surj_pair)
  let ?sid = "next_stream (co_nextStreamID (cl_conns cl ! i))"
  note st = sound_start [OF assms(1,2) g, of ?sid ?sid]
  show ?thesis
    using assms(1,3) st sound_finish [OF st, simplified] g
    by (auto simp: do_start_def Let_def split: if_splits option.splits)
qed

text \<open>Failing every waiting caller.\<close>

lemma chan_send_conns [simp]: "cl_conns (chan_send ch a cl) = cl_conns cl"
  by (simp add: chan_send_def)

lemma fold_send_conns [simp]: "cl_conns (fold (\<lambda>(_, ch). chan_send ch a) m cl) = cl_conns cl"
  by (induction m arbitrary: cl) auto

lemma sound_fold_send:
  assumes "sound R calls cl" "\<forall>(sid, ch)\<in>set m. \<exists>ca\<in>set calls. ca_chan ca = ch \<and> R ca a"
  shows "sound R calls (fold (\<lambda>(_, ch). chan_send ch a) m cl)"
  using assms
proof (induction m arbitrary: cl)
  case (Cons p m)
  obtain sid ch where p: "p = (sid, ch)" by (cases p)
  obtain ca where ca: "ca \<in> set calls" "ca_chan ca = ch" "R ca a" using Cons.prems(2) by (auto simp: p)
  have "sound R calls (chan_send ch a cl)" using sound_send [OF Cons.prems(1) ca(1,3)] ca(2) by simp
  then show ?case using Cons.IH [of "chan_send ch a cl"] Cons.prems(2) by (simp add: p)
qed simp

lemma sound_close_kind:
  assumes "sound R calls cl" "i < length (cl_conns cl)" "\<And>ca. R ca (failed_answer (ca_kind ca) msg)"
  shows "sound R calls (close_kind i msg k cl)"
proof -
  let ?m = "co_pending (cl_conns cl ! i) k"
  have "\<exists>ca\<in>set calls. ca_chan ca = ch \<and> R ca (failed_answer k msg)" if "(sid, ch) \<in> set ?m" for sid ch
    using soundD(10) [OF assms(1,2) that] assms(3) [of "\<lparr>ca_conn = i, ca_kind = k, ca_sid = sid, ca_chan = ch\<rparr>"] by force
  then have "sound R calls (fold (\<lambda>(_, ch). chan_send ch (failed_answer k msg)) ?m cl)"
    by (intro sound_fold_send [OF assms(1)]) auto
  then show ?thesis
    unfolding close_kind_def Let_def by (rule sound_conn) (use assms(2) in \<open>auto simp: set_pending_def split: if_splits\<close>)
qed

text \<open>What no operation but the start of a call changes: the number of connections and their stream counters.\<close>

definition streams :: "client \<Rightarrow> nat list" where
  "streams cl = map co_nextStreamID (cl_conns cl)"

lemma length_streams [simp]: "length (streams cl) = length (cl_conns cl)"
  by (simp add: streams_def)

lemma streams_set_conn:
  "co_nextStreamID co = co_nextStreamID (cl_conns cl ! i) \<Longrightarrow> streams (set_conn cl i co) = streams cl"
  by (rule nth_equalityI) (auto simp: streams_def set_conn_def nth_list_update, metis nth_list_update_eq nth_list_update_neq)

lemma streams_same [simp]:
  "streams (cl\<lparr>cl_chans := chs\<rparr>) = streams cl" "streams (cl\<lparr>cl_pools := ps\<rparr>) = streams cl"
  "streams (do_finish ca cl) = streams cl" "streams (markBad i cl) = streams cl" "streams (chan_send ch a cl) = streams cl"
  "streams (close_kind i msg k cl) = streams cl"
proof -
  show 1: "streams (cl\<lparr>cl_chans := chs\<rparr>) = streams cl" "streams (cl\<lparr>cl_pools := ps\<rparr>) = streams cl" for cl :: client and chs ps
    by (simp_all add: streams_def)
  show "streams (do_finish ca cl) = streams cl"
    by (simp add: do_finish_def Let_def 1) (rule streams_set_conn, simp add: set_pending_def)
  show "streams (markBad i cl) = streams cl" by (simp add: markBad_def) (rule streams_set_conn, simp)
  show "streams (chan_send ch a cl) = streams cl" by (simp add: streams_def)
  show "streams (close_kind i msg k cl) = streams cl"
    unfolding close_kind_def Let_def
    by (subst streams_set_conn) (simp_all add: set_pending_def streams_def)
qed

lemma closeAllPending_streams: "closeAllPending i err cl = Ret cl' \<Longrightarrow> streams cl' = streams cl"
  by (auto simp: closeAllPending_def split: option.splits if_splits)

lemma streams_length: "streams cl' = streams cl \<Longrightarrow> length (cl_conns cl') = length (cl_conns cl)"
  by (metis length_streams)

lemma sound_closeAllPending:
  assumes "sound R calls cl" "i < length (cl_conns cl)" "\<And>ca msg. R ca (failed_answer (ca_kind ca) msg)"
    "closeAllPending i err cl = Ret cl'"
  shows "sound R calls cl'"
proof (cases err)
  case None
  then show ?thesis using assms(1,4) by (auto simp: closeAllPending_def split: if_splits)
next
  case (Some msg)
  have "i < length (cl_conns (close_kind i msg k cl))" if "i < length (cl_conns cl)" for cl k
    using streams_length [OF streams_same(6), of i msg k cl] that by simp
  then show ?thesis using Some assms(1,2,4) by (auto simp: closeAllPending_def intro!: sound_close_kind assms(3))
qed

lemma sound_Client_Close:
  assumes "sound R calls cl" "\<And>ca msg. R ca (failed_answer (ca_kind ca) msg)" "Client_Close cl = Ret cl'"
  shows "sound R calls cl' \<and> streams cl' = streams cl"
proof -
  have "sound R calls cl2 \<and> streams cl2 = streams cl"
    if "sound R calls cl1" "streams cl1 = streams cl" "\<forall>i\<in>set is. i < length (cl_conns cl)"
      "fold (\<lambda>i m. go_bind m (cc_close i)) is (Ret cl1) = Ret cl2" for "is" cl1 cl2
    using that
  proof (induction "is" arbitrary: cl1)
    case (Cons i "is")
    have p: "fold (\<lambda>i m. go_bind m (cc_close i)) js Panic = Panic" for js :: "nat list" by (induction js) auto
    obtain cl3 where cc: "cc_close i cl1 = Ret cl3" using Cons.prems(4) by (cases "cc_close i cl1") (auto simp: p)
    note c = cc [unfolded cc_close_def]
    have i: "i < length (cl_conns cl1)" using Cons.prems(2,3) streams_length [of cl1 cl] by simp
    have "i < length (cl_conns (markBad i cl1))" using i streams_length [OF streams_same(4), of i cl1] by simp
    from sound_closeAllPending [OF sound_markBad [OF Cons.prems(1) i] this assms(2) c]
    have "sound R calls cl3" .
    moreover have "streams cl3 = streams cl" using closeAllPending_streams [OF c] Cons.prems(2) by simp
    ultimately show ?case using Cons.IH [of cl3] Cons.prems(3,4) cc by simp
  qed simp
  from this [of cl "[0..<length (cl_conns cl)]" cl'] assms(1,3) show ?thesis by (simp add: Client_Close_def)
qed

section \<open>Runs with an atomic read\<close>

definition world_inv :: "nat \<Rightarrow> world \<Rightarrow> bool" where
  "world_inv n w \<longleftrightarrow>
     sound (own_answer (wo_read w)) (wo_calls w) (wo_client w) \<and>
     (\<forall>(ca, a)\<in>set (wo_got w). own_answer (wo_read w) ca a) \<and>
     distinct (map stream_of (wo_started w)) \<and>
     (\<forall>ca\<in>set (wo_started w). ca_conn ca < length (cl_conns (wo_client w)) \<and> ca_sid ca \<le> streams (wo_client w) ! ca_conn ca) \<and>
     (\<forall>i<length (cl_conns (wo_client w)). streams (wo_client w) ! i \<le> n)"

lemma own_answer_mono: "own_answer rd ca a \<Longrightarrow> own_answer (rd @ rd') ca a"
  by (auto simp: own_answer_def)

lemma own_answer_failed: "own_answer rd ca (failed_answer (ca_kind ca) msg)"
  by (cases "ca_kind ca") (auto simp: own_answer_def)

lemma world_inv_client:
  assumes "world_inv n w" "streams cl = streams (wo_client w)" "sound (own_answer (wo_read w @ rd)) calls cl"
    "\<And>ca a. (ca, a) \<in> set got \<Longrightarrow> own_answer (wo_read w @ rd) ca a"
  shows "world_inv (Suc n) (w\<lparr>wo_client := cl, wo_calls := calls, wo_read := wo_read w @ rd, wo_got := wo_got w @ got\<rparr>)"
  using assms streams_length [OF assms(2)] unfolding world_inv_def
  by (auto intro: own_answer_mono le_SucI)

lemma world_inv_init: "world_inv 0 (world_init n)"
  by (auto simp: world_inv_def world_init_def sound_def NewClient_def new_conn_def streams_def)

lemma without_split: "n < length xs \<Longrightarrow> xs = take n xs @ xs ! n # drop (Suc n) xs"
  by (rule id_take_nth_drop)

lemma sound_end: "sound R calls cl \<Longrightarrow> n < length calls \<Longrightarrow> sound R (without n calls) (do_finish (calls ! n) cl)"
  unfolding without_def by (rule sound_finish) (metis without_split)

lemma step_Receive:
  assumes "world_inv n w" "world_step spare w (Receive m) = Ret w'"
  shows "world_inv (Suc n) w'"
proof (cases "m < length (wo_calls w) \<and> cl_chans (wo_client w) ! ca_chan (wo_calls w ! m) \<noteq> None")
  case True
  let ?ca = "wo_calls w ! m" and ?cl = "(wo_client w)\<lparr>cl_chans := (cl_chans (wo_client w))[ca_chan (wo_calls w ! m) := None]\<rparr>"
  obtain a where a: "cl_chans (wo_client w) ! ca_chan ?ca = Some a" using True by blast
  have s: "sound (own_answer (wo_read w)) (wo_calls w) (wo_client w)" using assms(1) by (simp add: world_inv_def)
  have ca: "?ca \<in> set (wo_calls w)" using True by simp
  have "sound (own_answer (wo_read w)) (wo_calls w) ?cl" by (rule sound_chan_update [OF s ca]) simp
  then have "sound (own_answer (wo_read w)) (without m (wo_calls w)) (do_finish ?ca ?cl)" using True by (intro sound_end) auto
  moreover have "own_answer (wo_read w) ?ca a" by (rule soundD(9) [OF s ca a])
  ultimately show ?thesis
    using assms(2) True a world_inv_client [OF assms(1), of "do_finish ?ca ?cl" "[]" "without m (wo_calls w)" "[(?ca, a)]"]
    by (auto simp: do_receive_def)
next
  case False
  then show ?thesis
    using assms world_inv_client [OF assms(1), of "wo_client w" "[]" "wo_calls w" "[]"]
    by (auto simp: do_receive_def world_inv_def split: if_splits)
qed

lemma step_Read:
  assumes "world_inv n w" "world_step spare w (Read i f) = Ret w'"
  shows "world_inv (Suc n) w'"
proof (cases "i < length (cl_conns (wo_client w))")
  case True
  let ?rd = "wo_read w @ looked_up spare i f (wo_client w)"
  obtain cl where cl: "read_frame spare i f (wo_client w) = Ret cl" and w': "w' = w\<lparr>wo_client := cl, wo_read := ?rd\<rparr>"
    using assms(2) True by auto
  have s: "sound (own_answer ?rd) (wo_calls w) (wo_client w)"
    using assms(1) by (auto simp: world_inv_def intro: sound_mono own_answer_mono)
  have "sound (own_answer ?rd) (wo_calls w) cl \<and> streams cl = streams (wo_client w)"
  proof (cases "read_load spare i f (wo_client w)")
    case Panic
    then have c: "closeAllPending i None (wo_client w) = Ret cl" using cl by (simp add: read_frame_def)
    show ?thesis
      using sound_closeAllPending [OF s True own_answer_failed c] closeAllPending_streams [OF c] by simp
  next
    case (Ret r)
    show ?thesis
    proof (cases r)
      case None
      then show ?thesis using Ret cl s by (simp add: read_frame_def)
    next
      case (Some p)
      then obtain ch a where p: "r = Some (ch, a)" by (cases p) auto
      let ?ca = "\<lparr>ca_conn = i, ca_kind = answer_kind a, ca_sid = fr_StreamID f, ca_chan = ch\<rparr>"
      have "map_of (co_pending (cl_conns (wo_client w) ! i) (answer_kind a)) (fr_StreamID f) = Some ch"
        using Ret p by (auto simp: read_load_def split: if_splits)
      from soundD(10) [OF s True map_of_SomeD [OF this]] have ca: "?ca \<in> set (wo_calls w)" .
      have "own_answer ?rd ?ca a" using Ret p by (simp add: own_answer_def looked_up_def)
      from sound_send [OF s ca this] show ?thesis using Ret p cl by (auto simp: read_frame_def)
    qed
  qed
  then show ?thesis
    using world_inv_client [OF assms(1), of cl "looked_up spare i f (wo_client w)" "wo_calls w" "[]"] by (simp add: w')
next
  case False
  then show ?thesis using assms by (auto simp: world_inv_def le_SucI)
qed

lemma next_stream_small: "n < 2 ^ 32 - 1 \<Longrightarrow> next_stream n = n + 1"
  by (simp add: next_stream_def Let_def)

lemma do_start_streams:
  assumes "do_start i j pick cl = (cl', r)" "i < length (cl_conns cl)"
  shows "streams cl' = (if co_closed (cl_conns cl ! i) then streams cl else (streams cl)[i := next_stream (streams cl ! i)])"
    "r = Inr (ca, f) \<Longrightarrow> ca_conn ca = i \<and> ca_sid ca = next_stream (streams cl ! i) \<and> \<not> co_closed (cl_conns cl ! i)"
proof -
  obtain cl1 ch where g: "pool_get (job_kind j) pick cl = (cl1, ch)" by (metis surj_pair)
  then have same: "cl_conns cl1 = cl_conns cl" by (auto simp: pool_get_def Let_def split: if_splits)
  have at: "streams (set_conn cl1 i co) = (streams cl)[i := co_nextStreamID co]" for co
    by (simp add: streams_def set_conn_def map_update same)
  have n: "streams cl ! i = co_nextStreamID (cl_conns cl ! i)" using assms(2) by (simp add: streams_def)
  show "streams cl' = (if co_closed (cl_conns cl ! i) then streams cl else (streams cl)[i := next_stream (streams cl ! i)])"
    using assms g by (auto simp: do_start_def Let_def at set_pending_def n split: if_splits option.splits)
  show "r = Inr (ca, f) \<Longrightarrow> ca_conn ca = i \<and> ca_sid ca = next_stream (streams cl ! i) \<and> \<not> co_closed (cl_conns cl ! i)"
    using assms g by (auto simp: do_start_def Let_def n split: if_splits option.splits)
qed

lemma step_Start:
  assumes "world_inv n w" "n < 2 ^ 32 - 1" "world_step spare w (Start i j pick) = Ret w'"
  shows "world_inv (Suc n) w'"
proof (cases "i < length (cl_conns (wo_client w))")
  case True
  let ?cl = "wo_client w"
  obtain cl r where st: "do_start i j pick ?cl = (cl, r)" by (metis surj_pair)
  note inv = assms(1) [unfolded world_inv_def]
  have n: "streams ?cl ! i \<le> n" using inv True by simp
  have small: "next_stream (streams ?cl ! i) = streams ?cl ! i + 1" "streams ?cl ! i \<le> n"
    using next_stream_small [of "streams ?cl ! i"] n assms(2) by simp_all
  note str = do_start_streams(1) [OF st True, unfolded small]
  have len: "length (cl_conns cl) = length (cl_conns ?cl)" using arg_cong [OF str, of length] by (simp split: if_splits)
  have up: "streams ?cl ! m \<le> streams cl ! m \<and> streams cl ! m \<le> Suc n" if "m < length (cl_conns ?cl)" for m
    using str inv that small(2) True by (cases "m = i") (auto simp: le_SucI split: if_splits)
  have s: "case r of Inl _ \<Rightarrow> sound (own_answer (wo_read w)) (wo_calls w) cl
      | Inr (ca, f) \<Rightarrow> sound (own_answer (wo_read w)) (wo_calls w @ [ca]) cl"
    using sound_do_start [OF _ True st] inv by blast
  have old: "ca_conn ca < length (cl_conns cl) \<and> ca_sid ca \<le> streams cl ! ca_conn ca" if "ca \<in> set (wo_started w)" for ca
    using inv that up [of "ca_conn ca"] by (auto simp: len intro: le_trans)
  show ?thesis
  proof (cases r)
    case (Inl e)
    then have "w' = w\<lparr>wo_client := cl\<rparr>" using assms(3) True st by simp
    then show ?thesis using inv s Inl old up by (auto simp: world_inv_def len)
  next
    case (Inr p)
    then obtain ca f where p: "r = Inr (ca, f)" by (cases p) auto
    then have w': "w' = w\<lparr>wo_client := cl, wo_calls := wo_calls w @ [ca], wo_started := wo_started w @ [ca]\<rparr>"
      using assms(3) True st by simp
    have ca: "ca_conn ca = i" "ca_sid ca = streams ?cl ! i + 1" "\<not> co_closed (cl_conns ?cl ! i)"
      using do_start_streams(2) [OF st True p] by (simp_all add: small)
    have "stream_of ca \<notin> stream_of ` set (wo_started w)"
      using inv by (auto simp: stream_of_def ca)
    moreover have "ca_sid ca \<le> streams cl ! i" using str True by (simp add: ca)
    ultimately show ?thesis using inv s p old up True by (auto simp: world_inv_def len w' ca)
  qed
next
  case False
  then show ?thesis using assms by (auto simp: world_inv_def le_SucI)
qed

lemma world_step_inv:
  assumes "world_inv n w" "n < 2 ^ 32 - 1" "atomic_read ev" "world_step spare w ev = Ret w'"
  shows "world_inv (Suc n) w'"
proof -
  have s: "sound (own_answer (wo_read w)) (wo_calls w) (wo_client w)" using assms(1) by (simp add: world_inv_def)
  have stay: "world_inv (Suc n) w" using assms(1) by (auto simp: world_inv_def le_SucI)
  note upd = world_inv_client [OF assms(1), where rd = "[]" and got = "[]", simplified]
  show ?thesis
  proof (cases ev)
    case (Start i j pick)
    then show ?thesis using step_Start assms by blast
  next
    case (Receive m)
    then show ?thesis using step_Receive assms by blast
  next
    case (Read i f)
    then show ?thesis using step_Read assms by blast
  next
    case (Expire m)
    then show ?thesis
      using assms(4) stay sound_end [OF s, of m] by (auto simp: do_timeout_def intro!: upd split: if_splits)
  next
    case (WriteFails m)
    have "sound (own_answer (wo_read w)) (wo_calls w) (markBad (ca_conn (wo_calls w ! m)) (wo_client w))" if "m < length (wo_calls w)"
      using that by (intro sound_markBad [OF s] soundD(7) [OF s]) simp
    then show ?thesis
      using WriteFails assms(4) stay by (auto simp: do_write_failed_def intro!: upd sound_end split: if_splits)
  next
    case (ReadError i msg)
    then show ?thesis
      using assms(4) stay sound_closeAllPending [OF s _ own_answer_failed, of i "Some msg"] closeAllPending_streams [of i "Some msg"]
      by (auto intro!: upd [where calls = "wo_calls w", simplified] split: if_splits)
  next
    case Close
    then show ?thesis
      using assms(4) sound_Client_Close [OF s own_answer_failed]
      by (auto intro!: upd [where calls = "wo_calls w", simplified])
  qed (use assms(3) in simp_all)
qed

lemma world_run_inv:
  assumes "world_inv n w" "n + length evs < 2 ^ 32" "\<forall>ev\<in>set evs. atomic_read ev" "world_run spare w evs = Ret w'"
  shows "world_inv (n + length evs) w'"
  using assms
proof (induction evs arbitrary: n w)
  case (Cons ev evs)
  obtain w1 where w1: "world_step spare w ev = Ret w1" "world_run spare w1 evs = Ret w'" using Cons.prems(4) by auto
  have "world_inv (Suc n) w1" using Cons.prems w1(1) by (intro world_step_inv) auto
  from Cons.IH [OF this] show ?case using Cons.prems w1(2) by simp
qed simp

text \<open>(C10) In a run of the client of fewer than 2^32 events in which the read loop looks up a caller and sends to its channel in
  one step, every response a caller received answers its own request: it was read on the connection of the call
  under the stream number of the call, or is the failure of the connection, and it is of the kind of the request.  No two
  calls of the run share a connection and a stream number.\<close>

theorem calls_get_own_answers:
  assumes "length evs < 2 ^ 32" "\<forall>ev\<in>set evs. atomic_read ev" "world_run spare (world_init n) evs = Ret w" "(ca, a) \<in> set (wo_got w)"
  shows "answer_kind a = ca_kind ca
    \<and> ((ca_conn ca, ca_sid ca, a) \<in> set (wo_read w) \<or> (\<exists>msg. a = failed_answer (ca_kind ca) msg))
    \<and> distinct (map stream_of (wo_started w))"
proof -
  have "world_inv (0 + length evs) w" by (rule world_run_inv [OF world_inv_init _ assms(2,3)]) (use assms(1) in simp)
  then show ?thesis
    using assms(4) by (auto simp: world_inv_def own_answer_def)
qed

definition get_job :: "gostring \<Rightarrow> job" where
  "get_job k = KvJob \<lparr>rq_Cmd = CmdGet, rq_Key = k, rq_Value = [], rq_TTL = 0\<rparr>"

definition value_frame :: "nat \<Rightarrow> bytes \<Rightarrow> frame" where
  "value_frame sid v = \<lparr>fr_StreamID = sid, fr_Type = FrameTypeResponse, fr_Flags = 0, fr_Payload = Response_EncodePayload (kv_ok v)\<rparr>"

definition own_run :: "client_event list" where
  "own_run = [Start 0 (get_job ''a'') 0, Start 0 (get_job ''b'') 0, Read 0 (value_frame 2 [7]), Receive 1]"

lemma own_run_result:
  "case world_run [] (world_init 1) own_run of
     Ret w \<Rightarrow> wo_got w = [(\<lparr>ca_conn = 0, ca_kind = KvKind, ca_sid = 2, ca_chan = 1\<rparr>, KvAnswer (kv_ok [7]))] | Panic \<Rightarrow> False"
  by code_simp

theorem calls_get_own_answers_witness:
  "\<exists>w. world_run [] (world_init 1) own_run = Ret w \<and> wo_got w \<noteq> [] \<and>
     (\<forall>(ca, a)\<in>set (wo_got w). answer_kind a = ca_kind ca \<and>
        ((ca_conn ca, ca_sid ca, a) \<in> set (wo_read w) \<or> (\<exists>msg. a = failed_answer (ca_kind ca) msg)))
     \<and> distinct (map stream_of (wo_started w))"
proof -
  obtain w where w: "world_run [] (world_init 1) own_run = Ret w" "wo_got w \<noteq> []"
    using own_run_result by (cases "world_run [] (world_init 1) own_run") auto
  have l: "length own_run < 2 ^ 32" "\<forall>ev\<in>set own_run. atomic_read ev" by (simp_all add: own_run_def)
  note own = calls_get_own_answers [OF l w(1)]
  from w(2) obtain ca a where "(ca, a) \<in> set (wo_got w)" by (cases "wo_got w") auto
  from own [OF this] show ?thesis using w own by blast
qed

definition late_run :: "client_event list" where
  "late_run =
     [Start 0 (get_job ''a'') 0, Load 0 (value_frame 1 [1]), Expire 0, Start 0 (get_job ''b'') 0, Send 0, Receive 0]"


text \<open>A response whose decoder panics takes the whole client process down: the deferred handler of the read loop calls
  \<^verbatim>\<open>closeAllPending(nil)\<close>, and for the first waiting caller that is a call of \<^verbatim>\<open>Error\<close> on a nil error, outside every recovery.\<close>

theorem malformed_response_crashes_client:
  assumes "fr_Type f = FrameTypeResponse" "fr_Payload f \<noteq> []" "read_answer spare (fr_Payload f) = Panic"
    "co_pending (cl_conns cl ! i) k \<noteq> []"
  shows "read_frame spare i f cl = Panic"
  using assms by (cases k) (auto simp: read_frame_def read_load_def closeAllPending_def)

theorem malformed_response_crashes_client_witness:
  "let cl = fst (do_start 0 (get_job ''a'') 0 (NewClient 1));
       f = \<lparr>fr_StreamID = 9, fr_Type = FrameTypeResponse, fr_Flags = 0, fr_Payload = [StatusErr, 0, 0, 0, 0, 0, 5]\<rparr>
   in read_frame [] 0 f cl = Panic"
  unfolding Let_def
  by (rule malformed_response_crashes_client [where k = KvKind]; code_simp)

end
