(* ===== verification/Replication.thy ===== *)
theory Replication
  imports Server Cache_Run
begin

text \<open>
  The replicated state machine of \<^verbatim>\<open>net/raft_cmd.go\<close>: a server registers a waiting caller under a request number, the
  committed log is applied entry by entry, and applying an entry answers the caller that waits under its number.  The theorems
  say which part of the cache two replicas agree on, and show the cases where the answers or the replicas go wrong.
\<close>

section \<open>A replica\<close>

record replica =
  rp_cache :: cache
  rp_raftNextReqID :: nat
  rp_raftPending :: "nat list"
  rp_answered :: "(nat \<times> raft_result) list"

definition new_replica :: "cache \<Rightarrow> replica" where
  "new_replica c = \<lparr>rp_cache = c, rp_raftNextReqID = 0, rp_raftPending = [], rp_answered = []\<rparr>"

text \<open>The part of \<^verbatim>\<open>raftPropose\<close> on the leader before it waits: the command that is handed to the log.\<close>

definition propose_start :: "server_env \<Rightarrow> replica \<Rightarrow> raft_command \<Rightarrow> replica \<times> (gostring + raft_command)" where
  "propose_start se rp rc =
     (let id = w64 (rp_raftNextReqID rp + 1); rp = rp\<lparr>rp_raftNextReqID := id\<rparr>
      in case json_command se (rc\<lparr>rc_ReqID := id\<rparr>) of
           Inl err \<Rightarrow> (rp, Inl err)
         | Inr rc \<Rightarrow> (rp\<lparr>rp_raftPending := id # removeAll id (rp_raftPending rp)\<rparr>, Inr rc))"

definition propose_give_up :: "nat \<Rightarrow> replica \<Rightarrow> replica" where
  "propose_give_up reqID rp = rp\<lparr>rp_raftPending := removeAll reqID (rp_raftPending rp)\<rparr>"

definition notifyRaftPending :: "nat \<Rightarrow> raft_result \<Rightarrow> replica \<Rightarrow> replica" where
  "notifyRaftPending reqID res rp =
     (if reqID \<noteq> 0 \<and> reqID \<in> set (rp_raftPending rp)
      then rp\<lparr>rp_raftPending := removeAll reqID (rp_raftPending rp), rp_answered := rp_answered rp @ [(reqID, res)]\<rparr>
      else rp)"

definition apply_entry :: "server_env \<Rightarrow> replica \<Rightarrow> raft_command \<Rightarrow> replica go" where
  "apply_entry se rp rc =
     go_bind (onRaftApply se (rp_cache rp) rc) (\<lambda>(c, res). Ret (notifyRaftPending (rc_ReqID rc) res (rp\<lparr>rp_cache := c\<rparr>)))"

text \<open>A log is applied with a clock and random choices of the replica's own at every entry.\<close>

primrec apply_log :: "server_env list \<Rightarrow> replica \<Rightarrow> raft_command list \<Rightarrow> replica go" where
  "apply_log ses rp [] = Ret rp"
| "apply_log ses rp (rc # log) = go_bind (apply_entry (hd ses) rp rc) (\<lambda>rp. apply_log (tl ses) rp log)"

section \<open>Determinism\<close>

definition reads_environment :: "byte \<Rightarrow> bool" where
  "reads_environment op \<longleftrightarrow> op \<in> {CmdSet, CmdDel, CmdCleanup, CmdSPop}"

definition same_outcome :: "replica go \<Rightarrow> replica go \<Rightarrow> bool" where
  "same_outcome m m' \<longleftrightarrow>
     (case (m, m') of (Ret rp, Ret rp') \<Rightarrow> rp_cache rp = rp_cache rp' | (Panic, Panic) \<Rightarrow> True | _ \<Rightarrow> False)"

lemma onRaftApply_cache:
  assumes "\<not> reads_environment (rc_Op rc)" "se_float se = se_float se'"
  shows "onRaftApply se c rc = onRaftApply se' c rc"
  using assms by (simp add: onRaftApply_def reads_environment_def Let_def)

lemma notify_cache [simp]: "rp_cache (notifyRaftPending n res rp) = rp_cache rp"
  by (simp add: notifyRaftPending_def)

text \<open>(C20) Two replicas that apply the same log from the same cache end with the same cache, or both stop at the same entry, whatever
  their clocks, random choices, map orders and waiting callers: for logs of hash, list and set commands other than \<^verbatim>\<open>SPOP\<close>.\<close>

theorem replicas_agree:
  assumes "rp_cache rp = rp_cache rp'" "\<forall>rc\<in>set log. \<not> reads_environment (rc_Op rc)"
    "\<forall>se\<in>set ses \<union> set ses'. se_float se = fl" "length ses = length log" "length ses' = length log"
  shows "same_outcome (apply_log ses rp log) (apply_log ses' rp' log)"
  using assms
proof (induction log arbitrary: rp rp' ses ses')
  case Nil
  then show ?case by (simp add: same_outcome_def)
next
  case (Cons rc log)
  obtain se sr where ses: "ses = se # sr" using Cons.prems(4) by (cases ses) auto
  obtain se' sr' where ses': "ses' = se' # sr'" using Cons.prems(5) by (cases ses') auto
  have eq: "onRaftApply se (rp_cache rp) rc = onRaftApply se' (rp_cache rp') rc"
    using onRaftApply_cache [of rc se se'] Cons.prems by (simp add: ses ses')
  show ?case
  proof (cases "onRaftApply se' (rp_cache rp') rc")
    case Panic
    then show ?thesis using eq by (simp add: ses ses' apply_entry_def same_outcome_def)
  next
    case (Ret x)
    obtain c res where x: "x = (c, res)" by (cases x)
    have "same_outcome (apply_log sr (notifyRaftPending n res (rp\<lparr>rp_cache := c\<rparr>)) log)
      (apply_log sr' (notifyRaftPending n res (rp'\<lparr>rp_cache := c\<rparr>)) log)" for n
      using Cons.prems by (intro Cons.IH) (auto simp: ses ses')
    then show ?thesis using Ret eq by (simp add: ses ses' apply_entry_def x)
  qed
qed

section \<open>What replication does not keep\<close>

definition demo_se :: "int \<Rightarrow> (nat \<Rightarrow> nat \<Rightarrow> nat) \<Rightarrow> server_env" where
  "demo_se now intn = \<lparr>se_env = (env_at now)\<lparr>e_intn := intn\<rparr>,
     se_float = \<lparr>ParseFloat = (\<lambda>_. Inl ErrSyntax), FormatFloat = (\<lambda>_. []), FloatAdd = (\<lambda>x _. x)\<rparr>,
     se_strconv = (\<lambda>_. []), se_stats = [], se_clock = (\<lambda>i. now + int i * 1000000), se_others = (\<lambda>_ c. c), se_raft = RaftApplied\<rparr>"

definition demo_cache :: "gerror + cache" where
  "demo_cache = Cache_New (env_at 0) (NewOptions\<lparr>shardCount := 1\<rparr>)"

definition cmd_hset :: raft_command where
  "cmd_hset = (raft_command_of CmdHSet ''h'')\<lparr>rc_Field := ''f'', rc_Value := [7]\<rparr>"

definition cmd_sadd :: raft_command where
  "cmd_sadd = (raft_command_of CmdSAdd ''s'')\<lparr>rc_Elems := [''a'', ''b'']\<rparr>"

theorem replicas_agree_witness:
  "\<exists>c. demo_cache = Inr c \<and>
     same_outcome (apply_log [demo_se 1 (\<lambda>_ _. 0)] (new_replica c) [cmd_hset])
       (apply_log [demo_se 5 (\<lambda>_ _. 1)] ((new_replica c)\<lparr>rp_raftPending := [3]\<rparr>) [cmd_hset])"
proof -
  have "case demo_cache of Inr c \<Rightarrow> True | Inl _ \<Rightarrow> False" by code_simp
  then obtain c where c: "demo_cache = Inr c" by (auto split: sum.splits)
  have "same_outcome (apply_log [demo_se 1 (\<lambda>_ _. 0)] (new_replica c) [cmd_hset])
       (apply_log [demo_se 5 (\<lambda>_ _. 1)] ((new_replica c)\<lparr>rp_raftPending := [3]\<rparr>) [cmd_hset])"
    by (rule replicas_agree [where fl = "se_float (demo_se 1 (\<lambda>_ _. 0))"])
      (simp_all add: new_replica_def cmd_hset_def raft_command_of_def reads_environment_def demo_se_def hash_cmd_defs kv_cmd_defs set_cmd_defs)
  with c show ?thesis by blast
qed


definition cmd_lpop :: raft_command where
  "cmd_lpop = (raft_command_of CmdLPop ''q'')\<lparr>rc_ReqID := 1\<rparr>"


text \<open>A key-value write that fails when it is applied is answered as a success: \<^verbatim>\<open>process\<close> discards the error of the result.  The
  same request without replication is answered with the error.\<close>

theorem replicated_failure_reported_ok:
  "case demo_cache of Inl _ \<Rightarrow> False | Inr c \<Rightarrow>
     (let se = demo_se 1 (\<lambda>_ _. 0); req = \<lparr>rq_Cmd = CmdSet, rq_Key = ''k'', rq_Value = [], rq_TTL = 0\<rparr> in
      (case process se ((NewServer c)\<lparr>sv_raft := Some Leader\<rparr>) req of Ret (_, r) \<Rightarrow> r = kv_ok [] | Panic \<Rightarrow> False)
      \<and> (case process se (NewServer c) req of Ret (_, r) \<Rightarrow> r = kv_fail ''value cannot be nil'' | Panic \<Rightarrow> False))"
  by code_simp

text \<open>The keys of a replicated write pass through JSON text, which turns every byte that is not valid UTF-8 into the replacement
  character: on a replicated server a hash written under such a key is found under another key only.\<close>

theorem replicated_key_rewritten:
  "case demo_cache of Inl _ \<Rightarrow> False | Inr c \<Rightarrow>
     (let se = demo_se 1 (\<lambda>_ _. 0); k = [CHR 0xFF]; k' = [CHR 0xEF, CHR 0xBF, CHR 0xBD] in
      case raftPropose se ((NewServer c)\<lparr>sv_raft := Some Leader\<rparr>) (cmd_hset\<lparr>rc_Key := k\<rparr>) of
        Ret (s, Inr _) \<Rightarrow>
          (case (Cache_HExists (sv_cache s) k ''f'', Cache_HExists (sv_cache s) k' ''f'') of
             (Ret (_, Inr b), Ret (_, Inr b')) \<Rightarrow> \<not> b \<and> b' | _ \<Rightarrow> False)
      | _ \<Rightarrow> False)"
  by code_simp

end
