(* ===== verification/Raft_Cluster.thy ===== *)
theory Raft_Cluster
  imports Raft
begin

text \<open>
  A cluster of nodes and the network between them.  A \<^verbatim>\<open>Send\<close> call of a transport runs in a goroutine of its own and
  either fails or returns the response of the peer to this request, which is then queued as an RPC of the sender.  So a
  request or a response is in flight until it is handled, in any order and after any delay, or lost.  The TCP transport
  also hands over responses that its reader picked up without the number of the peer (\<^verbatim>\<open>From: 0\<close>), which is the flag
  \<open>anon\<close> of a delivery.  The cluster of \<open>N\<close> nodes has the numbers \<open>1..N\<close> on the same list of peers; nodes do not restart.
\<close>

section \<open>Steps\<close>

datatype flight =
    Req nat nat rpc
  | Resp nat nat rpc

record cluster =
  cl_size :: nat
  cl_nodes :: "nat \<Rightarrow> raft"
  cl_flights :: "flight list"

datatype cluster_event =
    ElectionTimer nat
  | HeartbeatTimer nat
  | ClientPropose nat bytes
  | RunPropose nat
  | Deliver nat bool
  | Lose nat

definition setupCluster :: "nat \<Rightarrow> cluster" where
  "setupCluster N = \<lparr>cl_size = N,
     cl_nodes = (\<lambda>n. NewRaft (DefaultConfig\<lparr>NodeID := n, Peers := replicate N []\<rparr>)), cl_flights = []\<rparr>"

definition is_node :: "cluster \<Rightarrow> nat \<Rightarrow> bool" where
  "is_node s n \<longleftrightarrow> 1 \<le> n \<and> n \<le> cl_size s"

definition drop_nth :: "nat \<Rightarrow> 'a list \<Rightarrow> 'a list" where
  "drop_nth i xs = take i xs @ drop (Suc i) xs"

definition put_node :: "nat \<Rightarrow> raft \<Rightarrow> flight list \<Rightarrow> cluster \<Rightarrow> cluster" where
  "put_node n r fl s = s\<lparr>cl_nodes := (cl_nodes s)(n := r), cl_flights := fl\<rparr>"

definition sends :: "nat \<Rightarrow> (nat \<times> rpc) list \<Rightarrow> flight list" where
  "sends n out = map (\<lambda>(peer, m). Req n peer m) out"

definition replies :: "nat \<Rightarrow> nat \<Rightarrow> rpc option \<Rightarrow> flight list" where
  "replies src n a = (case a of None \<Rightarrow> [] | Some m \<Rightarrow> [Resp src n m])"

fun deliver_flight :: "flight \<Rightarrow> bool \<Rightarrow> flight list \<Rightarrow> cluster \<Rightarrow> cluster" where
  "deliver_flight (Req src dst m) anon fl s =
     (if is_node s dst
      then (let (r, out, a) = handleRPC src m (cl_nodes s dst) in put_node dst r (fl @ sends dst out @ replies src dst a) s)
      else s\<lparr>cl_flights := fl\<rparr>)"
| "deliver_flight (Resp dst from m) anon fl s =
     (if is_node s dst
      then (let (r, out, _) = handleRPC (if anon then 0 else from) m (cl_nodes s dst) in put_node dst r (fl @ sends dst out) s)
      else s\<lparr>cl_flights := fl\<rparr>)"

fun cluster_step :: "cluster_event \<Rightarrow> cluster \<Rightarrow> cluster" where
  "cluster_step (ElectionTimer n) s =
     (if is_node s n then (let (r, out) = handleElectionTimeout (cl_nodes s n) in put_node n r (cl_flights s @ sends n out) s) else s)"
| "cluster_step (HeartbeatTimer n) s =
     (if is_node s n then (let (r, out) = handleHeartbeatTimeout (cl_nodes s n) in put_node n r (cl_flights s @ sends n out) s) else s)"
| "cluster_step (ClientPropose n cmd) s =
     (if is_node s n then put_node n (fst (Raft_Propose cmd (cl_nodes s n))) (cl_flights s) s else s)"
| "cluster_step (RunPropose n) s =
     (if is_node s n then
        (case proposeCh (cl_nodes s n) of
           [] \<Rightarrow> s
         | cmd # q \<Rightarrow>
             let (r, out) = handlePropose cmd ((cl_nodes s n)\<lparr>proposeCh := q\<rparr>) in put_node n r (cl_flights s @ sends n out) s)
      else s)"
| "cluster_step (Deliver i anon) s =
     (if i < length (cl_flights s) then deliver_flight (cl_flights s ! i) anon (drop_nth i (cl_flights s)) s else s)"
| "cluster_step (Lose i) s = s\<lparr>cl_flights := drop_nth i (cl_flights s)\<rparr>"

definition cluster_run :: "nat \<Rightarrow> cluster_event list \<Rightarrow> cluster" where
  "cluster_run N evs = fold cluster_step evs (setupCluster N)"

definition leads :: "cluster \<Rightarrow> nat \<Rightarrow> nat \<Rightarrow> bool" where
  "leads s n t \<longleftrightarrow> r_state (cl_nodes s n) = Leader \<and> currentTerm (cl_nodes s n) = t"

end
