(* ===== verification/Raft_Election.thy ===== *)
theory Raft_Election
  imports Raft_Cluster
begin

text \<open>
  Election safety: in a run of fewer than \<open>2 ^ 64\<close> steps a term has at most one leader.  The proof carries the history of
  votes \<open>V\<close>, where \<open>V p t\<close> is the node that \<open>p\<close> voted for in term \<open>t\<close> (0 for none).  A \<^emph>\<open>ballot\<close> of a
  candidate with a peer is a vote request or a granted vote in flight; there is at most one for each term, so the votes a
  candidate has counted are votes of different nodes.
\<close>

section \<open>What a handler does to term, vote and role\<close>

definition votes_step :: "raft \<Rightarrow> raft \<Rightarrow> bool" where
  "votes_step r r' \<longleftrightarrow> r_config r' = r_config r \<and>
     (currentTerm r' = currentTerm r \<and> (votedFor r \<noteq> 0 \<longrightarrow> votedFor r' = votedFor r) \<or> currentTerm r < currentTerm r')"

definition quiet_step :: "raft \<Rightarrow> raft \<Rightarrow> bool" where
  "quiet_step r r' \<longleftrightarrow> votes_step r r' \<and> r_state r' \<noteq> Leader \<and> r_state r' \<noteq> Candidate \<or>
     votes_step r r' \<and> currentTerm r' = currentTerm r \<and> r_state r' = r_state r \<and>
     votesReceived r' = votesReceived r \<and> votesNeeded r' = votesNeeded r"

lemma applyCommitted_frame:
  "r_config (applyCommitted r) = r_config r" "currentTerm (applyCommitted r) = currentTerm r"
  "votedFor (applyCommitted r) = votedFor r" "r_state (applyCommitted r) = r_state r" "r_log (applyCommitted r) = r_log r"
  "votesReceived (applyCommitted r) = votesReceived r" "votesNeeded (applyCommitted r) = votesNeeded r"
  "nextIndex (applyCommitted r) = nextIndex r" "matchIndex (applyCommitted r) = matchIndex r"
  "commitIndex (applyCommitted r) = commitIndex r" "leaderID (applyCommitted r) = leaderID r"
  by (induction r rule: applyCommitted.induct; subst applyCommitted.simps; simp add: Let_def split: option.split)+

lemma advance_loop_frame:
  "r_config (advance_loop n r) = r_config r" "currentTerm (advance_loop n r) = currentTerm r"
  "votedFor (advance_loop n r) = votedFor r" "r_state (advance_loop n r) = r_state r" "r_log (advance_loop n r) = r_log r"
  "votesReceived (advance_loop n r) = votesReceived r" "votesNeeded (advance_loop n r) = votesNeeded r"
  "nextIndex (advance_loop n r) = nextIndex r" "matchIndex (advance_loop n r) = matchIndex r"
  by (induction n r rule: advance_loop.induct; subst advance_loop.simps; simp split: option.split)+

lemma advanceCommitIndex_frame:
  "r_config (advanceCommitIndex r) = r_config r" "currentTerm (advanceCommitIndex r) = currentTerm r"
  "votedFor (advanceCommitIndex r) = votedFor r" "r_state (advanceCommitIndex r) = r_state r"
  "r_log (advanceCommitIndex r) = r_log r" "votesReceived (advanceCommitIndex r) = votesReceived r"
  "votesNeeded (advanceCommitIndex r) = votesNeeded r" "nextIndex (advanceCommitIndex r) = nextIndex r"
  by (simp_all add: advanceCommitIndex_def applyCommitted_frame advance_loop_frame)

lemmas raft_frames = applyCommitted_frame advance_loop_frame advanceCommitIndex_frame

lemma becomeFollower_quiet: "quiet_step r (becomeFollower t r)"
  by (simp add: quiet_step_def votes_step_def becomeFollower_def Let_def)

lemma handleAppendEntries_quiet: "quiet_step r (fst (handleAppendEntries req r))"
  by (simp add: handleAppendEntries_def quiet_step_def votes_step_def becomeFollower_def Let_def raft_frames)

lemma handleAppendEntriesResponse_quiet: "quiet_step r (fst (handleAppendEntriesResponse from resp r))"
  by (simp add: handleAppendEntriesResponse_def quiet_step_def votes_step_def becomeFollower_def Let_def raft_frames)

lemma handlePropose_quiet: "quiet_step r (fst (handlePropose cmd (r\<lparr>proposeCh := q\<rparr>)))"
  by (simp add: handlePropose_def quiet_step_def votes_step_def Let_def raft_frames split: prod.split)

lemma handleHeartbeatTimeout_quiet: "quiet_step r (fst (handleHeartbeatTimeout r))"
  by (simp add: handleHeartbeatTimeout_def quiet_step_def votes_step_def)

lemma Raft_Propose_quiet: "quiet_step r (fst (Raft_Propose cmd r))"
  by (simp add: Raft_Propose_def quiet_step_def votes_step_def)

lemma handleRequestVote_quiet: "quiet_step r (fst (handleRequestVote req r))"
  by (simp add: handleRequestVote_def quiet_step_def votes_step_def becomeFollower_def Let_def split: prod.split)

lemma handleRequestVote_granted:
  "rvr_VoteGranted (snd (handleRequestVote req r)) \<Longrightarrow>
     rvr_Term (snd (handleRequestVote req r)) = rv_Term req \<and> currentTerm (fst (handleRequestVote req r)) = rv_Term req \<and>
     votedFor (fst (handleRequestVote req r)) = rv_CandidateID req"
  by (auto simp: handleRequestVote_def becomeFollower_def Let_def split: prod.splits if_splits)

lemma handleRequestVoteResponse_cases:
  obtains (quiet) "quiet_step r (handleRequestVoteResponse resp r)"
  | (counted) "rvr_VoteGranted resp" "rvr_Term resp = currentTerm r" "r_state r = Candidate"
      "votes_step r (handleRequestVoteResponse resp r)" "currentTerm (handleRequestVoteResponse resp r) = currentTerm r"
      "votedFor (handleRequestVoteResponse resp r) = votedFor r"
      "votesReceived (handleRequestVoteResponse resp r) = votesReceived r + 1"
      "votesNeeded (handleRequestVoteResponse resp r) = votesNeeded r"
      "r_state (handleRequestVoteResponse resp r) = (if votesReceived r + 1 \<ge> votesNeeded r then Leader else Candidate)"
proof (cases "rvr_VoteGranted resp \<and> rvr_Term resp = currentTerm r \<and> r_state r = Candidate")
  case True
  then show ?thesis
    by (intro counted) (simp_all add: handleRequestVoteResponse_def becomeLeader_def votes_step_def Let_def split: prod.split)
next
  case False
  then show ?thesis
    by (intro quiet) (auto simp: handleRequestVoteResponse_def becomeFollower_def quiet_step_def votes_step_def Let_def)
qed

lemma votes_step_refl [simp]: "votes_step r r"
  by (simp add: votes_step_def)

lemma quiet_step_refl [simp]: "quiet_step r r"
  by (simp add: quiet_step_def)

section \<open>The invariant\<close>

fun rpc_term :: "rpc \<Rightarrow> nat" where
  "rpc_term (AE req) = ae_Term req"
| "rpc_term (AER resp) = aer_Term resp"
| "rpc_term (RV req) = rv_Term req"
| "rpc_term (RVR resp) = rvr_Term resp"

fun ballot :: "nat \<Rightarrow> nat \<Rightarrow> nat \<Rightarrow> flight \<Rightarrow> bool" where
  "ballot c p t (Req src dst (RV req)) \<longleftrightarrow> src = c \<and> dst = p \<and> rv_Term req = t"
| "ballot c p t (Resp dst src (RVR resp)) \<longleftrightarrow> dst = c \<and> src = p \<and> rvr_Term resp = t \<and> rvr_VoteGranted resp"
| "ballot c p t f \<longleftrightarrow> False"

definition ballots :: "nat \<Rightarrow> nat \<Rightarrow> nat \<Rightarrow> flight list \<Rightarrow> nat" where
  "ballots c p t fl = length (filter (ballot c p t) fl)"

type_synonym history = "nat \<Rightarrow> nat \<Rightarrow> nat"

definition supporters :: "history \<Rightarrow> nat \<Rightarrow> nat \<Rightarrow> nat \<Rightarrow> nat set" where
  "supporters V N c t = {p. 1 \<le> p \<and> p \<le> N \<and> V p t = c}"

definition counted :: "history \<Rightarrow> flight list \<Rightarrow> nat \<Rightarrow> nat \<Rightarrow> nat \<Rightarrow> nat set" where
  "counted V fl N c t = {p \<in> supporters V N c t. ballots c p t fl = 0}"

definition elected :: "history \<Rightarrow> nat \<Rightarrow> nat \<Rightarrow> nat \<Rightarrow> bool" where
  "elected V N c t \<longleftrightarrow> N div 2 + 1 \<le> card (supporters V N c t)"

definition grows :: "history \<Rightarrow> history \<Rightarrow> bool" where
  "grows V V' \<longleftrightarrow> (\<forall>p t. V p t \<noteq> 0 \<longrightarrow> V' p t = V p t)"

definition node_votes :: "history \<Rightarrow> nat \<Rightarrow> raft \<Rightarrow> bool" where
  "node_votes V n r \<longleftrightarrow> V n (currentTerm r) = votedFor r \<and> (\<forall>t > currentTerm r. V n t = 0)"

fun flight_ok :: "nat \<Rightarrow> history \<Rightarrow> cluster \<Rightarrow> flight \<Rightarrow> bool" where
  "flight_ok k V s (Req src dst m) \<longleftrightarrow> is_node s src \<and> src \<noteq> dst \<and> rpc_term m \<le> k \<and>
     (case m of AE _ \<Rightarrow> True
      | RV req \<Rightarrow> rv_CandidateID req = src \<and> rv_Term req \<le> currentTerm (cl_nodes s src)
      | _ \<Rightarrow> False)"
| "flight_ok k V s (Resp dst src m) \<longleftrightarrow> is_node s dst \<and> is_node s src \<and> src \<noteq> dst \<and> rpc_term m \<le> k \<and>
     (case m of RVR resp \<Rightarrow> rvr_VoteGranted resp \<longrightarrow> V src (rvr_Term resp) = dst \<and> rvr_Term resp \<le> currentTerm (cl_nodes s dst)
      | AER _ \<Rightarrow> True
      | _ \<Rightarrow> False)"

definition node_ok :: "nat \<Rightarrow> history \<Rightarrow> nat \<Rightarrow> flight list \<Rightarrow> nat \<Rightarrow> raft \<Rightarrow> bool" where
  "node_ok k V N fl n r \<longleftrightarrow> NodeID (r_config r) = n \<and> length (Peers (r_config r)) = N \<and> node_votes V n r \<and> currentTerm r \<le> k \<and>
     (r_state r = Candidate \<longrightarrow> votesNeeded r = N div 2 + 1 \<and> votesReceived r \<le> card (counted V fl N n (currentTerm r))) \<and>
     (r_state r = Leader \<longrightarrow> elected V N n (currentTerm r))"

definition vote_inv :: "nat \<Rightarrow> history \<Rightarrow> cluster \<Rightarrow> bool" where
  "vote_inv k V s \<longleftrightarrow>
     (\<forall>n. if is_node s n then node_ok k V (cl_size s) (cl_flights s) n (cl_nodes s n) else r_state (cl_nodes s n) = Follower) \<and>
     (\<forall>f \<in> set (cl_flights s). flight_ok k V s f) \<and> (\<forall>c p t. ballots c p t (cl_flights s) \<le> 1)"

lemma ballots_append [simp]: "ballots c p t (xs @ ys) = ballots c p t xs + ballots c p t ys"
  by (simp add: ballots_def)

lemma ballots_Nil [simp]: "ballots c p t [] = 0"
  by (simp add: ballots_def)

lemma ballots_single [simp]: "ballots c p t [f] = (if ballot c p t f then 1 else 0)"
  by (simp add: ballots_def)

lemma ballots_drop_nth:
  "i < length fl \<Longrightarrow> ballots c p t fl = ballots c p t (drop_nth i fl) + (if ballot c p t (fl ! i) then 1 else 0)"
  by (subst id_take_nth_drop [of i fl]) (simp_all add: ballots_def drop_nth_def)

lemma set_drop_nth: "set (drop_nth i fl) \<subseteq> set fl"
  by (auto simp: drop_nth_def dest: in_set_takeD in_set_dropD)

lemma drop_nth_id: "\<not> i < length fl \<Longrightarrow> drop_nth i fl = fl"
  by (simp add: drop_nth_def)

lemma ballots_drop_nth_le: "ballots c p t (drop_nth i fl) \<le> ballots c p t fl"
  by (cases "i < length fl") (simp_all add: ballots_drop_nth drop_nth_id)

lemma finite_supporters [simp]: "finite (supporters V N c t)"
  by (rule finite_subset [of _ "{..N}"]) (auto simp: supporters_def)

lemma supporters_grow: "grows V V' \<Longrightarrow> c \<noteq> 0 \<Longrightarrow> supporters V N c t \<subseteq> supporters V' N c t"
  by (auto simp: supporters_def grows_def)

lemma counted_grow:
  assumes "grows V V'" "c \<noteq> 0" "\<And>p. ballots c p t fl' \<le> ballots c p t fl"
  shows "counted V fl N c t \<subseteq> counted V' fl' N c t"
proof
  fix p
  assume "p \<in> counted V fl N c t"
  with assms(3) [of p] supporters_grow [OF assms(1,2), of N t] show "p \<in> counted V' fl' N c t"
    by (auto simp: counted_def)
qed

lemma card_counted_grow:
  assumes "grows V V'" "c \<noteq> 0" "\<And>p. ballots c p t fl' \<le> ballots c p t fl"
  shows "card (counted V fl N c t) \<le> card (counted V' fl' N c t)"
  by (rule card_mono [OF _ counted_grow [OF assms]]) (simp add: counted_def)

lemma elected_grow: "grows V V' \<Longrightarrow> c \<noteq> 0 \<Longrightarrow> elected V N c t \<Longrightarrow> elected V' N c t"
  unfolding elected_def by (erule le_trans) (intro card_mono finite_supporters supporters_grow)

lemma elected_unique:
  assumes "elected V N c t" "elected V N d t"
  shows "c = d"
proof (rule ccontr)
  assume "c \<noteq> d"
  then have "card (supporters V N c t \<union> supporters V N d t) = card (supporters V N c t) + card (supporters V N d t)"
    by (intro card_Un_disjoint) (auto simp: supporters_def)
  moreover have "card (supporters V N c t \<union> supporters V N d t) \<le> card {1..N}"
    by (intro card_mono) (auto simp: supporters_def)
  ultimately show False using assms by (simp add: elected_def)
qed

lemma node_votes_step:
  assumes "node_votes V n r" "votes_step r r'" "V' = V(n := (V n)(currentTerm r' := votedFor r'))"
  shows "node_votes V' n r'" "grows V V'"
  using assms by (auto simp: node_votes_def votes_step_def grows_def)

lemma node_votes_other: "m \<noteq> n \<Longrightarrow> node_votes (V(n := w)) m r = node_votes V m r"
  by (simp add: node_votes_def)

section \<open>Preservation\<close>

lemma votes_step_term: "votes_step r r' \<Longrightarrow> currentTerm r \<le> currentTerm r'"
  by (auto simp: votes_step_def)

lemma flight_ok_mono:
  assumes "flight_ok k V s f" "grows V V'" "votes_step (cl_nodes s n) r'"
  shows "flight_ok (Suc k) V' (put_node n r' fl s) f"
  using assms votes_step_term [OF assms(3)]
  by (cases f)
     (auto simp: put_node_def is_node_def grows_def le_SucI split: rpc.splits intro: order_trans)

lemma vote_inv_step:
  assumes I: "vote_inv k V s" and vs: "votes_step (cl_nodes s n) r'" and n: "is_node s n" and bound: "currentTerm r' \<le> Suc k"
    and V': "V' = V(n := (V n)(currentTerm r' := votedFor r'))"
    and flights: "\<And>f. f \<in> set fl' \<Longrightarrow> f \<in> set (cl_flights s) \<or> flight_ok (Suc k) V' (put_node n r' fl' s) f"
    and unique: "\<And>c p t. ballots c p t fl' \<le> 1"
    and fewer: "\<And>c p t. c \<noteq> n \<Longrightarrow> ballots c p t fl' \<le> ballots c p t (cl_flights s)"
    and cand: "r_state r' = Candidate \<Longrightarrow> votesNeeded r' = cl_size s div 2 + 1 \<and>
      votesReceived r' \<le> card (counted V' fl' (cl_size s) n (currentTerm r'))"
    and lead: "r_state r' = Leader \<Longrightarrow> elected V' (cl_size s) n (currentTerm r')"
  shows "vote_inv (Suc k) V' (put_node n r' fl' s)" "grows V V'"
proof -
  have nodes: "\<And>m. is_node s m \<Longrightarrow> node_ok k V (cl_size s) (cl_flights s) m (cl_nodes s m)"
    and others: "\<And>m. \<not> is_node s m \<Longrightarrow> r_state (cl_nodes s m) = Follower" using I by (auto simp: vote_inv_def split: if_splits)
  from nodes [OF n] have nv: "node_votes V n (cl_nodes s n)" by (simp add: node_ok_def)
  from node_votes_step [OF nv vs V'] have nv': "node_votes V' n r'" and g: "grows V V'" by auto
  show "grows V V'" by (rule g)
  have "node_ok (Suc k) V' (cl_size s) fl' m (cl_nodes s m)" if "m \<noteq> n" "is_node s m" for m
  proof -
    from that(2) have "m \<noteq> 0" by (simp add: is_node_def)
    with nodes [OF that(2)] that(1) show ?thesis
      using card_counted_grow [OF g _ fewer [OF that(1)], where t = "currentTerm (cl_nodes s m)" and N = "cl_size s"] elected_grow [OF g]
      by (auto simp: node_ok_def V' node_votes_other)
  qed
  moreover have "node_ok (Suc k) V' (cl_size s) fl' n r'"
    using nodes [OF n] nv' bound cand lead vs by (simp add: node_ok_def votes_step_def)
  moreover have "flight_ok (Suc k) V' (put_node n r' fl' s) f" if "f \<in> set fl'" for f
    using flights [OF that] flight_ok_mono [OF _ g vs] I by (auto simp: vote_inv_def)
  ultimately show "vote_inv (Suc k) V' (put_node n r' fl' s)"
    using unique n others by (simp add: vote_inv_def put_node_def is_node_def)
qed

lemma vote_inv_node: "vote_inv k V s \<Longrightarrow> is_node s n \<Longrightarrow> node_ok k V (cl_size s) (cl_flights s) n (cl_nodes s n)"
  by (auto simp: vote_inv_def split: if_splits)

lemma vote_inv_quiet:
  assumes I: "vote_inv k V s" and n: "is_node s n" and q: "quiet_step (cl_nodes s n) r'" and bound: "currentTerm r' \<le> Suc k"
    and V': "V' = V(n := (V n)(currentTerm r' := votedFor r'))"
    and flights: "\<And>f. f \<in> set fl' \<Longrightarrow> f \<in> set (cl_flights s) \<or> flight_ok (Suc k) V' (put_node n r' fl' s) f"
    and fewer: "\<And>c p t. ballots c p t fl' \<le> ballots c p t (cl_flights s)"
  shows "vote_inv (Suc k) V' (put_node n r' fl' s)" "grows V V'"
proof -
  from q have vs: "votes_step (cl_nodes s n) r'" by (auto simp: quiet_step_def)
  note ok = vote_inv_node [OF I n]
  then have "node_votes V n (cl_nodes s n)" by (simp add: node_ok_def)
  from node_votes_step(2) [OF this vs V'] have g: "grows V V'" .
  have n0: "n \<noteq> 0" using n by (simp add: is_node_def)
  have cand: "votesNeeded r' = cl_size s div 2 + 1 \<and> votesReceived r' \<le> card (counted V' fl' (cl_size s) n (currentTerm r'))"
    if "r_state r' = Candidate"
    using that q ok card_counted_grow [OF g n0 fewer, where t = "currentTerm r'" and N = "cl_size s"]
    by (auto simp: quiet_step_def node_ok_def)
  have lead: "elected V' (cl_size s) n (currentTerm r')" if "r_state r' = Leader"
    using that q ok elected_grow [OF g n0] by (auto simp: quiet_step_def node_ok_def)
  have unique: "ballots c p t fl' \<le> 1" for c p t
    using fewer [of c p t] I by (auto simp: vote_inv_def intro: order_trans)
  show "vote_inv (Suc k) V' (put_node n r' fl' s)" "grows V V'"
    using vote_inv_step [OF I vs n bound V' flights unique fewer cand lead] by auto
qed

subsection \<open>Requests of a leader\<close>

definition leader_out :: "nat \<Rightarrow> nat \<Rightarrow> (nat \<times> rpc) list \<Rightarrow> bool" where
  "leader_out n t out \<longleftrightarrow> (\<forall>(p, m) \<in> set out. p \<noteq> n \<and> (\<exists>req. m = AE req \<and> ae_Term req = t))"

lemma leader_out_Nil [simp]: "leader_out n t []"
  by (simp add: leader_out_def)

lemma sendAppendEntriesTo_out: "p \<noteq> n \<Longrightarrow> leader_out n (currentTerm r) (sendAppendEntriesTo p r)"
  by (auto simp: leader_out_def sendAppendEntriesTo_def Let_def split: option.splits)

lemma set_other_peers: "set (other_peers cfg) = {p. 1 \<le> p \<and> p \<le> length (Peers cfg) \<and> p \<noteq> NodeID cfg}"
proof -
  have m: "set (map (\<lambda>i. i + 1) [0..<k]) = {1..<Suc k}" for k :: nat
    by (simp add: image_Suc_atLeastLessThan)
  show ?thesis unfolding other_peers_def set_filter m by auto
qed

lemma distinct_other_peers: "distinct (other_peers cfg)"
  unfolding other_peers_def by (rule distinct_filter) (simp add: distinct_map)

lemma broadcastAppendEntries_out:
  "NodeID (r_config r) = n \<Longrightarrow> leader_out n (currentTerm r) (broadcastAppendEntries r)"
  using sendAppendEntriesTo_out [of _ n r] by (fastforce simp: leader_out_def broadcastAppendEntries_def set_other_peers)

lemma leader_out_ballots [simp]: "leader_out n t out \<Longrightarrow> ballots c p u (sends n out) = 0"
  by (auto simp: leader_out_def ballots_def sends_def filter_empty_conv)

lemma leader_out_flights:
  "leader_out n t out \<Longrightarrow> is_node s n \<Longrightarrow> t \<le> k \<Longrightarrow> f \<in> set (sends n out) \<Longrightarrow> flight_ok k V s f"
  by (auto simp: leader_out_def sends_def)

lemma is_node_put [simp]: "is_node (put_node n r fl s) m = is_node s m"
  by (simp add: is_node_def put_node_def)

lemma leader_steps_out:
  "NodeID (r_config r) = n \<Longrightarrow> leader_out n (currentTerm (fst (handleHeartbeatTimeout r))) (snd (handleHeartbeatTimeout r))"
  "NodeID (r_config r) = n \<Longrightarrow> leader_out n (currentTerm (fst (handlePropose cmd r))) (snd (handlePropose cmd r))"
  "from \<noteq> n \<Longrightarrow>
     leader_out n (currentTerm (fst (handleAppendEntriesResponse from resp r))) (snd (handleAppendEntriesResponse from resp r))"
proof -
  show "leader_out n (currentTerm (fst (handleHeartbeatTimeout r))) (snd (handleHeartbeatTimeout r))" if "NodeID (r_config r) = n"
    using broadcastAppendEntries_out [OF that] by (simp add: handleHeartbeatTimeout_def)
  show "leader_out n (currentTerm (fst (handlePropose cmd r))) (snd (handlePropose cmd r))" if "NodeID (r_config r) = n"
  proof (cases "r_state r = Leader")
    case True
    obtain lastIdx lastTerm where l: "log_Last (r_log r) = (lastIdx, lastTerm)" by force
    let ?r = "r\<lparr>r_log := log_Append [\<lparr>le_Index = w64 (lastIdx + 1), le_Term = currentTerm r, le_Command = cmd\<rparr>] (r_log r)\<rparr>"
    from broadcastAppendEntries_out [of ?r n] that True l show ?thesis by (simp add: handlePropose_def Let_def raft_frames)
  qed (simp add: handlePropose_def)
  show "leader_out n (currentTerm (fst (handleAppendEntriesResponse from resp r))) (snd (handleAppendEntriesResponse from resp r))"
    if "from \<noteq> n"
    using sendAppendEntriesTo_out [OF that, of r]
      sendAppendEntriesTo_out [OF that, of "r\<lparr>nextIndex := AList.update from (the_default 0 (map_of (nextIndex r) from) - 1) (nextIndex r)\<rparr>"]
    by (simp add: handleAppendEntriesResponse_def Let_def)
qed

lemma vote_inv_leader_step:
  assumes I: "vote_inv k V s" and n: "is_node s n" and q: "quiet_step (cl_nodes s n) r'" and bound: "currentTerm r' \<le> Suc k"
    and out: "leader_out n (currentTerm r') out"
    and fl: "set fl \<subseteq> set (cl_flights s)" "\<And>c p t. ballots c p t fl \<le> ballots c p t (cl_flights s)"
  shows "\<exists>V'. vote_inv (Suc k) V' (put_node n r' (fl @ sends n out) s) \<and> grows V V'"
proof -
  let ?V = "V(n := (V n)(currentTerm r' := votedFor r'))"
  have fl': "f \<in> set (cl_flights s) \<or> flight_ok (Suc k) ?V (put_node n r' (fl @ sends n out) s) f"
    if "f \<in> set (fl @ sends n out)" for f
    using that fl(1) leader_out_flights [OF out _ bound, of "put_node n r' (fl @ sends n out) s" f ?V] n by auto
  show ?thesis
    using vote_inv_quiet [OF I n q bound refl fl'] fl(2) out by auto
qed

subsection \<open>Handling a request\<close>

lemma handleAppendEntries_term:
  "currentTerm (fst (handleAppendEntries req r)) = max (ae_Term req) (currentTerm r)"
  "aer_Term (snd (handleAppendEntries req r)) = max (ae_Term req) (currentTerm r)"
  by (auto simp: handleAppendEntries_def becomeFollower_def Let_def raft_frames)

lemma handleRequestVote_term:
  "currentTerm (fst (handleRequestVote req r)) = max (rv_Term req) (currentTerm r)"
  "rvr_Term (snd (handleRequestVote req r)) = max (rv_Term req) (currentTerm r)"
  by (auto simp: handleRequestVote_def becomeFollower_def Let_def split: prod.split)

lemma handleRequestVoteResponse_term:
  "currentTerm (handleRequestVoteResponse resp r) = max (rvr_Term resp) (currentTerm r)"
  by (auto simp: handleRequestVoteResponse_def becomeFollower_def becomeLeader_def Let_def split: prod.split)

lemma handleAppendEntriesResponse_term:
  "currentTerm (fst (handleAppendEntriesResponse from resp r)) = max (aer_Term resp) (currentTerm r)"
  by (auto simp: handleAppendEntriesResponse_def becomeFollower_def Let_def raft_frames)

lemma vote_inv_ok: "vote_inv k V s \<Longrightarrow> f \<in> set (cl_flights s) \<Longrightarrow> flight_ok k V s f"
  by (simp add: vote_inv_def)

lemma vote_inv_term: "vote_inv k V s \<Longrightarrow> is_node s n \<Longrightarrow> currentTerm (cl_nodes s n) \<le> k"
  using vote_inv_node by (auto simp: node_ok_def)

lemma vote_inv_drop:
  assumes "vote_inv k V s"
  shows "vote_inv (Suc k) V (s\<lparr>cl_flights := drop_nth i (cl_flights s)\<rparr>)"
proof -
  let ?fl = "drop_nth i (cl_flights s)"
  have g: "grows V V" by (simp add: grows_def)
  have "node_ok (Suc k) V (cl_size s) ?fl n (cl_nodes s n)" if "is_node s n" for n
    using vote_inv_node [OF assms that] that
      card_counted_grow [OF g _ ballots_drop_nth_le [where i = i], where N = "cl_size s" and c = n and fl = "cl_flights s"]
    by (auto simp: node_ok_def is_node_def intro: order_trans)
  moreover have "flight_ok (Suc k) V (s\<lparr>cl_flights := ?fl\<rparr>) f" if "f \<in> set ?fl" for f
  proof -
    have "flight_ok k V s f" using vote_inv_ok [OF assms] that set_drop_nth by fast
    then show ?thesis by (cases f) (auto simp: is_node_def split: rpc.splits)
  qed
  moreover have "ballots c p t ?fl \<le> 1" for c p t
    using assms ballots_drop_nth_le [of c p t i "cl_flights s"] by (auto simp: vote_inv_def intro: order_trans)
  ultimately show ?thesis using assms by (simp add: vote_inv_def is_node_def)
qed

lemma vote_inv_vote_request:
  assumes I: "vote_inv k V s" and i: "i < length (cl_flights s)" and f: "cl_flights s ! i = Req src dst (RV req)" and n: "is_node s dst"
  shows "\<exists>V'. vote_inv (Suc k) V' (put_node dst (fst (handleRequestVote req (cl_nodes s dst)))
      (drop_nth i (cl_flights s) @ [Resp src dst (RVR (snd (handleRequestVote req (cl_nodes s dst))))]) s) \<and> grows V V'"
proof -
  let ?r = "fst (handleRequestVote req (cl_nodes s dst))" and ?a = "snd (handleRequestVote req (cl_nodes s dst))"
  let ?fl = "drop_nth i (cl_flights s) @ [Resp src dst (RVR ?a)]"
  let ?V = "V(dst := (V dst)(currentTerm ?r := votedFor ?r))"
  have ok: "flight_ok k V s (Req src dst (RV req))" using vote_inv_ok [OF I] i f by (metis nth_mem)
  have bound: "currentTerm ?r \<le> Suc k" using ok vote_inv_term [OF I n] by (simp add: handleRequestVote_term)
  have src: "src \<noteq> dst" "is_node s src" "rv_CandidateID req = src" "rv_Term req \<le> currentTerm (cl_nodes s src)" using ok by auto
  have "flight_ok (Suc k) ?V (put_node dst ?r ?fl s) (Resp src dst (RVR ?a))"
    using src n bound handleRequestVote_granted [of req "cl_nodes s dst"]
    by (auto simp: handleRequestVote_term put_node_def is_node_def)
  then have flights: "f \<in> set (cl_flights s) \<or> flight_ok (Suc k) ?V (put_node dst ?r ?fl s) f" if "f \<in> set ?fl" for f
    using that set_drop_nth [of i "cl_flights s"] by auto
  have "ballots c p t ?fl \<le> ballots c p t (cl_flights s)" for c p t
    using ballots_drop_nth [OF i, of c p t] handleRequestVote_granted [of req "cl_nodes s dst"] by (auto simp: f)
  from vote_inv_quiet [OF I n handleRequestVote_quiet bound refl flights this] show ?thesis by blast
qed

lemma vote_inv_append_request:
  assumes I: "vote_inv k V s" and i: "i < length (cl_flights s)" and f: "cl_flights s ! i = Req src dst (AE req)" and n: "is_node s dst"
  shows "\<exists>V'. vote_inv (Suc k) V' (put_node dst (fst (handleAppendEntries req (cl_nodes s dst)))
      (drop_nth i (cl_flights s) @ [Resp src dst (AER (snd (handleAppendEntries req (cl_nodes s dst))))]) s) \<and> grows V V'"
proof -
  let ?r = "fst (handleAppendEntries req (cl_nodes s dst))" and ?a = "snd (handleAppendEntries req (cl_nodes s dst))"
  let ?fl = "drop_nth i (cl_flights s) @ [Resp src dst (AER ?a)]"
  let ?V = "V(dst := (V dst)(currentTerm ?r := votedFor ?r))"
  have ok: "flight_ok k V s (Req src dst (AE req))" using vote_inv_ok [OF I] i f by (metis nth_mem)
  have bound: "currentTerm ?r \<le> Suc k" using ok vote_inv_term [OF I n] by (simp add: handleAppendEntries_term)
  have "flight_ok (Suc k) ?V (put_node dst ?r ?fl s) (Resp src dst (AER ?a))"
    using ok n bound by (auto simp: handleAppendEntries_term)
  then have flights: "f \<in> set (cl_flights s) \<or> flight_ok (Suc k) ?V (put_node dst ?r ?fl s) f" if "f \<in> set ?fl" for f
    using that set_drop_nth [of i "cl_flights s"] by auto
  have "ballots c p t ?fl \<le> ballots c p t (cl_flights s)" for c p t
    using ballots_drop_nth [OF i, of c p t] by (auto simp: f)
  from vote_inv_quiet [OF I n handleAppendEntries_quiet bound refl flights this] show ?thesis by blast
qed

subsection \<open>Standing for election and counting votes\<close>

lemma later_ballots:
  assumes "vote_inv k V s" "currentTerm (cl_nodes s c) < t"
  shows "ballots c p t (cl_flights s) = 0"
proof -
  have "\<not> ballot c p t f" if "f \<in> set (cl_flights s)" for f
    using vote_inv_ok [OF assms(1) that] assms(2) by (cases f) (auto split: rpc.splits)
  then show ?thesis by (simp add: ballots_def filter_empty_conv)
qed

lemma ballots_votes:
  "NodeID (r_config r) = n \<Longrightarrow> ballots c p t (sends n (broadcastRequestVote r)) =
     (if c = n \<and> t = currentTerm r \<and> p \<in> set (other_peers (r_config r)) then 1 else 0)"
proof -
  assume n: "NodeID (r_config r) = n"
  obtain i u where l: "log_Last (r_log r) = (i, u)" by force
  have "length (filter (\<lambda>q. q = p) qs) = (if p \<in> set qs then 1 else 0)" if "distinct qs" for qs :: "nat list"
    using that by (induction qs) (auto simp: filter_empty_conv)
  from this [OF distinct_other_peers] have one: "length (filter (\<lambda>q. q = p) (other_peers (r_config r))) = (if p \<in> set (other_peers (r_config r)) then 1 else 0)" .
  have "ballots c p t (sends n (broadcastRequestVote r)) =
      length (filter (\<lambda>q. n = c \<and> q = p \<and> currentTerm r = t) (other_peers (r_config r)))"
    by (simp add: ballots_def sends_def broadcastRequestVote_def l filter_map comp_def)
  also have "\<dots> = (if c = n \<and> t = currentTerm r then length (filter (\<lambda>q. q = p) (other_peers (r_config r))) else 0)"
    by auto
  finally show ?thesis using one by simp
qed

lemma card_pos: "finite A \<Longrightarrow> a \<in> A \<Longrightarrow> 1 \<le> card A"
  by (metis One_nat_def Suc_leI card_gt_0_iff empty_iff)

lemma vote_inv_candidate:
  assumes I: "vote_inv k V s" and n: "is_node s n" and small: "Suc k < 2 ^ 64"
  shows "\<exists>V'. vote_inv (Suc k) V' (put_node n (becomeCandidate (cl_nodes s n))
      (cl_flights s @ sends n (broadcastRequestVote (becomeCandidate (cl_nodes s n)))) s) \<and> grows V V'"
proof -
  let ?r = "cl_nodes s n" and ?c = "becomeCandidate (cl_nodes s n)"
  let ?out = "sends n (broadcastRequestVote ?c)"
  let ?V = "V(n := (V n)(currentTerm ?c := votedFor ?c))"
  have ok: "node_ok k V (cl_size s) (cl_flights s) n ?r" using vote_inv_node [OF I n] .
  then have cfg: "NodeID (r_config ?c) = n" "length (Peers (r_config ?c)) = cl_size s"
    by (simp_all add: node_ok_def becomeCandidate_def)
  have "currentTerm ?r \<le> k" using ok by (simp add: node_ok_def)
  then have t: "currentTerm ?c = Suc (currentTerm ?r)" using small by (simp add: becomeCandidate_def)
  have vs: "votes_step ?r ?c" using t by (simp add: votes_step_def becomeCandidate_def)
  have bound: "currentTerm ?c \<le> Suc k" using t \<open>currentTerm ?r \<le> k\<close> by simp
  note b = ballots_votes [OF cfg(1)]
  have flights: "f \<in> set (cl_flights s) \<or> flight_ok (Suc k) ?V (put_node n ?c (cl_flights s @ ?out) s) f"
    if "f \<in> set (cl_flights s @ ?out)" for f
    using that n bound cfg by (auto simp: sends_def broadcastRequestVote_def set_other_peers put_node_def is_node_def split: prod.splits)
  have unique: "ballots c p u (cl_flights s @ ?out) \<le> 1" for c p u
    using I later_ballots [OF I, of n "currentTerm ?c" p] t by (auto simp: vote_inv_def b)
  have fewer: "ballots c p u (cl_flights s @ ?out) \<le> ballots c p u (cl_flights s)" if "c \<noteq> n" for c p u
    using that by (simp add: b)
  have "n \<in> counted ?V (cl_flights s @ ?out) (cl_size s) n (currentTerm ?c)"
    using n later_ballots [OF I, of n "currentTerm ?c" n] t cfg
    by (simp add: counted_def supporters_def b set_other_peers is_node_def) (simp add: becomeCandidate_def)
  then have "1 \<le> card (counted ?V (cl_flights s @ ?out) (cl_size s) n (currentTerm ?c))"
    by (rule card_pos [rotated]) (simp add: counted_def)
  then have cand: "votesNeeded ?c = cl_size s div 2 + 1 \<and>
      votesReceived ?c \<le> card (counted ?V (cl_flights s @ ?out) (cl_size s) n (currentTerm ?c))"
    using cfg(2) by (simp add: becomeCandidate_def)
  have "r_state ?c \<noteq> Leader" by (simp add: becomeCandidate_def)
  with vote_inv_step [OF I vs n bound refl flights unique fewer cand] show ?thesis by auto
qed

lemma vote_inv_vote_response:
  assumes I: "vote_inv k V s" and i: "i < length (cl_flights s)" and f: "cl_flights s ! i = Resp n p (RVR resp)" and n: "is_node s n"
  shows "\<exists>V'. vote_inv (Suc k) V' (put_node n (handleRequestVoteResponse resp (cl_nodes s n)) (drop_nth i (cl_flights s)) s) \<and> grows V V'"
proof -
  let ?r = "cl_nodes s n" and ?r' = "handleRequestVoteResponse resp (cl_nodes s n)" and ?fl = "drop_nth i (cl_flights s)"
  let ?V = "V(n := (V n)(currentTerm ?r' := votedFor ?r'))"
  have fok: "flight_ok k V s (Resp n p (RVR resp))" using vote_inv_ok [OF I] i f by (metis nth_mem)
  have bound: "currentTerm ?r' \<le> Suc k" using fok vote_inv_term [OF I n] by (simp add: handleRequestVoteResponse_term)
  have flights: "f \<in> set (cl_flights s) \<or> flight_ok (Suc k) ?V (put_node n ?r' ?fl s) f" if "f \<in> set ?fl" for f
    using that set_drop_nth by fast
  note fewer = ballots_drop_nth_le [of _ _ _ i "cl_flights s"]
  show ?thesis
  proof (cases rule: handleRequestVoteResponse_cases [of ?r resp])
    case quiet
    from vote_inv_quiet [OF I n quiet bound refl flights fewer] show ?thesis by blast
  next
    case counted
    let ?t = "currentTerm ?r"
    have ok: "node_ok k V (cl_size s) (cl_flights s) n ?r" using vote_inv_node [OF I n] .
    have V: "?V = V" using ok counted(5,6) by (auto simp: node_ok_def node_votes_def fun_eq_iff)
    have p: "is_node s p" "V p ?t = n" using fok counted(1,2) by auto
    have b: "ballots n p ?t (cl_flights s) = Suc (ballots n p ?t ?fl)"
      using ballots_drop_nth [OF i, of n p ?t] counted(1,2) by (simp add: f)
    moreover have "ballots n p ?t (cl_flights s) \<le> 1" using I by (simp add: vote_inv_def)
    ultimately have "p \<in> counted V ?fl (cl_size s) n ?t" "p \<notin> counted V (cl_flights s) (cl_size s) n ?t"
      using p by (simp_all add: counted_def supporters_def is_node_def)
    moreover have "counted V (cl_flights s) (cl_size s) n ?t \<subseteq> counted V ?fl (cl_size s) n ?t"
      using n by (intro counted_grow fewer) (auto simp: grows_def is_node_def)
    ultimately have "card (insert p (counted V (cl_flights s) (cl_size s) n ?t)) \<le> card (counted V ?fl (cl_size s) n ?t)"
      by (intro card_mono) (auto simp: counted_def)
    then have more: "Suc (votesReceived ?r) \<le> card (counted V ?fl (cl_size s) n ?t)" "votesNeeded ?r = cl_size s div 2 + 1"
      using ok counted(3) \<open>p \<notin> counted V (cl_flights s) (cl_size s) n ?t\<close> by (auto simp: node_ok_def counted_def)
    have cand: "votesNeeded ?r' = cl_size s div 2 + 1 \<and> votesReceived ?r' \<le> card (counted ?V ?fl (cl_size s) n (currentTerm ?r'))"
      using more counted(5,7,8) V by simp
    have lead: "elected ?V (cl_size s) n (currentTerm ?r')" if "r_state ?r' = Leader"
    proof -
      have "card (counted V ?fl (cl_size s) n ?t) \<le> card (supporters V (cl_size s) n ?t)"
        by (intro card_mono) (auto simp: counted_def)
      then show ?thesis using that more counted(5,9) V by (simp add: elected_def split: if_splits)
    qed
    have unique: "ballots c q u ?fl \<le> 1" for c q u
      using I fewer [of c q u] by (auto simp: vote_inv_def intro: order_trans)
    from vote_inv_step [OF I counted(4) n bound refl flights unique fewer cand lead] show ?thesis by blast
  qed
qed

subsection \<open>All steps\<close>

lemma vote_inv_later: "vote_inv k V s \<Longrightarrow> vote_inv (Suc k) V s"
  using vote_inv_drop [of k V s "length (cl_flights s)"] by (simp add: drop_nth_def)

lemma vote_inv_deliver:
  assumes I: "vote_inv k V s" and i: "i < length (cl_flights s)"
  shows "\<exists>V'. vote_inv (Suc k) V' (deliver_flight (cl_flights s ! i) anon (drop_nth i (cl_flights s)) s) \<and> grows V V'"
proof -
  let ?fl = "drop_nth i (cl_flights s)"
  have refl: "grows V V" by (simp add: grows_def)
  have ok: "flight_ok k V s (cl_flights s ! i)" using vote_inv_ok [OF I] i by simp
  show ?thesis
  proof (cases "cl_flights s ! i")
    case (Req src dst m)
    consider (ae) req where "m = AE req" | (rv) req where "m = RV req" using ok Req by (cases m) auto
    then show ?thesis
    proof cases
      case ae
      with vote_inv_append_request [OF I i, of src dst req] vote_inv_drop [OF I, of i] refl Req show ?thesis
        by (auto simp: sends_def replies_def split: prod.splits)
    next
      case rv
      with vote_inv_vote_request [OF I i, of src dst req] vote_inv_drop [OF I, of i] refl Req show ?thesis
        by (auto simp: sends_def replies_def split: prod.splits)
    qed
  next
    case (Resp dst src m)
    have n: "is_node s dst" "src \<noteq> dst" using ok Resp by simp_all
    consider (aer) resp where "m = AER resp" | (rvr) resp where "m = RVR resp" using ok Resp by (cases m) auto
    then show ?thesis
    proof cases
      case rvr
      with vote_inv_vote_response [OF I i, of dst src resp] n Resp show ?thesis by (simp add: sends_def)
    next
      case aer
      let ?h = "handleAppendEntriesResponse (if anon then 0 else src) resp (cl_nodes s dst)"
      have "(if anon then 0 else src) \<noteq> dst" using n by (auto simp: is_node_def)
      moreover have "currentTerm (fst ?h) \<le> Suc k"
        using ok Resp aer vote_inv_term [OF I n(1)] by (simp add: handleAppendEntriesResponse_term)
      ultimately show ?thesis
        using vote_inv_leader_step [OF I n(1) handleAppendEntriesResponse_quiet _ leader_steps_out(3) set_drop_nth ballots_drop_nth_le] n Resp aer
        by (simp add: case_prod_beta Let_def)
    qed
  qed
qed

lemma vote_inv_event:
  assumes I: "vote_inv k V s" and small: "Suc k < 2 ^ 64"
  shows "\<exists>V'. vote_inv (Suc k) V' (cluster_step ev s) \<and> grows V V'"
proof -
  have same: "\<exists>V'. vote_inv (Suc k) V' s \<and> grows V V'" using vote_inv_later [OF I] by (auto simp: grows_def)
  have cfg: "NodeID (r_config (cl_nodes s n)) = n" if "is_node s n" for n using vote_inv_node [OF I that] by (simp add: node_ok_def)
  have quiet_bound: "currentTerm r' \<le> Suc k" if "is_node s n" "currentTerm r' = currentTerm (cl_nodes s n)" for n r'
    using vote_inv_term [OF I that(1)] that(2) by simp
  note leader = vote_inv_leader_step [OF I _ _ quiet_bound _ subset_refl order_refl]
  show ?thesis
  proof (cases ev)
    case (ElectionTimer n)
    then show ?thesis
      using same vote_inv_candidate [OF I _ small, of n]
      by (auto simp: handleElectionTimeout_def Let_def put_node_def sends_def)
  next
    case (HeartbeatTimer n)
    then show ?thesis
      using same leader [OF _ handleHeartbeatTimeout_quiet _ _ leader_steps_out(1) [OF cfg]]
      by (auto simp: case_prod_beta Let_def) (simp add: handleHeartbeatTimeout_def)
  next
    case (ClientPropose n cmd)
    then show ?thesis
      using same leader [OF _ Raft_Propose_quiet _ _ leader_out_Nil, of n n cmd]
      by (auto simp: sends_def) (simp add: Raft_Propose_def)
  next
    case (RunPropose n)
    show ?thesis
    proof (cases "is_node s n \<and> proposeCh (cl_nodes s n) \<noteq> []")
      case True
      then obtain cmd q where q: "proposeCh (cl_nodes s n) = cmd # q" and n: "is_node s n" by (cases "proposeCh (cl_nodes s n)") auto
      let ?r = "(cl_nodes s n)\<lparr>proposeCh := q\<rparr>"
      have t: "currentTerm (fst (handlePropose cmd ?r)) = currentTerm (cl_nodes s n)"
        by (simp add: handlePropose_def Let_def raft_frames split: prod.split)
      have "leader_out n (currentTerm (fst (handlePropose cmd ?r))) (snd (handlePropose cmd ?r))"
        by (rule leader_steps_out(2)) (simp add: cfg [OF n])
      from leader [OF n handlePropose_quiet n t this] show ?thesis using RunPropose q n by (simp add: case_prod_beta Let_def)
    qed (use same RunPropose in \<open>auto split: list.split\<close>)
  next
    case (Deliver i anon)
    then show ?thesis using same vote_inv_deliver [OF I, of i anon] by auto
  next
    case (Lose i)
    then show ?thesis using vote_inv_drop [OF I, of i] by (auto simp: grows_def)
  qed
qed

lemma vote_inv_run:
  "vote_inv k V s \<Longrightarrow> k + length evs < 2 ^ 64 \<Longrightarrow> \<exists>V'. vote_inv (k + length evs) V' (fold cluster_step evs s) \<and> grows V V'"
proof (induction evs arbitrary: k V s)
  case Nil
  then show ?case by (auto simp: grows_def)
next
  case (Cons ev evs)
  then obtain V1 where 1: "vote_inv (Suc k) V1 (cluster_step ev s)" "grows V V1"
    using vote_inv_event [of k V s ev] by auto
  from Cons.IH [OF this(1)] Cons.prems(2) obtain V2 where
    "vote_inv (Suc k + length evs) V2 (fold cluster_step evs (cluster_step ev s))" "grows V1 V2" by auto
  with 1 show ?case by (auto simp: grows_def intro!: exI [of _ V2])
qed

lemma vote_inv_setup: "vote_inv 0 (\<lambda>p t. 0) (setupCluster N)"
  by (auto simp: vote_inv_def setupCluster_def node_ok_def node_votes_def NewRaft_def)

lemma cluster_run_append: "cluster_run N (evs @ evs') = fold cluster_step evs' (cluster_run N evs)"
  by (simp add: cluster_run_def)

lemma vote_inv_cluster:
  "length evs < 2 ^ 64 \<Longrightarrow> \<exists>V. vote_inv (length evs) V (cluster_run N evs)"
  using vote_inv_run [OF vote_inv_setup, of evs N] by (auto simp: cluster_run_def)

lemma cl_size_step [simp]: "cl_size (cluster_step ev s) = cl_size s"
proof -
  have "cl_size (deliver_flight f anon fl s) = cl_size s" for f anon fl
    by (cases f) (auto simp: put_node_def split: prod.split)
  then show ?thesis by (cases ev) (auto simp: put_node_def split: prod.split list.split)
qed

lemma cl_size_fold [simp]: "cl_size (fold cluster_step evs s) = cl_size s"
  by (induction evs arbitrary: s) simp_all

lemma vote_inv_leads: "vote_inv k V s \<Longrightarrow> leads s n t \<Longrightarrow> is_node s n \<and> elected V (cl_size s) n t"
  unfolding vote_inv_def leads_def by (metis (mono_tags, lifting) node_ok_def raft_role.distinct(3))

text \<open>(C7) Election safety: in a run of fewer than \<open>2 ^ 64\<close> steps, with requests and responses delayed, reordered and lost at
  will, the leaders that a term has at any two moments of the run are the same node.\<close>

theorem election_safety:
  assumes "length (evs @ evs') < 2 ^ 64" "leads (cluster_run N evs) n t" "leads (cluster_run N (evs @ evs')) m t"
  shows "n = m"
proof -
  from assms(1) vote_inv_cluster [of evs N] obtain V where V: "vote_inv (length evs) V (cluster_run N evs)" by auto
  from vote_inv_run [OF this, of evs'] assms(1) obtain V' where
    V': "vote_inv (length evs + length evs') V' (cluster_run N (evs @ evs'))" "grows V V'" by (auto simp: cluster_run_append)
  from vote_inv_leads [OF V assms(2)] V'(2) have "elected V' (cl_size (cluster_run N evs)) n t"
    by (auto simp: is_node_def intro: elected_grow)
  moreover from vote_inv_leads [OF V'(1) assms(3)] have "elected V' (cl_size (cluster_run N evs)) m t"
    by (simp add: cluster_run_append)
  ultimately show ?thesis by (rule elected_unique)
qed

theorem election_safety_witness:
  "\<exists>m. leads (cluster_run 3 [ElectionTimer 1, Deliver 0 False, Deliver 1 False]) 1 1 \<and>
     leads (cluster_run 3 ([ElectionTimer 1, Deliver 0 False, Deliver 1 False] @ [ElectionTimer 2, HeartbeatTimer 1, Lose 0])) m 1 \<and> 1 = m"
proof -
  have 1: "leads (cluster_run 3 [ElectionTimer 1, Deliver 0 False, Deliver 1 False]) 1 1" by code_simp
  have 2: "leads (cluster_run 3 ([ElectionTimer 1, Deliver 0 False, Deliver 1 False] @ [ElectionTimer 2, HeartbeatTimer 1, Lose 0])) 1 1"
    by code_simp
  have "(1 :: nat) = 1" by (rule election_safety [OF _ 1 2]) simp
  with 1 2 show ?thesis by blast
qed

end
