(* ===== verification/Raft_Logs.thy ===== *)
theory Raft_Logs
  imports Raft_Election
begin

text \<open>
  Log matching.  The proof carries the entries created so far: \<open>E i t\<close> is the entry with index \<open>i\<close> and term \<open>t\<close>,
  given by the term of the entry before it and its command.  Only the leader of \<open>t\<close> creates entries of term \<open>t\<close>, each
  at a new index, so \<open>E\<close> is a function; a log whose entries are all in \<open>E\<close> is determined by its last index and term.
\<close>

section \<open>Logs made of known entries\<close>

type_synonym created = "nat \<Rightarrow> nat \<Rightarrow> (nat \<times> bytes) option"

definition extends :: "created \<Rightarrow> created \<Rightarrow> bool" where
  "extends E E' \<longleftrightarrow> (\<forall>i t x. E i t = Some x \<longrightarrow> E' i t = Some x)"

definition log_ok :: "created \<Rightarrow> raft_log \<Rightarrow> bool" where
  "log_ok E l \<longleftrightarrow> l \<noteq> [] \<and> l ! 0 = \<lparr>le_Index = 0, le_Term = 0, le_Command = []\<rparr> \<and>
     (\<forall>i. 0 < i \<longrightarrow> i < length l \<longrightarrow> le_Index (l ! i) = i \<and> E i (le_Term (l ! i)) = Some (le_Term (l ! (i - 1)), le_Command (l ! i)))"

definition ae_ok :: "created \<Rightarrow> AppendEntriesRequest \<Rightarrow> bool" where
  "ae_ok E req \<longleftrightarrow> ae_Entries req = [] \<or> ae_PrevLogIndex req = 2 ^ 64 - 1 \<or>
     (\<exists>l k. log_ok E l \<and> ae_PrevLogIndex req < length l \<and> ae_PrevLogTerm req = le_Term (l ! ae_PrevLogIndex req) \<and>
        ae_Entries req = take k (drop (Suc (ae_PrevLogIndex req)) l))"

fun flight_log_ok :: "created \<Rightarrow> flight \<Rightarrow> bool" where
  "flight_log_ok E (Req src dst (AE req)) \<longleftrightarrow> ae_ok E req"
| "flight_log_ok E f \<longleftrightarrow> True"

lemma log_ok_extends: "extends E E' \<Longrightarrow> log_ok E l \<Longrightarrow> log_ok E' l"
  by (auto simp: log_ok_def extends_def)

lemma ae_ok_extends: "extends E E' \<Longrightarrow> ae_ok E req \<Longrightarrow> ae_ok E' req"
  unfolding ae_ok_def using log_ok_extends by blast

lemma flight_log_ok_extends: "extends E E' \<Longrightarrow> flight_log_ok E f \<Longrightarrow> flight_log_ok E' f"
  using ae_ok_extends by (cases "(E, f)" rule: flight_log_ok.cases) auto

lemma log_ok_NewLog: "log_ok E NewLog"
  by (simp add: log_ok_def NewLog_def)

lemma log_ok_match:
  assumes "log_ok E l" "log_ok E l'" "i < length l" "i < length l'" "le_Term (l ! i) = le_Term (l' ! i)"
  shows "take (Suc i) l = take (Suc i) l'"
  using assms(3-5)
proof (induction i)
  case 0
  with assms(1,2) show ?case by (cases l; cases l') (auto simp: log_ok_def)
next
  case (Suc i)
  have l: "le_Index (l ! Suc i) = Suc i" "E (Suc i) (le_Term (l ! Suc i)) = Some (le_Term (l ! i), le_Command (l ! Suc i))"
    using assms(1) Suc.prems by (auto simp: log_ok_def dest: spec [of _ "Suc i"])
  have l': "le_Index (l' ! Suc i) = Suc i" "E (Suc i) (le_Term (l' ! Suc i)) = Some (le_Term (l' ! i), le_Command (l' ! Suc i))"
    using assms(2) Suc.prems by (auto simp: log_ok_def dest: spec [of _ "Suc i"])
  have "l ! Suc i = l' ! Suc i" using l l' Suc.prems by (intro LogEntry.equality) auto
  moreover have "take (Suc i) l = take (Suc i) l'" using Suc l l' by auto
  ultimately show ?case using Suc.prems by (simp add: take_Suc_conv_app_nth [of "Suc i"])
qed

lemma log_ok_take: "log_ok E l \<Longrightarrow> 0 < k \<Longrightarrow> log_ok E (take k l)"
  by (auto simp: log_ok_def)

lemma log_ok_append:
  assumes "log_ok E l" "E (length l) t = Some (le_Term (last l), cmd)"
  shows "log_ok E (l @ [\<lparr>le_Index = length l, le_Term = t, le_Command = cmd\<rparr>])"
  using assms by (auto simp: log_ok_def nth_append last_conv_nth less_Suc_eq)

lemma log_ok_Last: "log_ok E l \<Longrightarrow> log_Last l = (length l - 1, le_Term (last l))"
  by (cases "length l = 1") (auto simp: log_ok_def log_Last_def Let_def last_conv_nth dest: spec [of _ "length l - 1"])

lemma log_Truncate_take: "log_Truncate k l = take k l"
  by (simp add: log_Truncate_def)

lemma log_ok_replicate:
  assumes l: "log_ok E l" and req: "ae_ok E req" "ae_Entries req \<noteq> []" and prev: "prev_ok req l" and len: "length l < 2 ^ 64"
  shows "log_ok E (log_Append (ae_Entries req) (log_Truncate (w64 (ae_PrevLogIndex req + 1)) l))"
proof -
  let ?p = "ae_PrevLogIndex req"
  have p: "?p < length l" using prev l by (auto simp: prev_ok_def log_Get_def log_ok_def split: if_splits)
  with req len obtain l' k where l': "log_ok E l'" "?p < length l'" "ae_PrevLogTerm req = le_Term (l' ! ?p)"
    "ae_Entries req = take k (drop (Suc ?p) l')" by (auto simp: ae_ok_def)
  have "le_Term (l ! ?p) = le_Term (l' ! ?p)"
    using prev l l' p by (cases "?p = 0") (auto simp: prev_ok_def log_Get_def log_ok_def)
  from log_ok_match [OF l l'(1) p l'(2) this] have "take (Suc ?p) l = take (Suc ?p) l'" .
  moreover have "w64 (?p + 1) = Suc ?p" using p len by simp
  ultimately have "log_Append (ae_Entries req) (log_Truncate (w64 (?p + 1)) l) = take (Suc ?p + k) l'"
    using l'(4) by (simp only: log_Append_def log_Truncate_take take_add)
  then show ?thesis using log_ok_take [OF l'(1), of "Suc ?p + k"] by simp
qed

lemma log_ok_send:
  assumes l: "log_ok E (r_log r)" and out: "(p, AE req) \<in> set (sendAppendEntriesTo q r)"
  shows "ae_ok E req"
proof (cases "ae_Entries req = [] \<or> ae_PrevLogIndex req = 2 ^ 64 - 1")
  case False
  from out obtain nx where nx: "map_of (nextIndex r) q = Some nx"
    by (cases "map_of (nextIndex r) q") (auto simp: sendAppendEntriesTo_def)
  define stop where "stop = min (length (r_log r)) (w64 (nx + 100))"
  have nz: "nx \<noteq> 0"
  proof
    assume "nx = 0"
    with False out nx show False by (simp add: sendAppendEntriesTo_def w64_dec_def)
  qed
  then have prev: "ae_PrevLogIndex req = nx - 1" using out nx by (auto simp: sendAppendEntriesTo_def w64_dec_def Let_def)
  have es: "ae_Entries req = (if nx \<ge> stop then [] else take (stop - nx) (drop nx (r_log r)))"
    using out nx nz by (auto simp: sendAppendEntriesTo_def log_Slice_def stop_def Let_def min_def)
  with False have "nx < stop" by (auto split: if_splits)
  then have "nx - 1 < length (r_log r)" by (auto simp: stop_def)
  moreover have "ae_PrevLogTerm req = le_Term (r_log r ! (nx - 1))"
    using out nx nz l \<open>nx - 1 < length (r_log r)\<close> by (auto simp: sendAppendEntriesTo_def w64_dec_def Let_def log_Get_def log_ok_def split: if_splits)
  moreover have "ae_Entries req = take (stop - nx) (drop (Suc (nx - 1)) (r_log r))" using es \<open>nx < stop\<close> nz by simp
  ultimately show ?thesis using l unfolding ae_ok_def prev by blast
qed (auto simp: ae_ok_def)

section \<open>The invariant\<close>

definition role_step :: "raft \<Rightarrow> raft \<Rightarrow> bool" where
  "role_step r r' \<longleftrightarrow> currentTerm r < currentTerm r' \<or>
     currentTerm r' = currentTerm r \<and>
       (r_state r \<noteq> Candidate \<longrightarrow> r_state r' \<noteq> Candidate \<and> (r_state r' = Leader \<longrightarrow> r_state r = Leader \<and> length (r_log r) \<le> length (r_log r')))"

definition past_entry :: "history \<Rightarrow> cluster \<Rightarrow> nat \<Rightarrow> nat \<Rightarrow> nat \<Rightarrow> bool" where
  "past_entry V s i t n \<longleftrightarrow> is_node s n \<and> elected V (cl_size s) n t \<and>
     (let r = cl_nodes s n
      in t < currentTerm r \<or> t = currentTerm r \<and> r_state r \<noteq> Candidate \<and> (r_state r = Leader \<longrightarrow> i < length (r_log r)))"

definition log_inv :: "nat \<Rightarrow> created \<Rightarrow> history \<Rightarrow> cluster \<Rightarrow> bool" where
  "log_inv k E V s \<longleftrightarrow> (\<forall>n. log_ok E (r_log (cl_nodes s n))) \<and> (\<forall>f \<in> set (cl_flights s). flight_log_ok E f) \<and>
     (\<forall>i t x. E i t = Some x \<longrightarrow> i \<le> k \<and> (\<exists>n. past_entry V s i t n))"

lemma log_inv_length:
  assumes "log_inv k E V s"
  shows "length (r_log (cl_nodes s n)) \<le> Suc k"
proof (cases "length (r_log (cl_nodes s n)) \<le> 1")
  case False
  let ?l = "r_log (cl_nodes s n)"
  have "log_ok E ?l" using assms by (simp add: log_inv_def)
  with False have "E (length ?l - 1) (le_Term (?l ! (length ?l - 1))) \<noteq> None" by (auto simp: log_ok_def)
  with assms have "length ?l - 1 \<le> k" by (auto simp: log_inv_def)
  then show ?thesis by simp
qed simp

lemma past_entry_step:
  assumes "past_entry V s i t m" "grows V V'" "role_step (cl_nodes s n) r'"
  shows "past_entry V' (put_node n r' fl s) i t m"
proof -
  have "m \<noteq> 0" using assms(1) by (simp add: past_entry_def is_node_def)
  with assms(1) elected_grow [OF assms(2)] have e: "is_node s m" "elected V' (cl_size s) m t" by (auto simp: past_entry_def)
  show ?thesis
  proof (cases "m = n")
    case True
    with assms(1,3) e show ?thesis unfolding past_entry_def role_step_def Let_def put_node_def is_node_def by auto
  next
    case False
    with assms(1) e show ?thesis by (simp add: past_entry_def Let_def put_node_def is_node_def)
  qed
qed

lemma log_inv_step:
  assumes L: "log_inv k E V s" and E: "extends E E'" and g: "grows V V'" and r: "role_step (cl_nodes s n) r'"
    and l: "log_ok E' (r_log r')"
    and new: "\<And>i t x. E' i t = Some x \<Longrightarrow> E i t = None \<Longrightarrow> i \<le> Suc k \<and> (\<exists>m. past_entry V' (put_node n r' fl' s) i t m)"
    and fl: "\<And>f. f \<in> set fl' \<Longrightarrow> f \<in> set (cl_flights s) \<or> flight_log_ok E' f"
  shows "log_inv (Suc k) E' V' (put_node n r' fl' s)"
proof -
  have "i \<le> Suc k \<and> (\<exists>m. past_entry V' (put_node n r' fl' s) i t m)" if "E' i t = Some x" for i t x
  proof (cases "E i t")
    case None
    with new [OF that] show ?thesis by simp
  next
    case (Some y)
    with L have "i \<le> k \<and> (\<exists>m. past_entry V s i t m)" unfolding log_inv_def by blast
    with past_entry_step [OF _ g r] show ?thesis using le_SucI by blast
  qed
  moreover have "log_ok E' (r_log (cl_nodes (put_node n r' fl' s) m))" for m
    using L l log_ok_extends [OF E] by (simp add: log_inv_def put_node_def)
  moreover have "flight_log_ok E' f" if "f \<in> set fl'" for f
    using fl [OF that] L flight_log_ok_extends [OF E] by (auto simp: log_inv_def)
  ultimately show ?thesis by (simp add: log_inv_def) (simp add: put_node_def)
qed

lemma extends_refl [simp]: "extends E E"
  by (simp add: extends_def)

lemma log_inv_same_entries:
  assumes "log_inv k E V s" "grows V V'" "role_step (cl_nodes s n) r'" "log_ok E (r_log r')"
    and "\<And>f. f \<in> set fl' \<Longrightarrow> f \<in> set (cl_flights s) \<or> flight_log_ok E f"
  shows "log_inv (Suc k) E V' (put_node n r' fl' s)"
  by (rule log_inv_step [OF assms(1) extends_refl assms(2-4) _ assms(5)]) simp_all

section \<open>Steps\<close>

lemma role_steps:
  "role_step r (fst (handleAppendEntries req r))"
  "role_step r (fst (handleAppendEntriesResponse from resp r))"
  "role_step r (fst (handleRequestVote vreq r))"
  "role_step r (handleRequestVoteResponse vresp r)"
  "role_step r (fst (handleHeartbeatTimeout r))"
  "role_step r (fst (Raft_Propose cmd r))"
  by (auto simp: role_step_def handleAppendEntries_def handleAppendEntriesResponse_def handleRequestVote_def
      handleRequestVoteResponse_def handleHeartbeatTimeout_def Raft_Propose_def becomeFollower_def becomeLeader_def Let_def raft_frames
      split: prod.split)

lemma same_logs:
  "r_log (fst (handleAppendEntriesResponse from resp r)) = r_log r"
  "r_log (fst (handleRequestVote vreq r)) = r_log r"
  "r_log (handleRequestVoteResponse vresp r) = r_log r"
  "r_log (fst (handleHeartbeatTimeout r)) = r_log r"
  "r_log (fst (Raft_Propose cmd r)) = r_log r"
  "r_log (becomeCandidate r) = r_log r"
  by (auto simp: handleAppendEntriesResponse_def handleRequestVote_def handleRequestVoteResponse_def handleHeartbeatTimeout_def
      Raft_Propose_def becomeFollower_def becomeLeader_def becomeCandidate_def Let_def raft_frames split: prod.split)

lemma log_ok_handleAppendEntries:
  assumes "log_ok E (r_log r)" "ae_ok E req" "length (r_log r) < 2 ^ 64"
  shows "log_ok E (r_log (fst (handleAppendEntries req r)))"
proof -
  define r1 where "r1 = (if ae_Term req > currentTerm r then becomeFollower (ae_Term req) r else r)\<lparr>leaderID := ae_LeaderID req, r_state := Follower\<rparr>"
  have l: "r_log r1 = r_log r" by (simp add: r1_def becomeFollower_def Let_def)
  have "r_log (fst (handleAppendEntries req r)) =
      (if ae_Term req < currentTerm r \<or> \<not> prev_ok req (r_log r) \<or> ae_Entries req = [] then r_log r
       else log_Append (ae_Entries req) (log_Truncate (w64 (ae_PrevLogIndex req + 1)) (r_log r)))"
    by (simp add: handleAppendEntries_def becomeFollower_def Let_def raft_frames)
  then show ?thesis using assms(1) log_ok_replicate [OF assms(1,2) _ _ assms(3)] by simp
qed

lemma sends_log_ok:
  assumes "log_ok E (r_log r)" "f \<in> set (sends n (sendAppendEntriesTo q r)) \<or> f \<in> set (sends n (broadcastAppendEntries r))"
  shows "flight_log_ok E f"
proof -
  from assms(2) obtain p m q where f: "f = Req n p m" "(p, m) \<in> set (sendAppendEntriesTo q r)"
    by (auto simp: sends_def broadcastAppendEntries_def)
  then show ?thesis using log_ok_send [OF assms(1)] by (cases m) auto
qed

lemma log_inv_leader_step:
  assumes L: "log_inv k E V s" and g: "grows V V'" and r: "role_step (cl_nodes s n) r'" "r_log r' = r_log (cl_nodes s n)"
    and fl: "set fl \<subseteq> set (cl_flights s)"
    and out: "\<And>f. f \<in> set new \<Longrightarrow> (\<exists>q r. r_log r = r_log (cl_nodes s n) \<and>
      (f \<in> set (sends n (sendAppendEntriesTo q r)) \<or> f \<in> set (sends n (broadcastAppendEntries r)))) \<or> flight_log_ok E f"
  shows "log_inv (Suc k) E V' (put_node n r' (fl @ new) s)"
proof -
  have l: "log_ok E (r_log (cl_nodes s n))" using L by (simp add: log_inv_def)
  have "f \<in> set (cl_flights s) \<or> flight_log_ok E f" if "f \<in> set (fl @ new)" for f
    using that fl out sends_log_ok [of E] l by (metis UnE set_append subset_iff)
  then show ?thesis by (intro log_inv_same_entries [OF L g r(1)]) (simp_all add: r(2) l)
qed

lemma log_inv_propose:
  assumes I: "vote_inv k V s" and L: "log_inv k E V s" and g: "grows V V'" and small: "Suc k < 2 ^ 64" and n: "is_node s n"
  shows "\<exists>E'. log_inv (Suc k) E' V' (put_node n (fst (handlePropose cmd ((cl_nodes s n)\<lparr>proposeCh := q\<rparr>)))
      (cl_flights s @ sends n (snd (handlePropose cmd ((cl_nodes s n)\<lparr>proposeCh := q\<rparr>)))) s)"
proof (cases "r_state (cl_nodes s n) = Leader")
  case False
  then show ?thesis
    using L by (intro exI [of _ E] log_inv_leader_step [OF L g])
      (auto simp: handlePropose_def role_step_def sends_def)
next
  case True
  let ?r = "(cl_nodes s n)\<lparr>proposeCh := q\<rparr>" and ?l = "r_log (cl_nodes s n)" and ?t = "currentTerm (cl_nodes s n)"
  let ?e = "\<lparr>le_Index = length ?l, le_Term = ?t, le_Command = cmd\<rparr>"
  let ?r1 = "?r\<lparr>r_log := log_Append [?e] ?l\<rparr>"
  define E' where "E' = E(length ?l := (E (length ?l))(?t := Some (le_Term (last ?l), cmd)))"
  have l: "log_ok E ?l" using L by (simp add: log_inv_def)
  then have "?l \<noteq> []" by (simp add: log_ok_def)
  have len: "length ?l \<le> Suc k" by (rule log_inv_length [OF L])
  have "leads s n ?t" using True by (simp add: leads_def)
  then have elec: "elected V (cl_size s) n ?t" using vote_inv_leads [OF I] by blast
  have fresh: "E (length ?l) ?t = None"
  proof (cases "E (length ?l) ?t")
    case (Some x)
    with L obtain m where m: "past_entry V s (length ?l) ?t m" unfolding log_inv_def by blast
    then have "m = n" using elected_unique [OF _ elec] by (simp add: past_entry_def)
    with m True show ?thesis by (simp add: past_entry_def Let_def)
  qed simp
  then have E: "extends E E'" by (auto simp: extends_def E'_def)
  have step: "handlePropose cmd ?r = (advanceCommitIndex ?r1, broadcastAppendEntries ?r1)"
    using True \<open>?l \<noteq> []\<close> len small by (simp add: handlePropose_def log_ok_Last [OF l] Let_def)
  have l1: "log_ok E' (r_log ?r1)"
    using log_ok_append [OF log_ok_extends [OF E l], of ?t cmd] by (simp add: E'_def log_Append_def)
  let ?s = "put_node n (advanceCommitIndex ?r1) (cl_flights s @ sends n (broadcastAppendEntries ?r1)) s"
  have "past_entry V' ?s (length ?l) ?t n"
    using n True elected_grow [OF g _ elec] by (simp add: past_entry_def put_node_def is_node_def raft_frames log_Append_def)
  then have new: "i \<le> Suc k \<and> (\<exists>m. past_entry V' ?s i t m)" if "E' i t = Some x" "E i t = None" for i t x
    using that len by (auto simp: E'_def split: if_splits)
  have role: "role_step (cl_nodes s n) (advanceCommitIndex ?r1)"
    using True by (simp add: role_step_def raft_frames log_Append_def)
  have "log_inv (Suc k) E' V' ?s"
    by (rule log_inv_step [OF L E g role _ new]) (use l1 sends_log_ok [OF l1] in \<open>auto simp: raft_frames\<close>)
  then show ?thesis by (auto simp: step)
qed

lemma log_inv_drop:
  assumes "log_inv k E V s" "grows V V'"
  shows "log_inv (Suc k) E V' (s\<lparr>cl_flights := drop_nth i (cl_flights s)\<rparr>)"
proof -
  let ?n = "0" and ?fl = "drop_nth i (cl_flights s)"
  have "s\<lparr>cl_flights := ?fl\<rparr> = put_node ?n (cl_nodes s ?n) ?fl s" by (simp add: put_node_def)
  then show ?thesis
    using log_inv_leader_step [OF assms, of ?n "cl_nodes s ?n" ?fl "[]"] set_drop_nth [of i "cl_flights s"] by (simp add: role_step_def)
qed

lemma handleAppendEntriesResponse_out:
  assumes "f \<in> set (sends n (snd (handleAppendEntriesResponse from resp r)))"
  shows "\<exists>q r'. r_log r' = r_log r \<and> f \<in> set (sends n (sendAppendEntriesTo q r'))"
proof -
  let ?r = "r\<lparr>nextIndex := AList.update from (the_default 0 (map_of (nextIndex r) from) - 1) (nextIndex r)\<rparr>"
  have "snd (handleAppendEntriesResponse from resp r) \<in> {[], sendAppendEntriesTo from r, sendAppendEntriesTo from ?r}"
    by (simp add: handleAppendEntriesResponse_def Let_def)
  moreover have "r_log ?r = r_log r" by simp
  ultimately show ?thesis using assms by (metis empty_iff insert_iff sends_def list.simps(8) list.set(1))
qed

lemma log_inv_handleRPC:
  assumes L: "log_inv k E V s" and g: "grows V V'" and small: "Suc k < 2 ^ 64" and fl: "set fl \<subseteq> set (cl_flights s)"
    and m: "\<And>req. m = AE req \<Longrightarrow> ae_ok E req" and rep: "\<And>f. f \<in> set rep \<Longrightarrow> flight_log_ok E f"
    and h: "handleRPC from m (cl_nodes s n) = (r', out, a)"
  shows "log_inv (Suc k) E V' (put_node n r' (fl @ sends n out @ rep) s)"
proof (cases m)
  case (AE req)
  have "length (r_log (cl_nodes s n)) < 2 ^ 64" using log_inv_length [OF L, of n] small by simp
  then have "log_ok E (r_log (fst (handleAppendEntries req (cl_nodes s n))))"
    using L m [OF AE] by (intro log_ok_handleAppendEntries) (auto simp: log_inv_def)
  moreover have "r' = fst (handleAppendEntries req (cl_nodes s n))" "out = []" using h AE by (auto simp: case_prod_beta Let_def)
  ultimately show ?thesis using fl rep by (intro log_inv_same_entries [OF L g]) (auto simp: role_steps sends_def)
next
  case (AER resp)
  then have "r' = fst (handleAppendEntriesResponse from resp (cl_nodes s n))" "out = snd (handleAppendEntriesResponse from resp (cl_nodes s n))"
    using h by (auto simp: case_prod_beta Let_def)
  then show ?thesis
    using rep handleAppendEntriesResponse_out [of _ n "from" resp "cl_nodes s n"]
    by (intro log_inv_leader_step [OF L g _ _ fl]) (simp_all add: role_steps same_logs, blast)
next
  case (RV req)
  then have "r' = fst (handleRequestVote req (cl_nodes s n))" "out = []" using h by (auto simp: case_prod_beta Let_def)
  then show ?thesis
    using rep by (intro log_inv_leader_step [OF L g _ _ fl]) (auto simp: role_steps same_logs sends_def)
next
  case (RVR resp)
  then have "r' = handleRequestVoteResponse resp (cl_nodes s n)" "out = []" using h by auto
  then show ?thesis
    using rep by (intro log_inv_leader_step [OF L g _ _ fl]) (auto simp: role_steps same_logs sends_def)
qed

lemma log_inv_deliver:
  assumes I: "vote_inv k V s" and L: "log_inv k E V s" and g: "grows V V'" and small: "Suc k < 2 ^ 64" and i: "i < length (cl_flights s)"
  shows "log_inv (Suc k) E V' (deliver_flight (cl_flights s ! i) anon (drop_nth i (cl_flights s)) s)"
proof -
  have f: "flight_log_ok E (cl_flights s ! i)" "flight_ok k V s (cl_flights s ! i)"
    using L i vote_inv_ok [OF I] by (auto simp: log_inv_def)
  note handle = log_inv_handleRPC [OF L g small set_drop_nth [of i]]
  show ?thesis
  proof (cases "cl_flights s ! i")
    case (Req src dst m)
    obtain r' out a where h: "handleRPC src m (cl_nodes s dst) = (r', out, a)" by (metis prod_cases3)
    have "flight_log_ok E x" if "x \<in> set (replies src dst a)" for x
      using that by (cases a) (auto simp: replies_def)
    then have "log_inv (Suc k) E V' (put_node dst r' (drop_nth i (cl_flights s) @ sends dst out @ replies src dst a) s)"
      using f(1) Req by (intro handle [OF _ _ h]) auto
    then show ?thesis using Req h log_inv_drop [OF L g, of i] by simp
  next
    case (Resp dst src m)
    obtain r' out a where h: "handleRPC (if anon then 0 else src) m (cl_nodes s dst) = (r', out, a)" by (metis prod_cases3)
    have "log_inv (Suc k) E V' (put_node dst r' (drop_nth i (cl_flights s) @ sends dst out @ []) s)"
      using f(2) Resp by (intro handle [OF _ _ h]) auto
    then show ?thesis using Resp h log_inv_drop [OF L g, of i] by simp
  qed
qed

lemma log_inv_event:
  assumes I: "vote_inv k V s" and L: "log_inv k E V s" and g: "grows V V'" and small: "Suc k < 2 ^ 64"
  shows "\<exists>E'. log_inv (Suc k) E' V' (cluster_step ev s)"
proof -
  have same: "\<exists>E'. log_inv (Suc k) E' V' s"
    using log_inv_drop [OF L g, of "length (cl_flights s)"] by (auto simp: drop_nth_def)
  have cfg: "currentTerm (becomeCandidate (cl_nodes s n)) = Suc (currentTerm (cl_nodes s n))" if "is_node s n" for n
    using vote_inv_term [OF I that] small by (simp add: becomeCandidate_def)
  note leader = log_inv_leader_step [OF L g _ _ subset_refl]
  show ?thesis
  proof (cases ev)
    case (ElectionTimer n)
    have "log_inv (Suc k) E V' (put_node n (becomeCandidate (cl_nodes s n))
        (cl_flights s @ sends n (broadcastRequestVote (becomeCandidate (cl_nodes s n)))) s)" if "is_node s n"
      by (rule leader) (auto simp: role_step_def cfg [OF that] same_logs sends_def broadcastRequestVote_def split: prod.splits)
    then show ?thesis
      using ElectionTimer same by (auto simp: handleElectionTimeout_def Let_def put_node_def sends_def)
  next
    case (HeartbeatTimer n)
    have "log_inv (Suc k) E V' (put_node n (fst (handleHeartbeatTimeout (cl_nodes s n)))
        (cl_flights s @ sends n (snd (handleHeartbeatTimeout (cl_nodes s n)))) s)"
      by (rule leader) (auto simp: role_steps same_logs, auto simp: handleHeartbeatTimeout_def sends_def split: if_splits)
    then show ?thesis using HeartbeatTimer same by (auto simp: case_prod_beta Let_def)
  next
    case (ClientPropose n cmd)
    have "log_inv (Suc k) E V' (put_node n (fst (Raft_Propose cmd (cl_nodes s n))) (cl_flights s @ []) s)"
      by (rule leader) (auto simp: role_steps same_logs)
    then show ?thesis using ClientPropose same by auto
  next
    case (RunPropose n)
    then show ?thesis
      using same log_inv_propose [OF I L g small] by (auto simp: case_prod_beta Let_def split: list.split)
  next
    case (Deliver i anon)
    then show ?thesis using same log_inv_deliver [OF I L g small, of i anon] by auto
  next
    case (Lose i)
    then show ?thesis using log_inv_drop [OF L g, of i] by auto
  qed
qed

lemma log_inv_run:
  "vote_inv k V s \<Longrightarrow> log_inv k E V s \<Longrightarrow> k + length evs < 2 ^ 64 \<Longrightarrow> \<exists>V' E'. log_inv (k + length evs) E' V' (fold cluster_step evs s)"
proof (induction evs arbitrary: k V E s)
  case Nil
  then show ?case by auto
next
  case (Cons ev evs)
  then obtain V1 where V1: "vote_inv (Suc k) V1 (cluster_step ev s)" "grows V V1"
    using vote_inv_event [of k V s ev] by auto
  moreover obtain E1 where "log_inv (Suc k) E1 V1 (cluster_step ev s)"
    using log_inv_event [OF Cons.prems(1,2) V1(2)] Cons.prems(3) by auto
  ultimately have "\<exists>V' E'. log_inv (Suc k + length evs) E' V' (fold cluster_step evs (cluster_step ev s))"
    using Cons.prems(3) by (intro Cons.IH) auto
  then show ?case by simp
qed

lemma log_inv_setup: "log_inv 0 (\<lambda>i t. None) (\<lambda>p t. 0) (setupCluster N)"
  by (simp add: log_inv_def setupCluster_def NewRaft_def log_ok_NewLog)

text \<open>(C8) Log matching: in a run of fewer than \<open>2 ^ 64\<close> steps the entry at position \<open>i\<close> of a log has index \<open>i\<close>, and two logs
  whose entries at a position have the same term are equal up to that position.\<close>

theorem log_matching:
  assumes "length evs < 2 ^ 64" "i < length (r_log (cl_nodes (cluster_run N evs) n))"
  shows "le_Index (r_log (cl_nodes (cluster_run N evs) n) ! i) = i \<and>
    (i < length (r_log (cl_nodes (cluster_run N evs) m)) \<longrightarrow>
     le_Term (r_log (cl_nodes (cluster_run N evs) n) ! i) = le_Term (r_log (cl_nodes (cluster_run N evs) m) ! i) \<longrightarrow>
     take (Suc i) (r_log (cl_nodes (cluster_run N evs) n)) = take (Suc i) (r_log (cl_nodes (cluster_run N evs) m)))"
proof -
  obtain V E where "log_inv (0 + length evs) E V (cluster_run N evs)"
    unfolding cluster_run_def using log_inv_run [OF vote_inv_setup [of N] log_inv_setup, of evs] assms(1) by auto
  then have ok: "log_ok E (r_log (cl_nodes (cluster_run N evs) n))" for n by (simp add: log_inv_def)
  have "le_Index (r_log (cl_nodes (cluster_run N evs) n) ! i) = i"
    using ok [of n] assms(2) by (cases "i = 0") (auto simp: log_ok_def)
  with log_ok_match [OF ok ok assms(2)] show ?thesis by blast
qed

theorem log_matching_witness:
  "let s = cluster_run 3 [ElectionTimer 1, Deliver 0 False, Deliver 1 False, ClientPropose 1 [7], RunPropose 1, ClientPropose 1 [8],
         RunPropose 1, Deliver 1 False, Deliver 2 False]
   in length (r_log (cl_nodes s 1)) = 3 \<and> length (r_log (cl_nodes s 2)) = 3 \<and> take 3 (r_log (cl_nodes s 1)) = take 3 (r_log (cl_nodes s 2))"
proof -
  let ?evs = "[ElectionTimer 1, Deliver 0 False, Deliver 1 False, ClientPropose 1 [7], RunPropose 1, ClientPropose 1 [8],
         RunPropose 1, Deliver 1 False, Deliver 2 False]"
  let ?s = "cluster_run 3 ?evs"
  have 1: "length (r_log (cl_nodes ?s 1)) = 3 \<and> length (r_log (cl_nodes ?s 2)) = 3 \<and>
      le_Term (r_log (cl_nodes ?s 1) ! 2) = le_Term (r_log (cl_nodes ?s 2) ! 2)" by code_simp
  have "length ?evs < 2 ^ 64" by simp
  from log_matching [OF this, of 2 3 1 2] 1 show ?thesis by (simp add: Let_def numeral_3_eq_3)
qed

section \<open>Committing and applying\<close>

definition commit_choice :: "raft \<Rightarrow> nat \<Rightarrow> nat \<Rightarrow> bool" where
  "commit_choice r n c \<longleftrightarrow> n \<le> c \<and> c < length (r_log r) \<and> le_Term (r_log r ! c) = currentTerm r \<and>
     match_count c r > length (Peers (r_config r)) div 2"

lemma advance_loop_commit:
  "commitIndex (advance_loop n r) = commitIndex r \<or> commit_choice r n (commitIndex (advance_loop n r))"
proof (induction n r rule: advance_loop.induct)
  case (1 n r)
  show ?case
  proof (cases "log_Get n (r_log r)")
    case None
    then show ?thesis by (simp add: advance_loop.simps)
  next
    case (Some ent)
    note step = advance_loop.simps [of n r]
    show ?thesis
    proof (cases "le_Term ent = currentTerm r \<and> match_count n r > length (Peers (r_config r)) div 2")
      case True
      then have "commit_choice r n n" using Some by (auto simp: commit_choice_def log_Get_def split: if_splits)
      with 1(2) [OF Some] True show ?thesis by (auto simp: step Some commit_choice_def match_count_def)
    next
      case False
      with 1(1) [OF Some] show ?thesis by (auto simp: step Some commit_choice_def)
    qed
  qed
qed

lemma advance_loop_apply:
  "lastApplied (advance_loop n r) = lastApplied r" "applyCh (advance_loop n r) = applyCh r"
  by (induction n r rule: advance_loop.induct; subst advance_loop.simps; simp split: option.split)+

lemma applyCommitted_delivers:
  "lastApplied r \<le> commitIndex r \<Longrightarrow> commitIndex r < length (r_log r) \<Longrightarrow>
     lastApplied (applyCommitted r) = commitIndex r \<and>
     applyCh (applyCommitted r) = applyCh r @ map (\<lambda>e. \<lparr>am_Index = le_Index e, am_Command = le_Command e\<rparr>)
          (take (commitIndex r - lastApplied r) (drop (Suc (lastApplied r)) (r_log r)))"
proof (induction r rule: applyCommitted.induct)
  case (1 r)
  show ?case
  proof (cases "lastApplied r < commitIndex r")
    case False
    then show ?thesis using 1 by (subst (1 2) applyCommitted.simps) simp
  next
    case True
    let ?i = "Suc (lastApplied r)" and ?n = "commitIndex r - Suc (lastApplied r)"
    have g: "log_Get ?i (r_log r) = Some (r_log r ! ?i)" using True 1(3) by (simp add: log_Get_def)
    have d: "take (commitIndex r - lastApplied r) (drop ?i (r_log r)) = r_log r ! ?i # take ?n (drop (Suc ?i) (r_log r))"
      using True 1(3) by (simp add: Cons_nth_drop_Suc [symmetric] Suc_diff_Suc [symmetric])
    show ?thesis using 1(1) [OF True] 1(3) True
      by (subst (1 2) applyCommitted.simps) (simp add: Let_def g d)
  qed
qed

text \<open>(C19) What a leader commits: \<^verbatim>\<open>advanceCommitIndex\<close> leaves the commit index alone or raises it to an entry of the leader's own
  term that it counts on a majority of the cluster; \<^verbatim>\<open>applyCommitted\<close> then delivers every entry from the last applied one up to
  the commit index, in order and once.\<close>

theorem leader_commit_rule:
  assumes "r_state r = Leader" "lastApplied r \<le> commitIndex r" "commitIndex r < length (r_log r)" "length (r_log r) < 2 ^ 64"
  shows "let r' = advanceCommitIndex r
     in (commitIndex r' = commitIndex r \<or>
         commitIndex r < commitIndex r' \<and> commitIndex r' < length (r_log r) \<and>
         le_Term (r_log r ! commitIndex r') = currentTerm r \<and> match_count (commitIndex r') r > length (Peers (r_config r)) div 2) \<and>
        lastApplied r' = commitIndex r' \<and>
        applyCh r' = applyCh r @ map (\<lambda>e. \<lparr>am_Index = le_Index e, am_Command = le_Command e\<rparr>)
          (take (commitIndex r' - lastApplied r) (drop (Suc (lastApplied r)) (r_log r)))"
proof -
  let ?a = "advance_loop (w64 (commitIndex r + 1)) r"
  have start: "w64 (commitIndex r + 1) = Suc (commitIndex r)" using assms by simp
  have commit: "commitIndex ?a = commitIndex r \<or> commit_choice r (Suc (commitIndex r)) (commitIndex ?a)"
    unfolding start by (rule advance_loop_commit)
  then have bounds: "commitIndex r \<le> commitIndex ?a" "commitIndex ?a < length (r_log r)"
    using assms(3) by (auto simp: commit_choice_def)
  have "lastApplied ?a \<le> commitIndex ?a" "commitIndex ?a < length (r_log ?a)"
    using bounds assms(2) by (auto simp: advance_loop_apply advance_loop_frame)
  from applyCommitted_delivers [OF this] commit assms(1) show ?thesis
    by (auto simp: advanceCommitIndex_def Let_def applyCommitted_frame advance_loop_apply advance_loop_frame commit_choice_def)
qed

theorem leader_commit_rule_witness:
  "\<exists>r. commitIndex r = 0 \<and> commitIndex (advanceCommitIndex r) = 1 \<and> lastApplied (advanceCommitIndex r) = 1 \<and>
     applyCh (advanceCommitIndex r) = [\<lparr>am_Index = 1, am_Command = [7]\<rparr>]"
proof -
  let ?r = "(NewRaft (DefaultConfig\<lparr>NodeID := 1, Peers := [[], [], []]\<rparr>))\<lparr>r_state := Leader, currentTerm := 1,
      r_log := NewLog @ [\<lparr>le_Index = 1, le_Term = 1, le_Command = [7]\<rparr>], matchIndex := [(2, 1), (3, 0)]\<rparr>"
  have a: "r_state ?r = Leader" "lastApplied ?r \<le> commitIndex ?r" "commitIndex ?r < length (r_log ?r)" "length (r_log ?r) < 2 ^ 64"
    by (simp_all add: NewRaft_def NewLog_def)
  have "commitIndex (advanceCommitIndex ?r) = 1" by code_simp
  with leader_commit_rule [OF a] show ?thesis
    by (intro exI [of _ ?r]) (simp add: Let_def NewRaft_def NewLog_def)
qed

section \<open>Where the code departs from the protocol\<close>


lemma single_step:
  assumes "cl_size s = 1" "cl_flights s = []" "\<And>n. length (Peers (r_config (cl_nodes s n))) = 1 \<and> NodeID (r_config (cl_nodes s n)) = n"
    "\<And>n. r_state (cl_nodes s n) \<noteq> Leader"
  shows "cl_flights (cluster_step ev s) = [] \<and>
    (\<forall>n. length (Peers (r_config (cl_nodes (cluster_step ev s) n))) = 1 \<and> NodeID (r_config (cl_nodes (cluster_step ev s) n)) = n \<and>
      r_state (cl_nodes (cluster_step ev s) n) \<noteq> Leader)"
proof -
  have peers: "other_peers (r_config (cl_nodes s 1)) = []"
    using assms(3) [of 1] set_other_peers [of "r_config (cl_nodes s 1)"] by (auto simp flip: set_empty)
  have node: "is_node s n \<longleftrightarrow> n = 1" for n using assms(1) by (auto simp: is_node_def)
  have vote: "broadcastRequestVote (becomeCandidate (cl_nodes s 1)) = []"
    using peers by (simp add: broadcastRequestVote_def becomeCandidate_def split: prod.split)
  show ?thesis
    using assms vote
    by (cases ev) (auto simp: node put_node_def sends_def drop_nth_def handleElectionTimeout_def handleHeartbeatTimeout_def
        handlePropose_def Raft_Propose_def becomeCandidate_def Let_def split: prod.splits list.splits)
qed

text \<open>(C39) A cluster of one node never has a leader: the node votes for itself, but whether the votes suffice is only checked when
  a response of another node arrives.\<close>

theorem single_node_never_leads: "\<not> leads (cluster_run 1 evs) n t"
proof -
  have "cl_size s = 1 \<and> cl_flights s = [] \<and> (\<forall>n. length (Peers (r_config (cl_nodes s n))) = 1 \<and> NodeID (r_config (cl_nodes s n)) = n \<and>
      r_state (cl_nodes s n) \<noteq> Leader)" if "s = cluster_run 1 evs" for s
    using that
  proof (induction evs arbitrary: s rule: rev_induct)
    case Nil
    then show ?case by (simp add: cluster_run_def setupCluster_def NewRaft_def)
  next
    case (snoc ev evs)
    then show ?case using single_step [of "cluster_run 1 evs" ev] by (simp add: cluster_run_append)
  qed
  then show ?thesis by (simp add: leads_def)
qed

end
