(* ===== verification/Pipeline.thy ===== *)
theory Pipeline
  imports Client_Conn
begin

text \<open>
  \<^verbatim>\<open>net/pipeline.go\<close> and the buffer pool of \<^verbatim>\<open>net/protocol.go\<close>: requests that are collected on one connection, written in one
  go and answered in order.  A pipeline is its calls, as a single request is one, with the buffers their payloads live in.
\<close>

section \<open>Buffers\<close>

text \<open>A buffer is a position in the list of capacities; the pool may hold it any number of times.\<close>

record buffers =
  bf_caps :: "nat list"
  bf_pool :: "nat list"

definition make_buf :: "nat \<Rightarrow> buffers \<Rightarrow> buffers \<times> nat" where
  "make_buf cap bf = (bf\<lparr>bf_caps := bf_caps bf @ [cap]\<rparr>, length (bf_caps bf))"

text \<open>\<open>pick\<close> is the choice of \<^verbatim>\<open>sync.Pool\<close>: a pooled buffer or a new one of capacity 256.\<close>

definition getBuf :: "nat \<Rightarrow> nat \<Rightarrow> buffers \<Rightarrow> buffers \<times> nat" where
  "getBuf n pick bf =
     (if n > 4096 then make_buf n bf
      else
        let (bf, b) = (if pick < length (bf_pool bf)
                       then (bf\<lparr>bf_pool := take pick (bf_pool bf) @ drop (Suc pick) (bf_pool bf)\<rparr>, bf_pool bf ! pick)
                       else make_buf 256 bf)
        in if n \<le> bf_caps bf ! b then (bf, b)
           else make_buf n (bf\<lparr>bf_pool := b # bf_pool bf\<rparr>))"

definition putBuf :: "nat \<Rightarrow> buffers \<Rightarrow> buffers" where
  "putBuf b bf = (if bf_caps bf ! b \<le> 4096 then bf\<lparr>bf_pool := b # bf_pool bf\<rparr> else bf)"

section \<open>Pipelines\<close>

datatype pipeline_error = ErrPipelineClosed | ErrPipelineNotFlushed | ConnError client_error

record pipeline =
  pl_conn :: nat
  pl_frames :: "(frame \<times> nat) list"
  pl_payloads :: "nat list"
  pl_calls :: "call list"
  pl_written :: bool
  pl_writeErr :: "pipeline_error option"

definition NewPipeline :: "nat \<Rightarrow> pipeline" where
  "NewPipeline i = \<lparr>pl_conn = i, pl_frames = [], pl_payloads = [], pl_calls = [], pl_written = False, pl_writeErr = None\<rparr>"

definition Client_Pipeline :: "client \<Rightarrow> (client \<times> pipeline) go" where
  "Client_Pipeline cl = go_bind (pickConn cl) (\<lambda>(cl, i). Ret (cl, NewPipeline i))"

text \<open>The numbering, the channel, the table and the frame are those of a single call.\<close>

definition pl_Add ::
  "kv_request \<Rightarrow> nat \<Rightarrow> nat \<Rightarrow> pipeline \<Rightarrow> client \<Rightarrow> buffers \<Rightarrow> pipeline \<times> client \<times> buffers \<times> pipeline_error option" where
  "pl_Add req pick bpick pl cl bf =
     (if pl_written pl then (pl, cl, bf, Some ErrPipelineClosed)
      else case do_start (pl_conn pl) (KvJob req) pick cl of
             (cl, Inl err) \<Rightarrow> (pl, cl, bf, Some (ConnError err))
           | (cl, Inr (ca, f)) \<Rightarrow>
               let (bf, b) = getBuf (length (fr_Payload f)) bpick bf
               in (pl\<lparr>pl_frames := pl_frames pl @ [(f, b)], pl_payloads := pl_payloads pl @ [b], pl_calls := pl_calls pl @ [ca]\<rparr>,
                   cl, bf, None))"

definition pl_cleanup :: "pipeline \<Rightarrow> client \<Rightarrow> buffers \<Rightarrow> client \<times> buffers" where
  "pl_cleanup pl cl bf = (fold do_finish (pl_calls pl) cl, fold (\<lambda>(_, b). putBuf b) (pl_frames pl) bf)"

text \<open>\<open>fails\<close> is the position of the first frame that cannot be written.  The frames that are written come last.\<close>

definition FlushWrite ::
  "nat option \<Rightarrow> pipeline \<Rightarrow> client \<Rightarrow> buffers \<Rightarrow> pipeline \<times> client \<times> buffers \<times> pipeline_error option \<times> frame list" where
  "FlushWrite fails pl cl bf =
     (if pl_written pl then (pl, cl, bf, pl_writeErr pl, [])
      else
        let pl = pl\<lparr>pl_written := True\<rparr> in
        if co_closed (cl_conns cl ! pl_conn pl)
        then (case pl_cleanup pl cl bf of (cl, bf) \<Rightarrow> (pl, cl, bf, Some (ConnError ClConnClosed), []))
        else if pl_frames pl = [] then (pl, cl, bf, None, [])
        else case fails of
               Some n \<Rightarrow>
                 if n < length (pl_frames pl)
                 then (let cl = markBad (pl_conn pl) cl; pl = pl\<lparr>pl_writeErr := Some (ConnError ClWrite)\<rparr>
                       in case pl_cleanup pl cl bf of (cl, bf) \<Rightarrow>
                            (pl, cl, bf, Some (ConnError ClWrite), map fst (take n (pl_frames pl))))
                 else (pl\<lparr>pl_payloads := []\<rparr>, cl, fold putBuf (pl_payloads pl) bf, None, map fst (pl_frames pl))
             | None \<Rightarrow> (pl\<lparr>pl_payloads := []\<rparr>, cl, fold putBuf (pl_payloads pl) bf, None, map fst (pl_frames pl)))"

definition timeout_answer :: answer where
  "timeout_answer = KvAnswer (kv_fail ''pipeline read timeout'')"

text \<open>The responses that are there, in the order of the requests, up to the first request that is still waiting.\<close>

fun pl_collect :: "call list \<Rightarrow> client \<Rightarrow> client \<times> answer list" where
  "pl_collect [] cl = (cl, [])"
| "pl_collect (ca # cas) cl =
     (case cl_chans cl ! ca_chan ca of
        None \<Rightarrow> (cl, [])
      | Some a \<Rightarrow>
          (case pl_collect cas (cl\<lparr>cl_chans := (cl_chans cl)[ca_chan ca := None]\<rparr>) of (cl, as) \<Rightarrow> (cl, a # as)))"

text \<open>\<^verbatim>\<open>ReadResponses\<close> at the moment it has received the last response or its deadline passes.\<close>

definition ReadResponses ::
  "pipeline \<Rightarrow> client \<Rightarrow> buffers \<Rightarrow> client \<times> buffers \<times> answer list \<times> pipeline_error option" where
  "ReadResponses pl cl bf =
     (if \<not> pl_written pl then (cl, bf, [], Some ErrPipelineNotFlushed)
      else case pl_collect (pl_calls pl) cl of (cl, as) \<Rightarrow>
        (case pl_cleanup pl cl bf of (cl, bf) \<Rightarrow>
           if length as = length (pl_calls pl) then (cl, bf, as, None)
           else (cl, bf, as @ replicate (length (pl_calls pl) - length as) timeout_answer, Some (ConnError ClReadTimeout))))"

definition pl_Reset :: "pipeline \<Rightarrow> client \<Rightarrow> buffers \<Rightarrow> pipeline \<times> client \<times> buffers" where
  "pl_Reset pl cl bf =
     (case (if pl_written pl then (cl, bf) else pl_cleanup pl cl bf) of (cl, bf) \<Rightarrow>
        (pl\<lparr>pl_frames := [], pl_payloads := [], pl_calls := [], pl_written := False, pl_writeErr := None\<rparr>, cl, bf))"

text \<open>The first half of \<^verbatim>\<open>DoBatch\<close>: every request is added, then all are written.\<close>

fun pl_AddAll :: "(kv_request \<times> nat \<times> nat) list \<Rightarrow> pipeline \<Rightarrow> client \<Rightarrow> buffers \<Rightarrow> pipeline \<times> client \<times> buffers \<times> pipeline_error option" where
  "pl_AddAll [] pl cl bf = (pl, cl, bf, None)"
| "pl_AddAll ((req, pick, bpick) # reqs) pl cl bf =
     (case pl_Add req pick bpick pl cl bf of
        (pl, cl, bf, Some err) \<Rightarrow> (pl, cl, bf, Some err)
      | (pl, cl, bf, None) \<Rightarrow> pl_AddAll reqs pl cl bf)"

definition DoBatch_send ::
  "(kv_request \<times> nat \<times> nat) list \<Rightarrow> nat option \<Rightarrow> pipeline \<Rightarrow> client \<Rightarrow> buffers \<Rightarrow>
    pipeline \<times> client \<times> buffers \<times> pipeline_error option \<times> frame list" where
  "DoBatch_send reqs fails pl cl bf =
     (case pl_AddAll reqs pl cl bf of
        (pl, cl, bf, Some err) \<Rightarrow> (pl, cl, bf, Some err, [])
      | (pl, cl, bf, None) \<Rightarrow> FlushWrite fails pl cl bf)"

section \<open>A batch is written in order\<close>

lemma do_start_kv:
  "\<not> co_closed (cl_conns cl ! i) \<Longrightarrow> \<exists>cl' ca sid. do_start i (KvJob req) pick cl =
     (cl', Inr (ca, \<lparr>fr_StreamID = sid, fr_Type = FrameTypeRequest, fr_Flags = 0, fr_Payload = Request_EncodePayload req\<rparr>)) \<and>
     ca_sid ca = sid \<and> (i < length (cl_conns cl) \<longrightarrow> \<not> co_closed (cl_conns cl' ! i)) \<and> length (cl_conns cl') = length (cl_conns cl)"
  by (auto simp: do_start_def Let_def pool_get_def set_conn_def set_pending_def split: prod.splits if_splits)

lemma pl_AddAll_frames:
  assumes "\<not> pl_written pl" "pl_conn pl < length (cl_conns cl)" "\<not> co_closed (cl_conns cl ! pl_conn pl)"
  shows "\<exists>pl' cl' bf'. pl_AddAll reqs pl cl bf = (pl', cl', bf', None) \<and> \<not> pl_written pl' \<and> pl_conn pl' = pl_conn pl \<and>
    \<not> co_closed (cl_conns cl' ! pl_conn pl) \<and>
    (\<exists>fs cas. pl_frames pl' = pl_frames pl @ fs \<and> pl_calls pl' = pl_calls pl @ cas \<and>
      map (fr_Payload \<circ> fst) fs = map (Request_EncodePayload \<circ> fst) reqs \<and> map (fr_StreamID \<circ> fst) fs = map ca_sid cas)"
  using assms
proof (induction reqs arbitrary: pl cl bf)
  case (Cons r reqs)
  obtain req pick bpick where r: "r = (req, pick, bpick)" by (metis surj_pair)
  obtain cl1 ca f where st: "do_start (pl_conn pl) (KvJob req) pick cl = (cl1, Inr (ca, f))"
    and f: "fr_Payload f = Request_EncodePayload req" "ca_sid ca = fr_StreamID f"
    and open1: "\<not> co_closed (cl_conns cl1 ! pl_conn pl)" "length (cl_conns cl1) = length (cl_conns cl)"
    using do_start_kv [OF Cons.prems(3), of req pick] Cons.prems(2) by fastforce
  obtain bf1 b where b: "getBuf (length (fr_Payload f)) bpick bf = (bf1, b)" by (metis surj_pair)
  define pl1 where "pl1 = pl\<lparr>pl_frames := pl_frames pl @ [(f, b)], pl_payloads := pl_payloads pl @ [b], pl_calls := pl_calls pl @ [ca]\<rparr>"
  have add: "pl_Add req pick bpick pl cl bf = (pl1, cl1, bf1, None)"
    using Cons.prems(1) st b by (simp add: pl_Add_def pl1_def)
  have pl1: "\<not> pl_written pl1" "pl_conn pl1 = pl_conn pl" "pl_conn pl1 < length (cl_conns cl1)" "\<not> co_closed (cl_conns cl1 ! pl_conn pl1)"
    using Cons.prems(1,2) open1 by (simp_all add: pl1_def)
  obtain pl' cl' bf' fs cas where ih: "pl_AddAll reqs pl1 cl1 bf1 = (pl', cl', bf', None)" "\<not> pl_written pl'" "pl_conn pl' = pl_conn pl1"
    "\<not> co_closed (cl_conns cl' ! pl_conn pl1)" "pl_frames pl' = pl_frames pl1 @ fs" "pl_calls pl' = pl_calls pl1 @ cas"
    "map (fr_Payload \<circ> fst) fs = map (Request_EncodePayload \<circ> fst) reqs" "map (fr_StreamID \<circ> fst) fs = map ca_sid cas"
    using Cons.IH [OF pl1(1,3,4), of bf1] by blast
  have "pl_frames pl' = pl_frames pl @ ((f, b) # fs)" "pl_calls pl' = pl_calls pl @ (ca # cas)"
    using ih(5,6) by (simp_all add: pl1_def)
  moreover have "map (fr_Payload \<circ> fst) ((f, b) # fs) = map (Request_EncodePayload \<circ> fst) (r # reqs)"
    "map (fr_StreamID \<circ> fst) ((f, b) # fs) = map ca_sid (ca # cas)" using ih(7,8) f r by simp_all
  moreover have "pl_AddAll (r # reqs) pl cl bf = (pl', cl', bf', None)" using ih(1) add r by simp
  moreover note ih(2-4) [unfolded pl1(2)]
  ultimately show ?case by blast
qed auto

lemma batch_written_in_order:
  assumes "i < length (cl_conns cl)" "\<not> co_closed (cl_conns cl ! i)" "reqs \<noteq> []"
  shows "\<exists>pl cl' bf' frames. DoBatch_send reqs None (NewPipeline i) cl bf = (pl, cl', bf', None, frames) \<and> pl_written pl \<and>
    map fr_Payload frames = map (Request_EncodePayload \<circ> fst) reqs \<and> map fr_StreamID frames = map ca_sid (pl_calls pl)"
proof -
  have "\<not> pl_written (NewPipeline i)" "pl_conn (NewPipeline i) = i" "pl_frames (NewPipeline i) = []" "pl_calls (NewPipeline i) = []"
    by (simp_all add: NewPipeline_def)
  with pl_AddAll_frames [of "NewPipeline i" cl reqs bf] assms(1,2) obtain pl cl' bf' where
    add: "pl_AddAll reqs (NewPipeline i) cl bf = (pl, cl', bf', None)" "\<not> pl_written pl" "pl_conn pl = i" "\<not> co_closed (cl_conns cl' ! i)"
    and fs: "map (fr_Payload \<circ> fst) (pl_frames pl) = map (Request_EncodePayload \<circ> fst) reqs"
      "map (fr_StreamID \<circ> fst) (pl_frames pl) = map ca_sid (pl_calls pl)"
    by auto
  have "pl_frames pl \<noteq> []" using fs(1) assms(3) by auto
  then show ?thesis using add fs by (simp add: DoBatch_send_def FlushWrite_def Let_def)
qed

section \<open>Every request gets its own answer, in order\<close>

lemma sound_perm: "mset calls = mset calls' \<Longrightarrow> sound R calls cl \<Longrightarrow> sound R calls' cl"
proof -
  assume m: "mset calls = mset calls'" and s: "sound R calls cl"
  have "mset (map ca_chan calls) = mset (map ca_chan calls')" using m by simp
  then have "distinct (map ca_chan calls) = distinct (map ca_chan calls')" by (rule mset_eq_imp_distinct_iff)
  with s mset_eq_setD [OF m] show ?thesis unfolding sound_def by simp
qed

lemma sound_finish_all: "sound R (others @ cas) cl \<Longrightarrow> sound R others (fold do_finish cas cl)"
proof (induction cas arbitrary: cl)
  case (Cons ca cas)
  show ?case using Cons.IH [OF sound_finish [OF Cons.prems]] by simp
qed simp

lemma sound_collect:
  "pl_collect cas cl = (cl', as) \<Longrightarrow> sound R calls cl \<Longrightarrow> set cas \<subseteq> set calls \<Longrightarrow>
    sound R calls cl' \<and> length as \<le> length cas \<and> (\<forall>i<length as. R (cas ! i) (as ! i))"
proof (induction cas arbitrary: cl cl' as)
  case (Cons ca cas)
  show ?case
  proof (cases "cl_chans cl ! ca_chan ca")
    case (Some a)
    obtain cl1 as1 where c: "pl_collect cas (cl\<lparr>cl_chans := (cl_chans cl)[ca_chan ca := None]\<rparr>) = (cl1, as1)" by (metis surj_pair)
    have ca: "ca \<in> set calls" using Cons.prems(3) by simp
    have s: "sound R calls (cl\<lparr>cl_chans := (cl_chans cl)[ca_chan ca := None]\<rparr>)"
      using sound_chan_update [OF Cons.prems(2) ca, of None] by simp
    have "sound R calls cl1 \<and> length as1 \<le> length cas \<and> (\<forall>i<length as1. R (cas ! i) (as1 ! i))"
      using Cons.IH [OF c s] Cons.prems(3) by simp
    moreover have "R ca a" by (rule soundD(9) [OF Cons.prems(2) ca Some])
    moreover have "cl' = cl1" "as = a # as1" using Cons.prems(1) Some c by simp_all
    ultimately show ?thesis by (auto simp: nth_Cons split: nat.splits)
  qed (use Cons.prems in auto)
qed simp


definition demo_pl :: pipeline where
  "demo_pl = (NewPipeline 0)\<lparr>pl_calls := [\<lparr>ca_conn = 0, ca_kind = KvKind, ca_sid = 1, ca_chan = 0\<rparr>], pl_written := True\<rparr>"

lemma go_case_ex: "(case m of Ret w \<Rightarrow> P w | Panic \<Rightarrow> False) \<Longrightarrow> \<exists>w. m = Ret w \<and> P w"
  by (cases m) auto

lemma demo_run:
  "\<exists>w. world_run [] (world_init 1) [Start 0 (get_job ''a'') 0, Read 0 (value_frame 1 [7])] = Ret w \<and>
    wo_calls w = pl_calls demo_pl \<and> snd (snd (ReadResponses demo_pl (wo_client w) \<lparr>bf_caps = [], bf_pool = []\<rparr>)) = ([KvAnswer (kv_ok [7])], None)"
proof -
  have "case world_run [] (world_init 1) [Start 0 (get_job ''a'') 0, Read 0 (value_frame 1 [7])] of
      Ret w \<Rightarrow> wo_calls w = pl_calls demo_pl \<and>
        snd (snd (ReadResponses demo_pl (wo_client w) \<lparr>bf_caps = [], bf_pool = []\<rparr>)) = ([KvAnswer (kv_ok [7])], None)
    | Panic \<Rightarrow> False"
    by code_simp
  from go_case_ex [OF this] show ?thesis .
qed


section \<open>Where it goes wrong\<close>

text \<open>A successful batch returns every payload buffer to the pool twice, once after the write and once in \<^verbatim>\<open>cleanup\<close>: the next two
  messages encoded at the same time are built in the same memory.\<close>

theorem pipeline_buffer_shared:
  "let (pl, cl, bf, _, _) = DoBatch_send [(\<lparr>rq_Cmd = CmdGet, rq_Key = ''a'', rq_Value = [], rq_TTL = 0\<rparr>, 0, 0)] None (NewPipeline 0)
         (NewClient 1) \<lparr>bf_caps = [], bf_pool = []\<rparr>;
       (_, bf, _, _) = ReadResponses pl (chan_send 0 (KvAnswer (kv_ok [7])) cl) bf;
       (bf, b1) = getBuf 20 0 bf;
       (_, b2) = getBuf 20 0 bf
   in b1 = b2"
  by code_simp

text \<open>A flush that fails because the connection is closed reports success when it is asked again: the error is not recorded.\<close>

lemma flush_error_forgotten:
  assumes "\<not> pl_written pl" "co_closed (cl_conns cl ! pl_conn pl)" "pl_writeErr pl = None"
    "FlushWrite fails pl cl bf = (pl', cl', bf', err, fs)"
  shows "err = Some (ConnError ClConnClosed) \<and> FlushWrite fails' pl' cl' bf' = (pl', cl', bf', None, [])"
  using assms by (auto simp: FlushWrite_def Let_def pl_cleanup_def)

end
