(* ===== verification/Cluster.thy ===== *)
theory Cluster
  imports Client Shard
begin

text \<open>
  \<^verbatim>\<open>cluster/node.go\<close>, \<^verbatim>\<open>cluster/health.go\<close> and \<^verbatim>\<open>cluster/shard_mode.go\<close>: the nodes of a cluster, their health and the
  distribution of keys over them.  A node is its position in the list of nodes.  What a client call does on a node is the
  argument \<open>call\<close>: it takes the node and the state of all servers, and returns the new state and the client's result.
  Health checks and calls are atomic steps; a probe is a function from nodes to the answer within the timeout.
\<close>

section \<open>Nodes\<close>

record cnode =
  cn_Addr :: gostring
  cn_Weight :: int
  cn_Client :: bool
  cn_Healthy :: bool

datatype cluster_error =
    NoHealthyNode
  | MasterNotHealthy
  | NoHealthyMaster
  | KeyRequired
  | NoNodes
  | NoMaster
  | NoReplicas
  | UnknownMode gostring
  | NodeError client_error

type_synonym ('s, 'a) node_call = "nat \<Rightarrow> 's \<Rightarrow> 's \<times> (client_error + 'a)"

definition at_node :: "('s, 'a) node_call \<Rightarrow> nat \<Rightarrow> 's \<Rightarrow> 's \<times> (cluster_error + 'a)" where
  "at_node call n s = (case call n s of (s, Inl err) \<Rightarrow> (s, Inl (NodeError err)) | (s, Inr x) \<Rightarrow> (s, Inr x))"

text \<open>\<^verbatim>\<open>dial\<close> fails or connects the node and marks it healthy.\<close>

definition node_dial :: "(gostring \<Rightarrow> client_error option) \<Rightarrow> cnode \<Rightarrow> cluster_error + cnode" where
  "node_dial net n =
     (case net (cn_Addr n) of Some err \<Rightarrow> Inl (NodeError err) | None \<Rightarrow> Inr (n\<lparr>cn_Client := True, cn_Healthy := True\<rparr>))"

definition probeNodeHealth :: "(nat \<Rightarrow> bool) \<Rightarrow> cnode list \<Rightarrow> nat \<Rightarrow> bool" where
  "probeNodeHealth alive nodes i \<longleftrightarrow> cn_Client (nodes ! i) \<and> alive i"

definition set_health :: "nat \<Rightarrow> bool \<Rightarrow> cnode list \<Rightarrow> cnode list" where
  "set_health i b nodes = nodes[i := (nodes ! i)\<lparr>cn_Healthy := b\<rparr>]"

definition probeAll :: "(nat \<Rightarrow> bool) \<Rightarrow> cnode list \<Rightarrow> cnode list" where
  "probeAll alive nodes = fold (\<lambda>i ns. if cn_Client (ns ! i) then set_health i (alive i) ns else ns) [0..<length nodes] nodes"

section \<open>Distribution by weight\<close>

fun newShardMode_loop :: "(gostring \<Rightarrow> client_error option) \<Rightarrow> (gostring \<times> int) list \<Rightarrow> cnode list \<Rightarrow> cluster_error + cnode list" where
  "newShardMode_loop net [] nodes = Inr nodes"
| "newShardMode_loop net ((addr, w) # cfgs) nodes =
     (if addr = [] then newShardMode_loop net cfgs nodes
      else case node_dial net \<lparr>cn_Addr = addr, cn_Weight = (if w \<le> 0 then 1 else w), cn_Client = False, cn_Healthy = False\<rparr> of
             Inl err \<Rightarrow> Inl err
           | Inr n \<Rightarrow> newShardMode_loop net cfgs (nodes @ [n]))"

definition newShardMode :: "(gostring \<Rightarrow> client_error option) \<Rightarrow> (gostring \<times> int) list \<Rightarrow> cluster_error + cnode list" where
  "newShardMode net cfgs =
     (case newShardMode_loop net cfgs [] of
        Inl err \<Rightarrow> Inl err
      | Inr nodes \<Rightarrow> if nodes = [] then Inl NoNodes else Inr nodes)"

definition total_weight :: "cnode list \<Rightarrow> int" where
  "total_weight nodes = fold (\<lambda>n t. if cn_Healthy n then i64 (t + cn_Weight n) else t) nodes 0"

fun pick_loop :: "32 word \<Rightarrow> 32 word \<Rightarrow> nat \<Rightarrow> cnode list \<Rightarrow> nat option" where
  "pick_loop idx cursor i [] = None"
| "pick_loop idx cursor i (n # nodes) =
     (if \<not> cn_Healthy n then pick_loop idx cursor (i + 1) nodes
      else
        let cursor = cursor + word_of_int (cn_Weight n)
        in if idx < cursor then Some i else pick_loop idx cursor (i + 1) nodes)"

text \<open>The remainder by zero is a panic.\<close>

definition pickNode :: "cnode list \<Rightarrow> gostring \<Rightarrow> nat option go" where
  "pickNode nodes k =
     (let total = total_weight nodes in
      if total = 0 then Ret None
      else if (word_of_int total :: 32 word) = 0 then Panic
      else Ret (pick_loop (fnv1a k mod word_of_int total) 0 0 nodes))"

definition sm_node :: "cnode list \<Rightarrow> gostring \<Rightarrow> (cluster_error + nat) go" where
  "sm_node nodes k =
     go_bind (pickNode nodes k) (\<lambda>n. Ret (case n of
        None \<Rightarrow> Inl NoHealthyNode
      | Some i \<Rightarrow> if cn_Healthy (nodes ! i) then Inr i else Inl NoHealthyNode))"

text \<open>\<^verbatim>\<open>Get\<close>, \<^verbatim>\<open>Set\<close> and \<^verbatim>\<open>Del\<close>.\<close>

definition sm_keyed :: "cnode list \<Rightarrow> gostring \<Rightarrow> ('s, 'a) node_call \<Rightarrow> 's \<Rightarrow> ('s \<times> (cluster_error + 'a)) go" where
  "sm_keyed nodes k call s =
     go_bind (pickNode nodes k) (\<lambda>n. Ret (case n of None \<Rightarrow> (s, Inl NoHealthyNode) | Some i \<Rightarrow> at_node call i s))"

text \<open>\<^verbatim>\<open>Len\<close> and \<^verbatim>\<open>Keys\<close> ask every healthy node in turn and stop at the first error.\<close>

fun ask_all :: "('s, 'a) node_call \<Rightarrow> ('a \<Rightarrow> 'b \<Rightarrow> 'b) \<Rightarrow> nat \<Rightarrow> cnode list \<Rightarrow> 'b \<Rightarrow> 's \<Rightarrow> 's \<times> (cluster_error + 'b)" where
  "ask_all call add i [] acc s = (s, Inr acc)"
| "ask_all call add i (n # nodes) acc s =
     (if \<not> cn_Healthy n \<or> \<not> cn_Client n then ask_all call add (i + 1) nodes acc s
      else case call i s of
             (s, Inl err) \<Rightarrow> (s, Inl (NodeError err))
           | (s, Inr x) \<Rightarrow> ask_all call add (i + 1) nodes (add x acc) s)"

definition sm_Len :: "cnode list \<Rightarrow> ('s, int) node_call \<Rightarrow> 's \<Rightarrow> 's \<times> (cluster_error + int)" where
  "sm_Len nodes call s = ask_all call (\<lambda>c total. i64 (total + c)) 0 nodes 0 s"

definition sm_Keys :: "cnode list \<Rightarrow> ('s, gostring list) node_call \<Rightarrow> 's \<Rightarrow> 's \<times> (cluster_error + gostring list)" where
  "sm_Keys nodes call s = ask_all call (\<lambda>ks all. all @ ks) 0 nodes [] s"

section \<open>Every healthy node has its share\<close>

definition weight :: "cnode \<Rightarrow> nat" where
  "weight n = (if cn_Healthy n then nat (cn_Weight n) else 0)"

definition weights_ok :: "cnode list \<Rightarrow> bool" where
  "weights_ok nodes \<longleftrightarrow> (\<forall>n\<in>set nodes. 0 < cn_Weight n) \<and> sum_list (map weight nodes) < 2 ^ 32"

lemma total_weight_from:
  assumes "\<forall>n\<in>set nodes. 0 < cn_Weight n" "0 \<le> t" "t + int (sum_list (map weight nodes)) < 2 ^ 63"
  shows "fold (\<lambda>n t. if cn_Healthy n then i64 (t + cn_Weight n) else t) nodes t = t + int (sum_list (map weight nodes))"
  using assms
proof (induction nodes arbitrary: t)
  case (Cons n nodes)
  have "i64 (t + cn_Weight n) = t + cn_Weight n" if "cn_Healthy n"
    using Cons.prems that by (intro i64_id) (auto simp: weight_def in_i64_def)
  then show ?case using Cons by (auto simp: weight_def)
qed simp

lemma total_weight_sum: "weights_ok nodes \<Longrightarrow> total_weight nodes = int (sum_list (map weight nodes))"
  using total_weight_from [of nodes 0] by (simp add: weights_ok_def total_weight_def)

text \<open>The node whose interval of the running total holds the remainder.\<close>

lemma pick_loop_interval:
  assumes "\<forall>n\<in>set nodes. 0 < cn_Weight n" "unat cursor + sum_list (map weight nodes) < 2 ^ 32" "cursor \<le> idx"
  shows "pick_loop idx cursor i nodes = Some j \<longleftrightarrow>
    i \<le> j \<and> j < i + length nodes \<and>
    unat cursor + sum_list (map weight (take (j - i) nodes)) \<le> unat idx \<and>
    unat idx < unat cursor + sum_list (map weight (take (Suc (j - i)) nodes))"
  using assms
proof (induction nodes arbitrary: cursor i)
  case (Cons n nodes)
  let ?c = "cursor + word_of_int (cn_Weight n)"
  show ?case
  proof (cases "cn_Healthy n")
    case False
    have "pick_loop idx cursor i (n # nodes) = pick_loop idx cursor (i + 1) nodes" using False by simp
    also have "\<dots> = Some j \<longleftrightarrow> i + 1 \<le> j \<and> j < i + 1 + length nodes \<and>
        unat cursor + sum_list (map weight (take (j - (i + 1)) nodes)) \<le> unat idx \<and>
        unat idx < unat cursor + sum_list (map weight (take (Suc (j - (i + 1))) nodes))"
      using Cons.prems by (intro Cons.IH) (auto simp: weight_def)
    also have "\<dots> \<longleftrightarrow> i \<le> j \<and> j < i + length (n # nodes) \<and>
        unat cursor + sum_list (map weight (take (j - i) (n # nodes))) \<le> unat idx \<and>
        unat idx < unat cursor + sum_list (map weight (take (Suc (j - i)) (n # nodes)))"
      using False Cons.prems(3) by (cases "j = i") (auto simp: weight_def take_Cons' word_le_nat_alt Suc_diff_Suc)
    finally show ?thesis .
  next
    case True
    have w: "0 < cn_Weight n" "cn_Weight n < 2 ^ 32" using Cons.prems(1,2) True by (auto simp: weight_def)
    then have wu: "unat (word_of_int (cn_Weight n) :: 32 word) = weight n"
      using True by (simp add: weight_def unat_eq_nat_uint uint_word_of_int)
    have c: "unat ?c = unat cursor + weight n" using Cons.prems(2) wu by (subst unat_add_lem [THEN iffD1]) auto
    show ?thesis
    proof (cases "idx < ?c")
      case less: True
      have "unat idx < unat cursor + weight n" using less c by (simp add: word_less_nat_alt)
      moreover have "sum_list (map weight (take (j - i) (n # nodes))) \<ge> weight n" if "i < j"
        using that by (simp add: take_Cons')
      ultimately show ?thesis
        using True less Cons.prems(3) by (cases "j = i") (auto simp: word_le_nat_alt take_Cons')
    next
      case False
      have "pick_loop idx ?c (i + 1) nodes = Some j \<longleftrightarrow> i + 1 \<le> j \<and> j < i + 1 + length nodes \<and>
          unat ?c + sum_list (map weight (take (j - (i + 1)) nodes)) \<le> unat idx \<and>
          unat idx < unat ?c + sum_list (map weight (take (Suc (j - (i + 1))) nodes))"
        using Cons.prems False c by (intro Cons.IH) (auto simp: not_less)
      moreover have "unat idx \<ge> unat cursor + weight n" using False c by (simp add: word_less_nat_alt)
      ultimately show ?thesis
        using True False c by (cases "j = i") (auto simp: take_Cons' Suc_diff_Suc)
    qed
  qed
qed simp

lemma prefix_interval:
  "r < sum_list ws \<Longrightarrow> \<exists>j<length ws. sum_list (take j ws) \<le> r \<and> r < sum_list (take (Suc j) ws)" for r :: nat
proof (induction ws arbitrary: r)
  case (Cons w ws)
  show ?case
  proof (cases "r < w")
    case False
    then have "r - w < sum_list ws" using Cons.prems by simp
    then obtain j where "j < length ws" "sum_list (take j ws) \<le> r - w" "r - w < sum_list (take (Suc j) ws)"
      using Cons.IH by blast
    then show ?thesis using False by (intro exI [of _ "Suc j"]) auto
  qed (intro exI [of _ 0], simp)
qed simp

lemma sum_list_take_le: "sum_list (take j ws) \<le> sum_list ws" for ws :: "nat list"
  by (metis append_take_drop_id le_add1 sum_list_append)

lemma pick_loop_node:
  assumes "weights_ok nodes" "r < sum_list (map weight nodes)" "i < length nodes"
  shows "pick_loop (of_nat r) 0 0 nodes = Some i \<longleftrightarrow>
    sum_list (map weight (take i nodes)) \<le> r \<and> r < sum_list (map weight (take i nodes)) + weight (nodes ! i)"
proof -
  have "unat (of_nat r :: 32 word) = r" using assms(1,2) by (simp add: unat_of_nat weights_ok_def)
  then show ?thesis
    using pick_loop_interval [of nodes 0 "of_nat r" 0 i] assms by (simp add: weights_ok_def take_Suc_conv_app_nth)
qed

text \<open>(C14) The shard mode gives every healthy node its share.  If the weights of the healthy nodes sum up to less than 2^32, every key is
  placed on a healthy node as soon as there is one; and of the remainders by the total weight each healthy node is responsible
  for as many as its weight, an unhealthy one for none.\<close>

theorem shard_placement:
  assumes "weights_ok nodes" "\<exists>n\<in>set nodes. cn_Healthy n"
  shows "(\<exists>i<length nodes. pickNode nodes k = Ret (Some i) \<and> cn_Healthy (nodes ! i)) \<and>
    (\<forall>i<length nodes. card {r. r < sum_list (map weight nodes) \<and> pick_loop (of_nat r) 0 0 nodes = Some i} = weight (nodes ! i))"
proof
  let ?ws = "map weight nodes"
  obtain n where n: "n \<in> set nodes" "cn_Healthy n" using assms(2) by blast
  then have "0 < weight n" using assms(1) by (auto simp: weights_ok_def weight_def)
  then have pos: "0 < sum_list ?ws" using n(1) by (metis gr_zeroI image_eqI list.set_map sum_list_eq_0_iff less_irrefl)
  have small: "sum_list ?ws < 2 ^ 32" using assms(1) by (simp add: weights_ok_def)
  define t where "t = (word_of_int (total_weight nodes) :: 32 word)"
  have ut: "unat t = sum_list ?ws"
    using small by (simp add: t_def total_weight_sum [OF assms(1)] unat_of_nat)
  have t0: "t \<noteq> 0" using ut pos by (metis unat_0 less_irrefl)
  define r where "r = unat (fnv1a k mod t)"
  have r1: "r < sum_list ?ws" using pos by (simp add: r_def unat_mod ut)
  have r2: "of_nat r = fnv1a k mod t" unfolding r_def by (metis word_arith_nat_mod unat_mod)
  note r = r1 r2
  obtain j where j: "j < length nodes" "sum_list (take j ?ws) \<le> r" "r < sum_list (take (Suc j) ?ws)"
    using prefix_interval [OF r(1)] by auto
  have less: "r < sum_list (map weight (take j nodes)) + weight (nodes ! j)"
    using j(1,3) by (simp add: take_map take_Suc_conv_app_nth)
  then have "pick_loop (of_nat r) 0 0 nodes = Some j" using pick_loop_node [OF assms(1) r(1) j(1)] j(2) by (simp add: take_map)
  moreover have "total_weight nodes \<noteq> 0" using pos total_weight_sum [OF assms(1)] by linarith
  ultimately have "pickNode nodes k = Ret (Some j)" using t0 r(2) by (simp add: pickNode_def Let_def t_def)
  moreover have "cn_Healthy (nodes ! j)" using less j(2) by (auto simp: weight_def take_map split: if_splits)
  ultimately show "\<exists>i<length nodes. pickNode nodes k = Ret (Some i) \<and> cn_Healthy (nodes ! i)" using j(1) by blast
  show "\<forall>i<length nodes. card {r. r < sum_list ?ws \<and> pick_loop (of_nat r) 0 0 nodes = Some i} = weight (nodes ! i)"
  proof (intro allI impI)
    fix i assume i: "i < length nodes"
    let ?s = "sum_list (map weight (take i nodes))"
    have "?s + weight (nodes ! i) \<le> sum_list ?ws"
      using sum_list_take_le [of "Suc i" ?ws] i by (simp add: take_map take_Suc_conv_app_nth)
    then have "{r. r < sum_list ?ws \<and> pick_loop (of_nat r) 0 0 nodes = Some i} = {?s..<?s + weight (nodes ! i)}"
      using pick_loop_node [OF assms(1) _ i] by auto
    then show "card {r. r < sum_list ?ws \<and> pick_loop (of_nat r) 0 0 nodes = Some i} = weight (nodes ! i)" by simp
  qed
qed

definition three_nodes :: "bool \<Rightarrow> cnode list" where
  "three_nodes third =
     [\<lparr>cn_Addr = ''a'', cn_Weight = 1, cn_Client = True, cn_Healthy = True\<rparr>,
      \<lparr>cn_Addr = ''b'', cn_Weight = 1, cn_Client = True, cn_Healthy = True\<rparr>,
      \<lparr>cn_Addr = ''c'', cn_Weight = 1, cn_Client = True, cn_Healthy = third\<rparr>]"

theorem shard_placement_witness:
  "\<exists>i<3. pickNode (three_nodes False) ''k'' = Ret (Some i) \<and> cn_Healthy (three_nodes False ! i)"
proof -
  have "weights_ok (three_nodes False)" "\<exists>n\<in>set (three_nodes False). cn_Healthy n" "length (three_nodes False) = 3"
    by (simp_all add: three_nodes_def weights_ok_def weight_def)
  from shard_placement [OF this(1,2), of "''k''"] this(3) show ?thesis by metis
qed

text \<open>The placement is not consistent hashing, which the comment of \<^verbatim>\<open>ShardMode\<close> promises: when one node of three becomes unhealthy, a
  key of a node that stayed healthy moves to another node, where it is missing.\<close>

theorem unrelated_failure_moves_key:
  "pickNode (three_nodes True) ''k1'' = Ret (Some 0) \<and> pickNode (three_nodes False) ''k1'' = Ret (Some 1)"
  by code_simp

text \<open>Weights that sum up to a multiple of 2^32 make every call panic.\<close>

lemma weights_wrap_panic:
  "pickNode [\<lparr>cn_Addr = ''a'', cn_Weight = 2 ^ 32, cn_Client = True, cn_Healthy = True\<rparr>] k = Panic"
  by (simp add: pickNode_def total_weight_def i64_def)

end
