(* ===== verification/Failover.thy ===== *)
theory Failover
  imports Cluster
begin

text \<open>
  \<^verbatim>\<open>cluster/master_slave_mode.go\<close>, \<^verbatim>\<open>cluster/sentinel_mode.go\<close>, \<^verbatim>\<open>cluster/cluster.go\<close> and \<^verbatim>\<open>cluster/cluster_ext.go\<close>: one master with
  slaves or replicas, the periodic health check with its failover, and the manager that routes every operation to a node.
  Both modes share the state \<open>failover\<close>; the master-slave mode extends it by its round-robin counter.  A tick of the
  health loop is one step, with the instant it happens at and the nodes that answer their probe.
\<close>

section \<open>State\<close>

record failover =
  fo_nodes :: "cnode list"
  fo_master :: "nat option"
  fo_slaves :: "nat list"
  fo_firstUnhealthyAt :: "int option"
  fo_FailoverTimeout :: int

record master_slave = failover +
  ms_nextSlave :: nat

definition healthy :: "'a failover_scheme \<Rightarrow> nat \<Rightarrow> bool" where
  "healthy fo i \<longleftrightarrow> cn_Healthy (fo_nodes fo ! i)"

definition fresh_node :: "int \<Rightarrow> gostring \<Rightarrow> cnode" where
  "fresh_node w addr = \<lparr>cn_Addr = addr, cn_Weight = w, cn_Client = False, cn_Healthy = False\<rparr>"

fun dial_all :: "(gostring \<Rightarrow> client_error option) \<Rightarrow> gostring list \<Rightarrow> cnode list \<Rightarrow> cluster_error + cnode list" where
  "dial_all net [] nodes = Inr nodes"
| "dial_all net (addr # addrs) nodes =
     (case node_dial net (fresh_node 1 addr) of Inl err \<Rightarrow> Inl err | Inr n \<Rightarrow> dial_all net addrs (nodes @ [n]))"

definition newMasterSlaveMode ::
  "(gostring \<Rightarrow> client_error option) \<Rightarrow> gostring \<Rightarrow> gostring list \<Rightarrow> int \<Rightarrow> cluster_error + master_slave" where
  "newMasterSlaveMode net master slaves timeout =
     (if master = [] then Inl NoMaster
      else if slaves = [] then Inl NoReplicas
      else case node_dial net (fresh_node 1 master) of
             Inl err \<Rightarrow> Inl err
           | Inr m \<Rightarrow>
               (case dial_all net slaves [m] of
                  Inl err \<Rightarrow> Inl err
                | Inr nodes \<Rightarrow> Inr \<lparr>fo_nodes = nodes, fo_master = Some 0, fo_slaves = [1..<length nodes],
                    fo_firstUnhealthyAt = None, fo_FailoverTimeout = timeout, ms_nextSlave = 0\<rparr>))"

text \<open>A sentinel leaves out the replicas that cannot be reached.\<close>

fun dial_reachable :: "(gostring \<Rightarrow> client_error option) \<Rightarrow> gostring list \<Rightarrow> cnode list \<Rightarrow> cnode list" where
  "dial_reachable net [] nodes = nodes"
| "dial_reachable net (addr # addrs) nodes =
     (case node_dial net (fresh_node 0 addr) of Inl err \<Rightarrow> dial_reachable net addrs nodes | Inr n \<Rightarrow> dial_reachable net addrs (nodes @ [n]))"

definition newSentinelMode ::
  "(gostring \<Rightarrow> client_error option) \<Rightarrow> gostring \<Rightarrow> gostring list \<Rightarrow> int \<Rightarrow> cluster_error + failover" where
  "newSentinelMode net master sentinels timeout =
     (if master = [] then Inl NoMaster
      else if sentinels = [] then Inl NoReplicas
      else case node_dial net (fresh_node 0 master) of
             Inl err \<Rightarrow> Inl err
           | Inr m \<Rightarrow>
               let nodes = dial_reachable net sentinels [m]
               in if length nodes = 1 then Inl NoReplicas
                  else Inr \<lparr>fo_nodes = nodes, fo_master = Some 0, fo_slaves = [1..<length nodes],
                    fo_firstUnhealthyAt = None, fo_FailoverTimeout = timeout\<rparr>)"

section \<open>Health checks and failover\<close>

definition probeSlaves :: "(nat \<Rightarrow> bool) \<Rightarrow> 'a failover_scheme \<Rightarrow> 'a failover_scheme" where
  "probeSlaves alive fo =
     fo\<lparr>fo_nodes := fold (\<lambda>s ns. set_health s (cn_Client (ns ! s) \<and> probeNodeHealth alive ns s) ns) (fo_slaves fo) (fo_nodes fo)\<rparr>"

definition candidate :: "'a failover_scheme \<Rightarrow> nat \<Rightarrow> bool" where
  "candidate fo s \<longleftrightarrow> Some s \<noteq> fo_master fo \<and> cn_Client (fo_nodes fo ! s) \<and> healthy fo s"

definition tryFailover :: "'a failover_scheme \<Rightarrow> 'a failover_scheme" where
  "tryFailover fo =
     (if (case fo_master fo of None \<Rightarrow> False | Some m \<Rightarrow> healthy fo m) then fo
      else case find (candidate fo) (fo_slaves fo) of
             None \<Rightarrow> fo
           | Some best \<Rightarrow>
               let old = fo_master fo;
                   fo = fo\<lparr>fo_master := Some best, fo_firstUnhealthyAt := None, fo_slaves := remove1 best (fo_slaves fo)\<rparr>
               in case old of
                    None \<Rightarrow> fo
                  | Some m \<Rightarrow> fo\<lparr>fo_nodes := set_health m False (fo_nodes fo), fo_slaves := fo_slaves fo @ [m]\<rparr>)"

definition checkAndFailover :: "int \<Rightarrow> (nat \<Rightarrow> bool) \<Rightarrow> 'a failover_scheme \<Rightarrow> 'a failover_scheme" where
  "checkAndFailover now alive fo =
     (let fo = probeSlaves alive fo in
      case fo_master fo of
        None \<Rightarrow> tryFailover fo
      | Some m \<Rightarrow>
          if \<not> cn_Client (fo_nodes fo ! m) then tryFailover fo
          else
            let ok = probeNodeHealth alive (fo_nodes fo) m; fo = fo\<lparr>fo_nodes := set_health m ok (fo_nodes fo)\<rparr>
            in if ok then fo\<lparr>fo_firstUnhealthyAt := None\<rparr>
               else case fo_firstUnhealthyAt fo of
                      None \<Rightarrow> fo\<lparr>fo_firstUnhealthyAt := Some now\<rparr>
                    | Some t \<Rightarrow> if now - t \<ge> fo_FailoverTimeout fo then tryFailover fo else fo)"

text \<open>The sentinel's code is the same.\<close>

definition sentinel_checkAndFailover :: "int \<Rightarrow> (nat \<Rightarrow> bool) \<Rightarrow> failover \<Rightarrow> failover" where
  "sentinel_checkAndFailover = checkAndFailover"

definition sentinel_tryFailover :: "failover \<Rightarrow> failover" where
  "sentinel_tryFailover = tryFailover"

section \<open>Operations\<close>

primrec pickSlave_loop :: "nat \<Rightarrow> master_slave \<Rightarrow> master_slave \<times> nat option" where
  "pickSlave_loop 0 ms = (ms, None)"
| "pickSlave_loop (Suc tries) ms =
     (let n = (ms_nextSlave ms + 1) mod 2 ^ 32; ms = ms\<lparr>ms_nextSlave := n\<rparr>; s = fo_slaves ms ! (n mod length (fo_slaves ms))
      in if healthy ms s then (ms, Some s) else pickSlave_loop tries ms)"

definition pickSlave :: "master_slave \<Rightarrow> master_slave \<times> nat option" where
  "pickSlave ms = (if fo_slaves ms = [] then (ms, None) else pickSlave_loop (length (fo_slaves ms)) ms)"

definition at_master :: "cluster_error \<Rightarrow> 'a failover_scheme \<Rightarrow> ('s, 'r) node_call \<Rightarrow> 's \<Rightarrow> 's \<times> (cluster_error + 'r)" where
  "at_master err fo call s =
     (case fo_master fo of
        None \<Rightarrow> (s, Inl err)
      | Some m \<Rightarrow> if \<not> healthy fo m then (s, Inl err) else at_node call m s)"

definition ms_Get :: "master_slave \<Rightarrow> ('s, 'r) node_call \<Rightarrow> 's \<Rightarrow> master_slave \<times> 's \<times> (cluster_error + 'r)" where
  "ms_Get ms call s =
     (case pickSlave ms of
        (ms, Some n) \<Rightarrow> if healthy ms n then (ms, at_node call n s) else (ms, at_master NoHealthyNode ms call s)
      | (ms, None) \<Rightarrow> (ms, at_master NoHealthyNode ms call s))"

text \<open>\<^verbatim>\<open>Set\<close>, \<^verbatim>\<open>Del\<close> and \<^verbatim>\<open>Len\<close> of the master-slave mode, and its \<^verbatim>\<open>Keys\<close>; all operations of the sentinel mode.\<close>

definition ms_write :: "master_slave \<Rightarrow> ('s, 'r) node_call \<Rightarrow> 's \<Rightarrow> 's \<times> (cluster_error + 'r)" where
  "ms_write = at_master MasterNotHealthy"

definition ms_Keys :: "master_slave \<Rightarrow> ('s, 'r) node_call \<Rightarrow> 's \<Rightarrow> 's \<times> (cluster_error + 'r)" where
  "ms_Keys = at_master NoHealthyMaster"

definition sentinel_op :: "failover \<Rightarrow> ('s, 'r) node_call \<Rightarrow> 's \<Rightarrow> 's \<times> (cluster_error + 'r)" where
  "sentinel_op = at_master NoHealthyMaster"

definition master_node :: "'a failover_scheme \<Rightarrow> cluster_error + nat" where
  "master_node fo =
     (case fo_master fo of None \<Rightarrow> Inl NoHealthyMaster | Some m \<Rightarrow> if healthy fo m then Inr m else Inl NoHealthyMaster)"

section \<open>The manager\<close>

datatype cluster_mode = ShardMode "cnode list" | SentinelMode failover | MasterSlaveMode master_slave

record cluster_options =
  co_Mode :: gostring
  co_Nodes :: "(gostring \<times> int) list"
  co_Sentinels :: "gostring list"
  co_Master :: gostring
  co_Slaves :: "gostring list"
  co_FailoverTimeout :: int

definition Cluster_New :: "(gostring \<Rightarrow> client_error option) \<Rightarrow> cluster_options \<Rightarrow> cluster_error + cluster_mode" where
  "Cluster_New net opts =
     (if co_Mode opts = ''shard'' then map_sum id ShardMode (newShardMode net (co_Nodes opts))
      else if co_Mode opts = ''sentinel''
        then map_sum id SentinelMode (newSentinelMode net (co_Master opts) (co_Sentinels opts) (co_FailoverTimeout opts))
      else if co_Mode opts = ''master_slave''
        then map_sum id MasterSlaveMode (newMasterSlaveMode net (co_Master opts) (co_Slaves opts) (co_FailoverTimeout opts))
      else Inl (UnknownMode (co_Mode opts)))"

fun cm_node :: "cluster_mode \<Rightarrow> gostring \<Rightarrow> (cluster_error + nat) go" where
  "cm_node (ShardMode nodes) k = sm_node nodes k"
| "cm_node (SentinelMode fo) k = Ret (master_node fo)"
| "cm_node (MasterSlaveMode ms) k = Ret (master_node ms)"

definition cm_keyed :: "cluster_mode \<Rightarrow> gostring \<Rightarrow> ('s, 'r) node_call \<Rightarrow> 's \<Rightarrow> ('s \<times> (cluster_error + 'r)) go" where
  "cm_keyed cm k call s = go_bind (cm_node cm k) (\<lambda>r. Ret (case r of Inl err \<Rightarrow> (s, Inl err) | Inr n \<Rightarrow> at_node call n s))"

text \<open>The hash, list, set and key-management methods hand their arguments on to the client's method of the node for their key.\<close>

definition cm_hash :: "cluster_mode \<Rightarrow> (hash_request \<Rightarrow> ('s, 'r) node_call) \<Rightarrow> hash_request \<Rightarrow> 's \<Rightarrow> ('s \<times> (cluster_error + 'r)) go" where
  "cm_hash cm method req = cm_keyed cm (hq_Key req) (method req)"

definition cm_list :: "cluster_mode \<Rightarrow> (list_request \<Rightarrow> ('s, 'r) node_call) \<Rightarrow> list_request \<Rightarrow> 's \<Rightarrow> ('s \<times> (cluster_error + 'r)) go" where
  "cm_list cm method req = cm_keyed cm (lq_Key req) (method req)"

definition cm_set :: "cluster_mode \<Rightarrow> (set_request \<Rightarrow> ('s, 'r) node_call) \<Rightarrow> set_request \<Rightarrow> 's \<Rightarrow> ('s \<times> (cluster_error + 'r)) go" where
  "cm_set cm method req s =
     (if sq_Cmd req \<in> {CmdSUnion, CmdSInter, CmdSDiff}
      then (case sq_Keys req of [] \<Rightarrow> Ret (s, Inl KeyRequired) | k # _ \<Rightarrow> cm_keyed cm k (method req) s)
      else cm_keyed cm (sq_Key req) (method req) s)"

definition cm_key :: "cluster_mode \<Rightarrow> (kv_request \<Rightarrow> ('s, 'r) node_call) \<Rightarrow> kv_request \<Rightarrow> 's \<Rightarrow> ('s \<times> (cluster_error + 'r)) go" where
  "cm_key cm method req = cm_keyed cm (rq_Key req) (method req)"

definition type_name :: "byte \<Rightarrow> gostring" where
  "type_name b = (if b = 0 then ''none'' else if b = 1 then ''string'' else if b = 2 then ''set'' else if b = 3 then ''hash''
     else if b = 4 then ''list'' else ''unknown'')"

definition cm_Type :: "cluster_mode \<Rightarrow> gostring \<Rightarrow> ('s, byte) node_call \<Rightarrow> 's \<Rightarrow> ('s \<times> (cluster_error + gostring)) go" where
  "cm_Type cm k call s = go_bind (cm_keyed cm k call s) (\<lambda>(s, r). Ret (s, map_sum id type_name r))"

text \<open>\<^verbatim>\<open>Get\<close>, and \<^verbatim>\<open>Set\<close> and \<^verbatim>\<open>Del\<close>, of the manager.\<close>

fun cm_Get :: "cluster_mode \<Rightarrow> gostring \<Rightarrow> ('s, 'r) node_call \<Rightarrow> 's \<Rightarrow> (cluster_mode \<times> 's \<times> (cluster_error + 'r)) go" where
  "cm_Get (ShardMode nodes) k call s = go_bind (sm_keyed nodes k call s) (\<lambda>r. Ret (ShardMode nodes, r))"
| "cm_Get (SentinelMode fo) k call s = Ret (SentinelMode fo, sentinel_op fo call s)"
| "cm_Get (MasterSlaveMode ms) k call s = (case ms_Get ms call s of (ms, r) \<Rightarrow> Ret (MasterSlaveMode ms, r))"

fun cm_write :: "cluster_mode \<Rightarrow> gostring \<Rightarrow> ('s, 'r) node_call \<Rightarrow> 's \<Rightarrow> ('s \<times> (cluster_error + 'r)) go" where
  "cm_write (ShardMode nodes) k call s = sm_keyed nodes k call s"
| "cm_write (SentinelMode fo) k call s = Ret (sentinel_op fo call s)"
| "cm_write (MasterSlaveMode ms) k call s = Ret (ms_write ms call s)"

text \<open>\<^verbatim>\<open>Len\<close> and \<^verbatim>\<open>Keys\<close>: over all healthy shards, or at the master.\<close>

fun cm_Len :: "cluster_mode \<Rightarrow> ('s, int) node_call \<Rightarrow> 's \<Rightarrow> 's \<times> (cluster_error + int)" where
  "cm_Len (ShardMode nodes) call s = sm_Len nodes call s"
| "cm_Len (SentinelMode fo) call s = sentinel_op fo call s"
| "cm_Len (MasterSlaveMode ms) call s = ms_write ms call s"

fun cm_Keys :: "cluster_mode \<Rightarrow> ('s, gostring list) node_call \<Rightarrow> 's \<Rightarrow> 's \<times> (cluster_error + gostring list)" where
  "cm_Keys (ShardMode nodes) call s = sm_Keys nodes call s"
| "cm_Keys (SentinelMode fo) call s = sentinel_op fo call s"
| "cm_Keys (MasterSlaveMode ms) call s = ms_Keys ms call s"

definition fo_Nodes :: "'a failover_scheme \<Rightarrow> (gostring \<times> int \<times> bool) list" where
  "fo_Nodes fo =
     map (\<lambda>i. let n = fo_nodes fo ! i in (cn_Addr n, cn_Weight n, cn_Healthy n))
       ((case fo_master fo of None \<Rightarrow> [] | Some m \<Rightarrow> [m]) @ fo_slaves fo)"

section \<open>No node is lost\<close>

text \<open>The master and the slaves are all the nodes, each once, and all have a client.\<close>

definition fo_ok :: "'a failover_scheme \<Rightarrow> bool" where
  "fo_ok fo \<longleftrightarrow> (\<exists>m. fo_master fo = Some m \<and> mset (m # fo_slaves fo) = mset [0..<length (fo_nodes fo)]) \<and>
     (\<forall>n\<in>set (fo_nodes fo). cn_Client n)"

lemma fo_okD:
  assumes "fo_ok fo" "fo_master fo = Some m"
  shows "m < length (fo_nodes fo)" "set (fo_slaves fo) = {..<length (fo_nodes fo)} - {m}" "m \<notin> set (fo_slaves fo)"
    "distinct (fo_slaves fo)" "\<And>i. i < length (fo_nodes fo) \<Longrightarrow> cn_Client (fo_nodes fo ! i)"
proof -
  have ms: "mset (m # fo_slaves fo) = mset [0..<length (fo_nodes fo)]" using assms by (auto simp: fo_ok_def)
  have d: "distinct (m # fo_slaves fo)" using mset_eq_imp_distinct_iff [OF ms] distinct_upt by blast
  have s: "set (m # fo_slaves fo) = {..<length (fo_nodes fo)}"
    unfolding mset_eq_setD [OF ms] by (simp only: set_upt lessThan_atLeast0)
  have i: "insert m (set (fo_slaves fo)) = {..<length (fo_nodes fo)}" using s by (simp only: list.set)
  show "m < length (fo_nodes fo)" using i by blast
  show n: "m \<notin> set (fo_slaves fo)" and "distinct (fo_slaves fo)" using d by simp_all
  show "set (fo_slaves fo) = {..<length (fo_nodes fo)} - {m}" unfolding i [symmetric] using n by simp
  show "\<And>i. i < length (fo_nodes fo) \<Longrightarrow> cn_Client (fo_nodes fo ! i)" using assms(1) by (simp add: fo_ok_def)
qed

lemma set_health_length [simp]: "length (set_health i b ns) = length ns"
  by (simp add: set_health_def)

lemma set_health_Client [simp]: "cn_Client (set_health i b ns ! j) = cn_Client (ns ! j)"
  unfolding set_health_def by (cases "i < length ns") (auto simp: nth_list_update list_update_beyond)

lemma set_health_Healthy [simp]:
  "i < length ns \<Longrightarrow> cn_Healthy (set_health i b ns ! j) = (if j = i then b else cn_Healthy (ns ! j))"
  unfolding set_health_def by (auto simp: nth_list_update)

lemma set_health_clients: "(\<forall>n\<in>set (set_health i b ns). cn_Client n) \<longleftrightarrow> (\<forall>n\<in>set ns. cn_Client n)"
  by (simp add: all_set_conv_all_nth)

lemma probe_fold:
  assumes "set ss \<subseteq> {..<length ns}"
  shows "length (fold (\<lambda>s ns. set_health s (cn_Client (ns ! s) \<and> probeNodeHealth alive ns s) ns) ss ns) = length ns \<and>
    (\<forall>i. cn_Client (fold (\<lambda>s ns. set_health s (cn_Client (ns ! s) \<and> probeNodeHealth alive ns s) ns) ss ns ! i) = cn_Client (ns ! i) \<and>
      cn_Healthy (fold (\<lambda>s ns. set_health s (cn_Client (ns ! s) \<and> probeNodeHealth alive ns s) ns) ss ns ! i) =
        (if i \<in> set ss then cn_Client (ns ! i) \<and> alive i else cn_Healthy (ns ! i)))"
  using assms
proof (induction ss arbitrary: ns)
  case (Cons a ss)
  then show ?case by (simp add: probeNodeHealth_def)
qed simp

lemma probeSlaves_keeps [simp]:
  "fo_master (probeSlaves alive fo) = fo_master fo"
  "fo_slaves (probeSlaves alive fo) = fo_slaves fo"
  "fo_firstUnhealthyAt (probeSlaves alive fo) = fo_firstUnhealthyAt fo"
  "fo_FailoverTimeout (probeSlaves alive fo) = fo_FailoverTimeout fo"
  by (simp_all add: probeSlaves_def)

lemma probeSlaves_nodes:
  assumes "fo_ok fo"
  shows "length (fo_nodes (probeSlaves alive fo)) = length (fo_nodes fo)"
    "cn_Client (fo_nodes (probeSlaves alive fo) ! i) = cn_Client (fo_nodes fo ! i)"
    "healthy (probeSlaves alive fo) i = (if i \<in> set (fo_slaves fo) then alive i else healthy fo i)"
proof -
  obtain m where m: "fo_master fo = Some m" using assms by (auto simp: fo_ok_def)
  note o = fo_okD [OF assms m]
  have "set (fo_slaves fo) \<subseteq> {..<length (fo_nodes fo)}" using o(2) by auto
  note f = probe_fold [OF this, of alive]
  show "length (fo_nodes (probeSlaves alive fo)) = length (fo_nodes fo)"
    "cn_Client (fo_nodes (probeSlaves alive fo) ! i) = cn_Client (fo_nodes fo ! i)"
    using f by (simp_all add: probeSlaves_def)
  show "healthy (probeSlaves alive fo) i = (if i \<in> set (fo_slaves fo) then alive i else healthy fo i)"
    using f o(2,5) by (simp add: probeSlaves_def healthy_def)
qed

lemma probeSlaves_ok: "fo_ok fo \<Longrightarrow> fo_ok (probeSlaves alive fo)"
  using probeSlaves_nodes [of fo alive] by (auto simp: fo_ok_def all_set_conv_all_nth)

lemma fo_ok_health: "fo_ok (fo\<lparr>fo_nodes := set_health i b (fo_nodes fo)\<rparr>) \<longleftrightarrow> fo_ok fo"
  by (simp add: fo_ok_def set_health_clients)

lemma fo_ok_since: "fo_ok (fo\<lparr>fo_firstUnhealthyAt := t\<rparr>) \<longleftrightarrow> fo_ok fo"
  by (simp add: fo_ok_def)

lemma tryFailover_ok:
  assumes "fo_ok fo" shows "fo_ok (tryFailover fo) \<and> length (fo_nodes (tryFailover fo)) = length (fo_nodes fo)"
proof -
  obtain m where m: "fo_master fo = Some m" and ms: "mset (m # fo_slaves fo) = mset [0..<length (fo_nodes fo)]"
    and c: "\<forall>n\<in>set (fo_nodes fo). cn_Client n"
    using assms by (auto simp: fo_ok_def)
  show ?thesis
  proof (cases "find (candidate fo) (fo_slaves fo)")
    case None
    then show ?thesis using assms m by (simp add: tryFailover_def)
  next
    case (Some best)
    then have "best \<in> set (fo_slaves fo)" by (metis find_Some_iff nth_mem)
    then have "add_mset best (mset (fo_slaves fo) - {#best#}) = mset (fo_slaves fo)" by simp
    then have "add_mset best (add_mset m (mset (fo_slaves fo) - {#best#})) = add_mset m (mset (fo_slaves fo))"
      by (metis add_mset_commute)
    also have "\<dots> = mset_set {0..<length (fo_nodes fo)}" using ms by simp
    finally show ?thesis using m c Some assms by (simp add: tryFailover_def Let_def fo_ok_def set_health_clients)
  qed
qed

lemma checkAndFailover_ok:
  assumes "fo_ok fo"
  shows "fo_ok (checkAndFailover now alive fo) \<and> length (fo_nodes (checkAndFailover now alive fo)) = length (fo_nodes fo)"
proof -
  define fo1 where "fo1 = probeSlaves alive fo"
  have p: "fo_ok fo1" "length (fo_nodes fo1) = length (fo_nodes fo)"
    using assms by (simp_all add: fo1_def probeSlaves_ok probeSlaves_nodes)
  have h: "fo_ok (fo1\<lparr>fo_nodes := set_health m b (fo_nodes fo1)\<rparr>)" for m b
    using p(1) by (simp add: fo_ok_health)
  note t = tryFailover_ok [OF p(1)]
  show ?thesis
  proof (cases "fo_master fo1")
    case None
    then show ?thesis using t p(2) by (simp add: checkAndFailover_def Let_def flip: fo1_def)
  next
    case (Some m)
    have "cn_Client (fo_nodes fo1 ! m)" using fo_okD(1,5) [OF p(1) Some] by blast
    then show ?thesis
      using Some p h tryFailover_ok [OF h [of m False]]
      by (cases "fo_firstUnhealthyAt fo1") (simp_all add: checkAndFailover_def Let_def fo_ok_since flip: fo1_def)
  qed
qed

text \<open>What happens to a cluster with a master: ticks of the health loop and, in the master-slave mode, reads.\<close>

inductive fo_runs :: "'a failover_scheme \<Rightarrow> 'a failover_scheme \<Rightarrow> bool" for fo0 where
  fo_start: "fo_runs fo0 fo0"
| fo_tick: "fo_runs fo0 fo \<Longrightarrow> fo_runs fo0 (checkAndFailover now alive fo)"

inductive ms_runs :: "master_slave \<Rightarrow> master_slave \<Rightarrow> bool" for ms0 where
  ms_start: "ms_runs ms0 ms0"
| ms_tick: "ms_runs ms0 ms \<Longrightarrow> ms_runs ms0 (checkAndFailover now alive ms)"
| ms_read: "ms_runs ms0 ms \<Longrightarrow> ms_runs ms0 (fst (pickSlave ms))"

lemma pickSlave_loop_keeps:
  "fst (pickSlave_loop tries ms) = ms\<lparr>ms_nextSlave := ms_nextSlave (fst (pickSlave_loop tries ms))\<rparr>"
proof (induction tries arbitrary: ms)
  case (Suc tries)
  show ?case using Suc.IH [of "ms\<lparr>ms_nextSlave := (ms_nextSlave ms + 1) mod 2 ^ 32\<rparr>"] by (simp add: Let_def)
qed simp

lemma pickSlave_keeps: "fst (pickSlave ms) = ms\<lparr>ms_nextSlave := ms_nextSlave (fst (pickSlave ms))\<rparr>"
  using pickSlave_loop_keeps by (simp add: pickSlave_def)

lemma pickSlave_ok: "fo_ok ms \<Longrightarrow> fo_ok (fst (pickSlave ms)) \<and> fo_nodes (fst (pickSlave ms)) = fo_nodes ms"
  by (subst (1 2) pickSlave_keeps) (simp add: fo_ok_def)

lemma node_dial_client: "node_dial net n = Inr n' \<Longrightarrow> cn_Client n' \<and> cn_Healthy n'"
  by (auto simp: node_dial_def split: option.splits)

lemma dial_all_nodes:
  "dial_all net addrs nodes = Inr nodes' \<Longrightarrow> \<forall>n\<in>set nodes. cn_Client n \<and> cn_Healthy n \<Longrightarrow>
    length nodes' = length nodes + length addrs \<and> (\<forall>n\<in>set nodes'. cn_Client n \<and> cn_Healthy n)"
proof (induction addrs arbitrary: nodes)
  case (Cons addr addrs)
  obtain n where n: "node_dial net (fresh_node 1 addr) = Inr n" "dial_all net addrs (nodes @ [n]) = Inr nodes'"
    using Cons.prems(1) by (auto split: sum.splits)
  have "\<forall>n\<in>set (nodes @ [n]). cn_Client n \<and> cn_Healthy n" using Cons.prems(2) node_dial_client [OF n(1)] by simp
  from Cons.IH [OF n(2) this] show ?case by simp
qed simp

lemma dial_reachable_nodes:
  "\<forall>n\<in>set nodes. cn_Client n \<and> cn_Healthy n \<Longrightarrow> length (dial_reachable net addrs nodes) =
      length nodes + length (filter (\<lambda>a. net a = None) addrs) \<and> (\<forall>n\<in>set (dial_reachable net addrs nodes). cn_Client n \<and> cn_Healthy n)"
proof (induction addrs arbitrary: nodes)
  case (Cons addr addrs)
  show ?case
  proof (cases "net addr")
    case None
    then obtain n where n: "node_dial net (fresh_node 0 addr) = Inr n" by (simp add: node_dial_def fresh_node_def)
    have "\<forall>n\<in>set (nodes @ [n]). cn_Client n \<and> cn_Healthy n" using Cons.prems node_dial_client [OF n] by simp
    from Cons.IH [OF this] show ?thesis using n None by simp
  next
    case (Some err)
    then have "node_dial net (fresh_node 0 addr) = Inl (NodeError err)" by (simp add: node_dial_def fresh_node_def)
    then show ?thesis using Cons.IH [OF Cons.prems] Some by simp
  qed
qed simp

lemma start_ok: "nodes \<noteq> [] \<Longrightarrow> mset (0 # [1..<length nodes]) = mset [0..<length nodes]"
  by (simp add: upt_conv_Cons)

lemma newMasterSlaveMode_ok:
  assumes "newMasterSlaveMode net master slaves timeout = Inr ms"
  shows "fo_ok ms \<and> length (fo_nodes ms) = 1 + length slaves"
proof -
  obtain m where m: "node_dial net (fresh_node 1 master) = Inr m" "dial_all net slaves [m] = Inr (fo_nodes ms)"
    and ms: "fo_master ms = Some 0" "fo_slaves ms = [1..<length (fo_nodes ms)]"
    using assms by (auto simp: newMasterSlaveMode_def split: if_splits sum.splits)
  have n: "length (fo_nodes ms) = 1 + length slaves" "\<forall>n\<in>set (fo_nodes ms). cn_Client n"
    using dial_all_nodes [OF m(2)] node_dial_client [OF m(1)] by auto
  moreover have "fo_nodes ms \<noteq> []" using n(1) by auto
  ultimately show ?thesis using ms start_ok [of "fo_nodes ms"] by (simp add: fo_ok_def)
qed

lemma newSentinelMode_ok:
  assumes "newSentinelMode net master sentinels timeout = Inr fo"
  shows "fo_ok fo \<and> length (fo_nodes fo) = 1 + length (filter (\<lambda>a. net a = None) sentinels)"
proof -
  obtain m where m: "node_dial net (fresh_node 0 master) = Inr m" "fo_nodes fo = dial_reachable net sentinels [m]"
    and ms: "fo_master fo = Some 0" "fo_slaves fo = [1..<length (fo_nodes fo)]"
    using assms by (auto simp: newSentinelMode_def Let_def split: if_splits sum.splits)
  have n: "length (fo_nodes fo) = 1 + length (filter (\<lambda>a. net a = None) sentinels)" "\<forall>n\<in>set (fo_nodes fo). cn_Client n"
    using dial_reachable_nodes [of "[m]" net sentinels] node_dial_client [OF m(1)] m(2) by auto
  moreover have "fo_nodes fo \<noteq> []" using n(1) by auto
  ultimately show ?thesis using ms start_ok [of "fo_nodes fo"] by (simp add: fo_ok_def)
qed

lemma ms_runs_ok: "ms_runs ms0 ms \<Longrightarrow> fo_ok ms0 \<Longrightarrow> fo_ok ms \<and> length (fo_nodes ms) = length (fo_nodes ms0)"
  by (induction rule: ms_runs.induct) (auto simp: checkAndFailover_ok pickSlave_ok)

lemma fo_runs_ok: "fo_runs fo0 fo \<Longrightarrow> fo_ok fo0 \<Longrightarrow> fo_ok fo \<and> length (fo_nodes fo) = length (fo_nodes fo0)"
  by (induction rule: fo_runs.induct) (auto simp: checkAndFailover_ok)

lemma fo_ok_nodes:
  "fo_ok fo \<Longrightarrow> \<exists>m. fo_master fo = Some m \<and> distinct (m # fo_slaves fo) \<and> set (m # fo_slaves fo) = {..<length (fo_nodes fo)}"
  using fo_okD [of fo] by (fastforce simp: fo_ok_def)

text \<open>(C22) Failovers never lose or duplicate a node.  After any interleaving of health checks, failovers and reads of a master-slave
  cluster there is a master, and the master and the slaves are exactly the nodes that were configured, each once.\<close>

theorem failover_keeps_nodes:
  assumes "newMasterSlaveMode net master slaves timeout = Inr ms0" "ms_runs ms0 ms"
  shows "\<exists>m. fo_master ms = Some m \<and> distinct (m # fo_slaves ms) \<and> set (m # fo_slaves ms) = {..<1 + length slaves}"
  using fo_ok_nodes [of ms] newMasterSlaveMode_ok [OF assms(1)] ms_runs_ok [OF assms(2)] by simp

definition demo_ms :: master_slave where
  "demo_ms = \<lparr>fo_nodes = map (\<lambda>a. \<lparr>cn_Addr = a, cn_Weight = 1, cn_Client = True, cn_Healthy = True\<rparr>) [''a'', ''b'', ''c''],
     fo_master = Some 0, fo_slaves = [1, 2], fo_firstUnhealthyAt = None, fo_FailoverTimeout = 10, ms_nextSlave = 0\<rparr>"

lemma demo_ms_new: "newMasterSlaveMode (\<lambda>_. None) ''a'' [''b'', ''c''] 10 = Inr demo_ms"
  by code_simp

theorem failover_keeps_nodes_witness:
  "\<exists>m. fo_master (checkAndFailover 20 (\<lambda>i. i = 2) (checkAndFailover 5 (\<lambda>i. i = 2) demo_ms)) = Some m \<and> m < 3"
  using failover_keeps_nodes [OF demo_ms_new ms_tick [OF ms_tick [OF ms_start]], of 20 "\<lambda>i. i = 2" 5 "\<lambda>i. i = 2"] by auto

lemma sentinel_keeps_nodes:
  assumes "newSentinelMode net master sentinels timeout = Inr fo0" "fo_runs fo0 fo"
  shows "\<exists>m. fo_master fo = Some m \<and> distinct (m # fo_slaves fo) \<and>
    set (m # fo_slaves fo) = {..<1 + length (filter (\<lambda>a. net a = None) sentinels)}"
  using fo_ok_nodes [of fo] newSentinelMode_ok [OF assms(1)] fo_runs_ok [OF assms(2)] by simp

section \<open>A dead master is replaced, and not too early\<close>

definition run_ticks :: "(int \<times> (nat \<Rightarrow> bool)) list \<Rightarrow> 'a failover_scheme \<Rightarrow> 'a failover_scheme" where
  "run_ticks ticks fo = fold (\<lambda>(now, alive). checkAndFailover now alive) ticks fo"

lemma find_cong_on: "(\<And>x. x \<in> set xs \<Longrightarrow> P x = Q x) \<Longrightarrow> find P xs = find Q xs"
  by (induction xs) auto

lemma tick_waits:
  assumes "fo_ok fo" "fo_master fo = Some m" "\<not> alive m" "fo_firstUnhealthyAt fo = u"
    "\<And>t. u = Some t \<Longrightarrow> now - t < fo_FailoverTimeout fo"
  shows "fo_ok (checkAndFailover now alive fo) \<and> fo_master (checkAndFailover now alive fo) = Some m \<and>
    fo_slaves (checkAndFailover now alive fo) = fo_slaves fo \<and>
    fo_firstUnhealthyAt (checkAndFailover now alive fo) = Some (case u of None \<Rightarrow> now | Some t \<Rightarrow> t) \<and>
    fo_FailoverTimeout (checkAndFailover now alive fo) = fo_FailoverTimeout fo"
proof -
  have "cn_Client (fo_nodes (probeSlaves alive fo) ! m)"
    using fo_okD(1,5) [OF assms(1,2)] probeSlaves_nodes(2) [OF assms(1)] by simp
  then show ?thesis
    using assms(2-5) checkAndFailover_ok [OF assms(1), of now alive]
    by (cases u) (simp_all add: checkAndFailover_def Let_def probeNodeHealth_def)
qed

lemma tick_promotes:
  assumes "fo_ok fo" "fo_master fo = Some m" "\<not> alive m" "fo_firstUnhealthyAt fo = Some t"
    "now - t \<ge> fo_FailoverTimeout fo" "find alive (fo_slaves fo) = Some best"
  shows "fo_master (checkAndFailover now alive fo) = Some best \<and> healthy (checkAndFailover now alive fo) best \<and>
    fo_slaves (checkAndFailover now alive fo) = remove1 best (fo_slaves fo) @ [m] \<and>
    fo_firstUnhealthyAt (checkAndFailover now alive fo) = None"
proof -
  note o = fo_okD [OF assms(1,2)] and p = probeSlaves_nodes [OF assms(1)]
  define fo1 where "fo1 = probeSlaves alive fo"
  define fo2 where "fo2 = fo1\<lparr>fo_nodes := set_health m False (fo_nodes fo1)\<rparr>"
  have len: "m < length (fo_nodes fo1)" using o(1) p(1) by (simp add: fo1_def)
  have client: "cn_Client (fo_nodes fo1 ! i)" if "i < length (fo_nodes fo)" for i using o(5) p(2) that by (simp add: fo1_def)
  have h: "healthy fo2 i = (i \<noteq> m \<and> (if i \<in> set (fo_slaves fo) then alive i else healthy fo i))" for i
    using len p(3) [of alive i] by (simp add: fo2_def healthy_def fo1_def)
  have "candidate fo2 s = alive s" if "s \<in> set (fo_slaves fo)" for s
    using that o(2) h client assms(2) by (auto simp: candidate_def fo2_def fo1_def)
  then have f: "find (candidate fo2) (fo_slaves fo2) = Some best"
    using assms(6) find_cong_on [of "fo_slaves fo" "candidate fo2" alive] by (simp add: fo2_def fo1_def)
  have best: "best \<in> set (fo_slaves fo)" "alive best" using assms(6) by (auto simp: find_Some_iff)
  have m2: "fo_master fo2 = Some m" "\<not> healthy fo2 m" "fo_slaves fo2 = fo_slaves fo" "m < length (fo_nodes fo2)"
    using assms(2) h len by (simp_all add: fo2_def fo1_def)
  have "checkAndFailover now alive fo = tryFailover fo2"
    using assms(2-5) client [OF o(1)] by (simp add: checkAndFailover_def Let_def probeNodeHealth_def fo2_def fo1_def)
  moreover have "healthy (tryFailover fo2) best"
    using f m2 h [of best] best o(3) by (auto simp: tryFailover_def Let_def healthy_def)
  ultimately show ?thesis using f m2 by (simp add: tryFailover_def Let_def)
qed

lemma ticks_wait:
  assumes "fo_ok fo" "fo_master fo = Some m" "fo_firstUnhealthyAt fo = Some t0"
    "\<forall>(now, alive)\<in>set ticks. \<not> alive m \<and> now - t0 < fo_FailoverTimeout fo"
  shows "fo_ok (run_ticks ticks fo) \<and> fo_master (run_ticks ticks fo) = Some m \<and> fo_slaves (run_ticks ticks fo) = fo_slaves fo \<and>
    fo_firstUnhealthyAt (run_ticks ticks fo) = Some t0 \<and> fo_FailoverTimeout (run_ticks ticks fo) = fo_FailoverTimeout fo"
  using assms
proof (induction ticks arbitrary: fo)
  case (Cons tick ticks)
  obtain now alive where tick: "tick = (now, alive)" by fastforce
  then have "\<not> alive m" "now - t0 < fo_FailoverTimeout fo" using Cons.prems(4) by auto
  then have w: "fo_ok (checkAndFailover now alive fo)" "fo_master (checkAndFailover now alive fo) = Some m"
    "fo_slaves (checkAndFailover now alive fo) = fo_slaves fo" "fo_firstUnhealthyAt (checkAndFailover now alive fo) = Some t0"
    "fo_FailoverTimeout (checkAndFailover now alive fo) = fo_FailoverTimeout fo"
    using tick_waits [OF Cons.prems(1,2), of alive "Some t0" now] Cons.prems(3) by auto
  have r: "\<forall>(n, a)\<in>set ticks. \<not> a m \<and> n - t0 < fo_FailoverTimeout (checkAndFailover now alive fo)"
    using Cons.prems(4) w(5) by auto
  from Cons.IH [OF w(1,2,4) r] show ?case using tick w(3,5) by (simp add: run_ticks_def)
qed (simp add: run_ticks_def)

text \<open>(C21) A dead master is replaced exactly when the timeout has passed.  Let the master of a cluster stop answering, noticed first at
  \<open>t0\<close>.  As long as the ticks of the health loop come before \<open>t0\<close> plus the failover timeout nothing is promoted; at the
  first tick that comes later, with the master still dead, the first slave that answers its probe becomes the master, is marked
  healthy and serves requests, and the old master is the last slave.\<close>

theorem failover_after_timeout:
  assumes "fo_ok fo" "fo_master fo = Some m" "fo_firstUnhealthyAt fo = None" "\<not> alive0 m"
    "\<forall>(now, alive)\<in>set ticks. \<not> alive m \<and> now < t0 + fo_FailoverTimeout fo"
    "\<not> alive m" "t0 + fo_FailoverTimeout fo \<le> t" "find alive (fo_slaves fo) = Some best"
  shows "fo_master (run_ticks ((t0, alive0) # ticks) fo) = Some m \<and>
    master_node (run_ticks ((t0, alive0) # ticks @ [(t, alive)]) fo) = Inr best \<and>
    fo_slaves (run_ticks ((t0, alive0) # ticks @ [(t, alive)]) fo) = remove1 best (fo_slaves fo) @ [m]"
proof -
  define fo1 where "fo1 = checkAndFailover t0 alive0 fo"
  have f1: "fo_ok fo1" "fo_master fo1 = Some m" "fo_slaves fo1 = fo_slaves fo" "fo_firstUnhealthyAt fo1 = Some t0"
    "fo_FailoverTimeout fo1 = fo_FailoverTimeout fo"
    using tick_waits [OF assms(1,2), of alive0 None t0] assms(3,4) by (simp_all add: fo1_def)
  have "\<forall>(now, alive)\<in>set ticks. \<not> alive m \<and> now - t0 < fo_FailoverTimeout fo1" using assms(5) f1(5) by auto
  note w = ticks_wait [OF f1(1,2,4) this]
  have "fo_FailoverTimeout (run_ticks ticks fo1) \<le> t - t0" "find alive (fo_slaves (run_ticks ticks fo1)) = Some best"
    using w f1 assms(7,8) by simp_all
  with w have "fo_master (checkAndFailover t alive (run_ticks ticks fo1)) = Some best \<and>
      healthy (checkAndFailover t alive (run_ticks ticks fo1)) best \<and>
      fo_slaves (checkAndFailover t alive (run_ticks ticks fo1)) = remove1 best (fo_slaves (run_ticks ticks fo1)) @ [m] \<and>
      fo_firstUnhealthyAt (checkAndFailover t alive (run_ticks ticks fo1)) = None"
    using assms(6) by (intro tick_promotes) auto
  then show ?thesis using w f1(3) by (simp add: run_ticks_def master_node_def fo1_def)
qed

theorem failover_after_timeout_witness:
  "master_node (run_ticks [(5, \<lambda>i. i = 2), (14, \<lambda>i. i = 2), (15, \<lambda>i. i = 2)] demo_ms) = Inr 2"
proof -
  have "fo_ok demo_ms" using newMasterSlaveMode_ok [OF demo_ms_new] by simp
  then show ?thesis
    using failover_after_timeout [of demo_ms 0 "\<lambda>i. i = 2" "[(14, \<lambda>i. i = 2)]" 5 "\<lambda>i. i = 2" 15 2] by (simp add: demo_ms_def)
qed

section \<open>Reads\<close>

text \<open>As long as its counter does not wrap around, the round robin meets every slave.\<close>

lemma pickSlave_loop_none:
  "snd (pickSlave_loop tries ms) = None \<Longrightarrow> ms_nextSlave ms + tries < 2 ^ 32 \<Longrightarrow> i \<in> {1..tries} \<Longrightarrow>
    \<not> healthy ms (fo_slaves ms ! ((ms_nextSlave ms + i) mod length (fo_slaves ms)))"
proof (induction tries arbitrary: ms i)
  case (Suc tries)
  define ms' where "ms' = ms\<lparr>ms_nextSlave := ms_nextSlave ms + 1\<rparr>"
  have e: "healthy ms' = healthy ms" "fo_slaves ms' = fo_slaves ms" "ms_nextSlave ms' = ms_nextSlave ms + 1"
    by (simp_all add: ms'_def healthy_def fun_eq_iff)
  have h: "\<not> healthy ms (fo_slaves ms ! ((ms_nextSlave ms + 1) mod length (fo_slaves ms)))" "snd (pickSlave_loop tries ms') = None"
    using Suc.prems(1,2) e by (auto simp: Let_def ms'_def healthy_def split: if_splits)
  show ?case
  proof (cases "i = 1")
    case False
    then have "i - 1 \<in> {1..tries}" "ms_nextSlave ms + 1 + (i - 1) = ms_nextSlave ms + i" using Suc.prems(3) by auto
    then show ?thesis using Suc.IH [OF h(2), of "i - 1"] Suc.prems(2) e by simp
  qed (use h in simp)
qed simp

lemma residue_hit:
  assumes "(j :: nat) < n" shows "\<exists>i\<in>{1..n}. (c + i) mod n = j"
proof -
  let ?d = "(j + n - c mod n) mod n"
  have "(c + ?d) mod n = (c mod n + (j + n - c mod n)) mod n" by (simp add: mod_add_eq mod_simps)
  also have "c mod n + (j + n - c mod n) = j + n" using assms mod_le_divisor [of n c] by linarith
  also have "(j + n) mod n = j" using assms by simp
  finally have d: "(c + ?d) mod n = j" .
  show ?thesis
  proof (cases "?d = 0")
    case True
    then have "(c + n) mod n = j" using d by simp
    then show ?thesis using assms by (intro bexI [of _ n]) auto
  next
    case False
    moreover have "?d < n" using assms by simp
    ultimately show ?thesis using d by (intro bexI [of _ ?d]) auto
  qed
qed

lemma pickSlave_loop_healthy: "snd (pickSlave_loop tries ms) = Some s \<Longrightarrow> healthy ms s"
proof (induction tries arbitrary: ms)
  case (Suc tries)
  show ?case using Suc.prems Suc.IH [of "ms\<lparr>ms_nextSlave := (ms_nextSlave ms + 1) mod 2 ^ 32\<rparr>"]
    by (simp add: Let_def healthy_def split: if_splits)
qed simp

lemma pickSlave_loop_member: "fo_slaves ms \<noteq> [] \<Longrightarrow> snd (pickSlave_loop tries ms) = Some s \<Longrightarrow> s \<in> set (fo_slaves ms)"
proof (induction tries arbitrary: ms)
  case (Suc tries)
  show ?case using Suc.prems Suc.IH [of "ms\<lparr>ms_nextSlave := (ms_nextSlave ms + 1) mod 2 ^ 32\<rparr>"]
    by (auto simp: Let_def split: if_splits)
qed simp

lemma pickSlave_member: "snd (pickSlave ms) = Some s \<Longrightarrow> s \<in> set (fo_slaves ms)"
  using pickSlave_loop_member by (auto simp: pickSlave_def split: if_splits)

lemma pickSlave_finds:
  assumes "ms_nextSlave ms + length (fo_slaves ms) < 2 ^ 32"
  shows "(\<exists>s\<in>set (fo_slaves ms). healthy ms s) \<Longrightarrow> \<exists>s. snd (pickSlave ms) = Some s \<and> healthy ms s"
proof -
  assume "\<exists>s\<in>set (fo_slaves ms). healthy ms s"
  then obtain j where j: "j < length (fo_slaves ms)" "healthy ms (fo_slaves ms ! j)" by (auto simp: in_set_conv_nth)
  obtain i where i: "i \<in> {1..length (fo_slaves ms)}" "(ms_nextSlave ms + i) mod length (fo_slaves ms) = j"
    using residue_hit [OF j(1)] by blast
  have "snd (pickSlave_loop (length (fo_slaves ms)) ms) \<noteq> None"
    using pickSlave_loop_none [OF _ assms i(1)] i(2) j(2) by auto
  then show ?thesis using j(1) pickSlave_loop_healthy by (fastforce simp: pickSlave_def)
qed

text \<open>A server per node, each with its own data: what the calls of the clients do when the nodes are separate caches.\<close>

definition node_set :: "gostring \<Rightarrow> bytes \<Rightarrow> (nat \<Rightarrow> gostring \<rightharpoonup> bytes, unit) node_call" where
  "node_set k v n s = (s(n := (s n)(k \<mapsto> v)), Inr ())"

definition node_get :: "gostring \<Rightarrow> (nat \<Rightarrow> gostring \<rightharpoonup> bytes, bytes) node_call" where
  "node_get k n s = (s, case s n k of None \<Rightarrow> Inl ClKeyNotFound | Some v \<Rightarrow> Inr v)"



section \<open>The contract of a mode\<close>

text \<open>What the manager relies on of the \<^verbatim>\<open>node\<close> method of a mode: the node is one of the mode's and it is marked healthy.\<close>

locale topology =
  fixes node_of :: "'m \<Rightarrow> gostring \<Rightarrow> (cluster_error + nat) go"
    and up :: "'m \<Rightarrow> nat \<Rightarrow> bool"
  assumes node_up: "node_of m k = Ret (Inr n) \<Longrightarrow> up m n"
begin

lemma routed:
  "go_bind (node_of m k) (\<lambda>r. Ret (case r of Inl err \<Rightarrow> (s, Inl err) | Inr n \<Rightarrow> at_node call n s)) = Ret (s', r) \<Longrightarrow>
    (\<exists>n. up m n \<and> at_node call n s = (s', r)) \<or> s' = s \<and> (\<exists>err. r = Inl err)"
proof (cases "node_of m k")
  case (Ret r0)
  assume "go_bind (node_of m k) (\<lambda>r. Ret (case r of Inl err \<Rightarrow> (s, Inl err) | Inr n \<Rightarrow> at_node call n s)) = Ret (s', r)"
  then show ?thesis using Ret node_up [of m k] by (cases r0) auto
qed simp

end

interpretation shard_topology: topology sm_node "\<lambda>nodes n. cn_Healthy (nodes ! n)"
proof
  fix nodes k n assume "sm_node nodes k = Ret (Inr n)"
  then show "cn_Healthy (nodes ! n)" by (cases "pickNode nodes k") (auto simp: sm_node_def split: option.splits if_splits)
qed

interpretation failover_topology: topology "\<lambda>fo k. Ret (master_node fo)" healthy
  by unfold_locales (auto simp: master_node_def split: option.splits if_splits)

fun cm_up :: "cluster_mode \<Rightarrow> nat \<Rightarrow> bool" where
  "cm_up (ShardMode nodes) n = cn_Healthy (nodes ! n)"
| "cm_up (SentinelMode fo) n = healthy fo n"
| "cm_up (MasterSlaveMode ms) n = healthy ms n"

interpretation manager: topology cm_node cm_up
proof
  fix cm k n assume "cm_node cm k = Ret (Inr n)"
  then show "cm_up cm n"
    using shard_topology.node_up failover_topology.node_up by (cases cm) (auto simp: master_node_def split: option.splits if_splits)
qed

text \<open>In every mode, an operation on a key is one call of the client of one node that is marked healthy, with that call's answer; or it is
  an error, and no server has been asked.\<close>

lemma keyed_asks_healthy_node:
  assumes "cm_keyed cm k call s = Ret (s', r)"
  shows "(\<exists>n. cm_up cm n \<and> at_node call n s = (s', r)) \<or> s' = s \<and> (\<exists>err. r = Inl err)"
  using assms unfolding cm_keyed_def by (rule manager.routed)

end
