(* ===== verification/Float64.thy ===== *)
theory Float64
  imports Complex_Main
begin

text \<open>
  Go's \<^verbatim>\<open>float64\<close> arithmetic: the finite values as reals, the infinities and the not-a-number value, with rounding to nearest, ties
  to even, gradual underflow and overflow to the infinities.  The two zeros are one value; the sign of a zero is only visible
  in a division by zero, whose result the code using this theory does not distinguish.  The theorems are that rounding is
  monotone and leaves every representable value unchanged.
\<close>

section \<open>Binary exponents\<close>

fun lg :: "nat \<Rightarrow> real \<Rightarrow> nat" where
  "lg 0 x = 0"
| "lg (Suc k) x = (if 2 ^ (2 ^ k) \<le> x then 2 ^ k + lg k (x / 2 ^ (2 ^ k)) else lg k x)"

definition ilog2 :: "real \<Rightarrow> int" where
  "ilog2 x = (if 1 \<le> x then int (lg 10 x) else let m = lg 10 (1 / x) in if 1 \<le> x * 2 ^ m then - int m else - int m - 1)"

text \<open>The exponent of the last place of a value with 53 significant bits.\<close>

definition last_place :: "real \<Rightarrow> int" where
  "last_place x = (if x < 2 powi - 1022 then - 1074 else ilog2 x - 52)"

definition round_even :: "real \<Rightarrow> int" where
  "round_even x =
     (let n = \<lfloor>x\<rfloor>; d = x - of_int n
      in if d < 1 / 2 then n else if d > 1 / 2 then n + 1 else if even n then n else n + 1)"

definition rnd_abs :: "real \<Rightarrow> real" where
  "rnd_abs x = of_int (round_even (x / 2 powi last_place x)) * 2 powi last_place x"

definition rnd :: "real \<Rightarrow> real" where
  "rnd x = (if x < 0 then - rnd_abs (- x) else rnd_abs x)"

section \<open>Values and operations\<close>

datatype f64 = Fin real | PInf | NInf | NaN

definition fl :: "real \<Rightarrow> f64" where
  "fl x =
     (if 2 ^ 1024 \<le> x then PInf else if x \<le> - (2 ^ 1024) then NInf
      else let r = rnd x in if 2 ^ 1024 \<le> r then PInf else if r \<le> - (2 ^ 1024) then NInf else Fin r)"

fun f_neg :: "f64 \<Rightarrow> f64" where
  "f_neg (Fin x) = Fin (- x)"
| "f_neg PInf = NInf"
| "f_neg NInf = PInf"
| "f_neg NaN = NaN"

fun f_add :: "f64 \<Rightarrow> f64 \<Rightarrow> f64" where
  "f_add (Fin x) (Fin y) = fl (x + y)"
| "f_add NaN _ = NaN"
| "f_add _ NaN = NaN"
| "f_add PInf NInf = NaN"
| "f_add NInf PInf = NaN"
| "f_add PInf _ = PInf"
| "f_add _ PInf = PInf"
| "f_add NInf _ = NInf"
| "f_add _ NInf = NInf"

definition f_sub :: "f64 \<Rightarrow> f64 \<Rightarrow> f64" where
  "f_sub x y = f_add x (f_neg y)"

fun f_sign :: "f64 \<Rightarrow> int" where
  "f_sign (Fin x) = (if x < 0 then - 1 else if x = 0 then 0 else 1)"
| "f_sign PInf = 1"
| "f_sign NInf = - 1"
| "f_sign NaN = 0"

definition f_inf :: "int \<Rightarrow> f64" where
  "f_inf s = (if 0 < s then PInf else if s < 0 then NInf else NaN)"

fun f_mul :: "f64 \<Rightarrow> f64 \<Rightarrow> f64" where
  "f_mul (Fin x) (Fin y) = fl (x * y)"
| "f_mul NaN _ = NaN"
| "f_mul _ NaN = NaN"
| "f_mul x y = f_inf (f_sign x * f_sign y)"

fun f_div :: "f64 \<Rightarrow> f64 \<Rightarrow> f64" where
  "f_div (Fin x) (Fin y) = (if y = 0 then f_inf (f_sign (Fin x)) else fl (x / y))"
| "f_div NaN _ = NaN"
| "f_div _ NaN = NaN"
| "f_div (Fin _) _ = Fin 0"
| "f_div PInf (Fin y) = (if y < 0 then NInf else PInf)"
| "f_div NInf (Fin y) = (if y < 0 then PInf else NInf)"
| "f_div _ _ = NaN"

fun f_le :: "f64 \<Rightarrow> f64 \<Rightarrow> bool" where
  "f_le (Fin x) (Fin y) \<longleftrightarrow> x \<le> y"
| "f_le NaN _ \<longleftrightarrow> False"
| "f_le _ NaN \<longleftrightarrow> False"
| "f_le NInf _ \<longleftrightarrow> True"
| "f_le _ PInf \<longleftrightarrow> True"
| "f_le _ _ \<longleftrightarrow> False"

definition f_lt :: "f64 \<Rightarrow> f64 \<Rightarrow> bool" where
  "f_lt x y \<longleftrightarrow> f_le x y \<and> \<not> f_le y x"

definition f_max :: "f64 \<Rightarrow> f64 \<Rightarrow> f64" where
  "f_max x y = (if x = PInf \<or> y = PInf then PInf else if x = NaN \<or> y = NaN then NaN else if f_lt y x then x else y)"

definition is_fin :: "f64 \<Rightarrow> bool" where
  "is_fin x \<longleftrightarrow> (case x of Fin _ \<Rightarrow> True | _ \<Rightarrow> False)"

section \<open>Rounding\<close>

lemma lg_bounds: "1 \<le> x \<Longrightarrow> x < 2 ^ (2 ^ k) \<Longrightarrow> 2 ^ lg k x \<le> x \<and> x < 2 ^ (lg k x + 1)"
proof (induction k arbitrary: x)
  case (Suc k)
  show ?case
  proof (cases "2 ^ (2 ^ k) \<le> x")
    case True
    have "(2::real) ^ (2 ^ Suc k) = 2 ^ (2 ^ k) * 2 ^ (2 ^ k)" by (simp add: mult_2 power_add)
    then have "1 \<le> x / 2 ^ (2 ^ k)" "x / 2 ^ (2 ^ k) < 2 ^ (2 ^ k)" using True Suc.prems(2) by (simp_all add: divide_less_eq)
    from Suc.IH [OF this] show ?thesis
      using True by (simp add: power_add le_divide_eq divide_less_eq mult_ac)
  next
    case False
    then show ?thesis using Suc.IH [of x] Suc.prems(1) by simp
  qed
qed simp

lemma powi_pos [simp]: "0 < (2::real) powi e"
  by (simp add: zero_less_power_int)

lemma powi_Suc: "(2::real) powi (e + 1) = 2 * 2 powi e"
  by (simp add: power_int_add_1')

lemma ilog2_bounds:
  assumes "2 powi - 1022 \<le> x" "x < 2 ^ 1024"
  shows "2 powi ilog2 x \<le> x \<and> x < 2 powi (ilog2 x + 1)"
proof (cases "1 \<le> x")
  case True
  have "(2::real) ^ (2 ^ 10) = 2 ^ 1024" by simp
  with lg_bounds [OF True, of 10] assms(2) have "2 ^ lg 10 x \<le> x \<and> x < 2 ^ (lg 10 x + 1)" by simp
  then show ?thesis using True by (simp add: ilog2_def powi_Suc)
next
  case False
  have pos: "0 < x" using assms(1) powi_pos [of "- 1022"] by linarith
  let ?m = "lg 10 (1 / x)"
  have "1 / x \<le> 2 ^ 1022" using assms(1) pos by (simp add: power_int_minus field_simps)
  also have "(2::real) ^ 1022 < 2 ^ (2 ^ 10)" by simp
  finally have "2 ^ ?m \<le> 1 / x" "1 / x < 2 ^ (?m + 1)" using lg_bounds [of "1 / x" 10] False pos by auto
  then have b: "x * 2 ^ ?m \<le> 1" "1 < x * 2 ^ (?m + 1)" using pos by (auto simp: field_simps)
  have inv: "(2::real) powi (- int n) = 1 / 2 ^ n" for n by (simp add: power_int_minus field_simps)
  show ?thesis
  proof (cases "1 \<le> x * 2 ^ ?m")
    case True
    then have "x = 1 / 2 ^ ?m" using b(1) by (simp add: field_simps)
    then have x: "x = 2 powi - int ?m" using inv [of ?m] by linarith
    have "ilog2 x = - int ?m" using True False by (simp add: ilog2_def Let_def)
    then have "2 powi ilog2 x = x" "(2::real) powi (ilog2 x + 1) = 2 * x" using x by (metis, metis powi_Suc)
    then show ?thesis using pos by linarith
  next
    case no: False
    have "ilog2 x = - int (?m + 1)" using no False by (simp add: ilog2_def Let_def)
    moreover have "- int (?m + 1) + 1 = - int ?m" by simp
    ultimately show ?thesis using no b(2) by (simp only: inv) (simp add: field_simps)
  qed
qed

lemma powi_mono: "e \<le> e' \<Longrightarrow> (2::real) powi e \<le> 2 powi e'"
  by (simp add: power_int_increasing)

lemma powi_less_iff: "(2::real) powi e < 2 powi e' \<longleftrightarrow> e < e'"
  by (metis linorder_not_less not_less_iff_gr_or_eq order_less_irrefl power_int_strict_increasing one_less_numeral_iff semiring_norm(76))

lemma powi_add: "(2::real) powi (e + e') = 2 powi e * 2 powi e'"
  by (simp add: power_int_add)

lemma round_even_mono: "x \<le> y \<Longrightarrow> round_even x \<le> round_even y"
proof (cases "\<lfloor>x\<rfloor> = \<lfloor>y\<rfloor>")
  case False
  assume "x \<le> y"
  then have "\<lfloor>x\<rfloor> + 1 \<le> \<lfloor>y\<rfloor>" using False floor_mono [of x y] by linarith
  moreover have "round_even x \<le> \<lfloor>x\<rfloor> + 1" "\<lfloor>y\<rfloor> \<le> round_even y" by (simp_all add: round_even_def Let_def)
  ultimately show ?thesis by linarith
qed (auto simp: round_even_def Let_def)

lemma round_even_int [simp]: "round_even (of_int n) = n"
  by (simp add: round_even_def)

lemma last_place_bounds:
  assumes "0 \<le> x" "x < 2 ^ 1024"
  shows "x < 2 powi (last_place x + 53)" "- 1074 \<le> last_place x"
    "- 1074 < last_place x \<Longrightarrow> 2 powi (last_place x + 52) \<le> x"
proof -
  have b: "2 powi ilog2 x \<le> x" "x < 2 powi (ilog2 x + 1)" "- 1022 \<le> ilog2 x" if "2 powi - 1022 \<le> x"
  proof -
    show i: "2 powi ilog2 x \<le> x" "x < 2 powi (ilog2 x + 1)" using ilog2_bounds [OF that assms(2)] by auto
    have "2 powi - 1022 < (2::real) powi (ilog2 x + 1)" using i(2) that by linarith
    then have "- 1022 < ilog2 x + 1" by (simp only: powi_less_iff)
    then show "- 1022 \<le> ilog2 x" by simp
  qed
  show "x < 2 powi (last_place x + 53)"
  proof (cases "x < 2 powi - 1022")
    case True
    also have "(2::real) powi - 1022 \<le> 2 powi (- 1074 + 53)" by (intro powi_mono) simp
    finally show ?thesis using True by (simp add: last_place_def)
  next
    case False
    then have "ilog2 x + 1 = last_place x + 53" "x < 2 powi (ilog2 x + 1)" using b(2) by (simp_all add: last_place_def)
    then show ?thesis by metis
  qed
  show "- 1074 \<le> last_place x"
  proof (cases "x < 2 powi - 1022")
    case False
    then have "- 1022 \<le> ilog2 x" using b(3) not_less by blast
    then show ?thesis unfolding last_place_def if_not_P [OF False] by linarith
  qed (simp only: last_place_def if_True order_refl)
  show "2 powi (last_place x + 52) \<le> x" if "- 1074 < last_place x"
  proof -
    have f: "\<not> x < 2 powi - 1022" using that by (auto simp: last_place_def)
    then have "ilog2 x = last_place x + 52" by (simp add: last_place_def)
    then show ?thesis using b(1) f by (metis not_less)
  qed
qed

lemma last_place_le:
  assumes "0 \<le> x" "x < 2 ^ 1024" "x < 2 powi (e + 53)" "- 1074 \<le> e"
  shows "last_place x \<le> e"
proof (rule ccontr)
  assume "\<not> last_place x \<le> e"
  then have "2 powi (last_place x + 52) \<le> x" using assms last_place_bounds(3) [OF assms(1,2)] by simp
  then have "(2::real) powi (last_place x + 52) < 2 powi (e + 53)" using assms(3) by linarith
  then show False using \<open>\<not> last_place x \<le> e\<close> by (simp add: powi_less_iff)
qed

lemma rnd_abs_le: "x \<le> of_int m * 2 powi last_place x \<Longrightarrow> rnd_abs x \<le> of_int m * 2 powi last_place x"
proof -
  assume "x \<le> of_int m * 2 powi last_place x"
  then have "x / 2 powi last_place x \<le> of_int m" by (simp add: divide_le_eq)
  from round_even_mono [OF this] show ?thesis by (simp add: rnd_abs_def)
qed

lemma rnd_abs_ge: "of_int m * 2 powi last_place x \<le> x \<Longrightarrow> of_int m * 2 powi last_place x \<le> rnd_abs x"
proof -
  assume "of_int m * 2 powi last_place x \<le> x"
  then have "of_int m \<le> x / 2 powi last_place x" by (simp add: le_divide_eq)
  from round_even_mono [OF this] show ?thesis by (simp add: rnd_abs_def)
qed

lemma rnd_abs_nonneg: "0 \<le> x \<Longrightarrow> 0 \<le> rnd_abs x"
  using rnd_abs_ge [of 0 x] by simp

lemma rnd_abs_mono:
  assumes "0 \<le> x" "x \<le> y" "y < 2 ^ 1024"
  shows "rnd_abs x \<le> rnd_abs y"
proof -
  have x: "x < 2 ^ 1024" "0 \<le> y" using assms by linarith+
  note bx = last_place_bounds [OF assms(1) x(1)] and by' = last_place_bounds [OF x(2) assms(3)]
  show ?thesis
  proof (cases "last_place x < last_place y")
    case True
    have e: "of_int (2 ^ 53) * 2 powi last_place x = (2::real) powi (last_place x + 53)"
      "of_int (2 ^ 52) * 2 powi last_place y = (2::real) powi (last_place y + 52)" by (simp_all add: powi_add)
    have "rnd_abs x \<le> 2 powi (last_place x + 53)" using rnd_abs_le [of x "2 ^ 53"] bx(1) unfolding e by linarith
    also have "\<dots> \<le> 2 powi (last_place y + 52)" using True by (intro powi_mono) simp
    also have "\<dots> \<le> rnd_abs y" using rnd_abs_ge [of "2 ^ 52" y] by'(3) bx(2) True unfolding e by linarith
    finally show ?thesis .
  next
    case False
    have "last_place x \<le> last_place y" using last_place_le [OF assms(1) x(1) _ by'(2)] by'(1) assms(2) by linarith
    then have same: "last_place x = last_place y" using False by simp
    have "x / 2 powi last_place y \<le> y / 2 powi last_place y" using assms(2) by (simp add: divide_right_mono)
    from round_even_mono [OF this] show ?thesis by (simp add: rnd_abs_def same)
  qed
qed

text \<open>The representable numbers.\<close>

definition is_f64 :: "real \<Rightarrow> bool" where
  "is_f64 r \<longleftrightarrow> \<bar>r\<bar> < 2 ^ 1024 \<and> (\<exists>m e. \<bar>r\<bar> = of_int m * 2 powi e \<and> 0 \<le> m \<and> m < 2 ^ 53 \<and> - 1074 \<le> e)"

lemma rnd_abs_id:
  assumes "0 \<le> r" "is_f64 r" shows "rnd_abs r = r"
proof -
  obtain m e where r: "r = of_int m * 2 powi e" "0 \<le> m" "m < 2 ^ 53" "- 1074 \<le> e" and lt: "r < 2 ^ 1024"
    using assms by (auto simp: is_f64_def)
  have "of_int m < (2::real) ^ 53" using r(3) by (metis of_int_less_iff of_int_numeral of_int_power)
  then have "r < 2 powi (e + 53)" using r(1) by (simp add: powi_add)
  then have le: "last_place r \<le> e" by (rule last_place_le [OF assms(1) lt _ r(4)])
  define d where "d = nat (e - last_place r)"
  have "e = last_place r + int d" using le by (simp add: d_def)
  then have p: "(2::real) powi e = 2 powi last_place r * 2 powi int d" by (metis powi_add)
  have "of_int m * (2 powi last_place r * 2 powi int d) = of_int (m * 2 ^ d) * (2::real) powi last_place r" by simp
  then have eq: "r = of_int (m * 2 ^ d) * 2 powi last_place r" using r(1) unfolding p by (rule trans [rotated])
  have "of_int (m * 2 ^ d) * 2 powi last_place r / 2 powi last_place r = (of_int (m * 2 ^ d) :: real)" by simp
  then have "r / 2 powi last_place r = of_int (m * 2 ^ d)" unfolding eq [symmetric] .
  then have "rnd_abs r = of_int (m * 2 ^ d) * 2 powi last_place r" by (simp only: rnd_abs_def round_even_int)
  then show ?thesis by (rule trans [OF _ eq [symmetric]])
qed

lemma rnd_abs_f64:
  assumes "0 \<le> x" "x < 2 ^ 1024" "rnd_abs x < 2 ^ 1024" shows "is_f64 (rnd_abs x)"
proof -
  let ?e = "last_place x" and ?m = "round_even (x / 2 powi last_place x)"
  note b = last_place_bounds [OF assms(1,2)]
  have r: "rnd_abs x = of_int ?m * 2 powi ?e" by (simp add: rnd_abs_def)
  have "of_int 0 \<le> x / 2 powi ?e" using assms(1) by simp
  from round_even_mono [OF this] have m0: "0 \<le> ?m" by (simp only: round_even_int)
  have "x / 2 powi ?e \<le> of_int (2 ^ 53)" using b(1) by (simp add: divide_le_eq powi_add)
  from round_even_mono [OF this] have m1: "?m \<le> 2 ^ 53" by (simp only: round_even_int)
  have a: "\<bar>rnd_abs x\<bar> = rnd_abs x" using rnd_abs_nonneg [OF assms(1)] by simp
  have "\<exists>m e. rnd_abs x = of_int m * 2 powi e \<and> 0 \<le> m \<and> m < 2 ^ 53 \<and> - 1074 \<le> e"
  proof (cases "?m = 2 ^ 53")
    case True
    have "rnd_abs x = of_int (2 ^ 53) * 2 powi ?e" by (rule r [unfolded True])
    also have "\<dots> = of_int (2 ^ 52) * 2 powi (?e + 1)" by (simp add: powi_Suc)
    finally have "rnd_abs x = of_int (2 ^ 52) * 2 powi (?e + 1)" .
    moreover have "- 1074 \<le> ?e + 1" using b(2) by linarith
    moreover have "(0::int) \<le> 2 ^ 52" "(2::int) ^ 52 < 2 ^ 53" by simp_all
    ultimately show ?thesis by blast
  next
    case False
    then have "?m < 2 ^ 53" using m1 by linarith
    then show ?thesis using r m0 b(2) by blast
  qed
  then show ?thesis unfolding is_f64_def a using assms(3) by (rule conjI [rotated])
qed

lemma is_f64_uminus [simp]: "is_f64 (- r) = is_f64 r"
  by (simp only: is_f64_def abs_minus_cancel)

lemma is_f64_int:
  assumes "\<bar>n\<bar> < 2 ^ 53" shows "is_f64 (of_int n)"
proof -
  have "(2::real) ^ 53 < 2 ^ 1024" by simp
  moreover have "\<bar>real_of_int n\<bar> < 2 ^ 53" using assms by (metis of_int_abs of_int_less_iff of_int_numeral of_int_power)
  ultimately have lt: "\<bar>real_of_int n\<bar> < 2 ^ 1024" by linarith
  have "\<bar>real_of_int n\<bar> = of_int \<bar>n\<bar> * 2 powi 0" "0 \<le> \<bar>n\<bar>" "- 1074 \<le> (0::int)" by simp_all
  then show ?thesis unfolding is_f64_def using lt assms by blast
qed

lemma is_f64_0: "is_f64 0" and is_f64_1: "is_f64 1" and is_f64_neg1: "is_f64 (- 1)"
  using is_f64_int [of 0] is_f64_int [of 1] is_f64_int [of "- 1"] by simp_all

lemma rnd_mono:
  assumes "x \<le> y" "- (2 ^ 1024) < x" "y < 2 ^ 1024" shows "rnd x \<le> rnd y"
proof -
  consider "0 \<le> x" "0 \<le> y" | "x < 0" "0 \<le> y" | "x < 0" "y < 0" using assms(1) by linarith
  then show ?thesis
  proof cases
    case 1
    then have "rnd x = rnd_abs x" "rnd y = rnd_abs y" by (simp_all only: rnd_def not_less [symmetric] if_False)
    then show ?thesis using rnd_abs_mono [OF 1(1) assms(1,3)] by metis
  next
    case 2
    have "rnd x = - rnd_abs (- x)" "rnd y = rnd_abs y" using 2 by (simp_all only: rnd_def not_less [symmetric] if_False if_True)
    then show ?thesis using rnd_abs_nonneg [of "- x"] rnd_abs_nonneg [of y] 2 by linarith
  next
    case 3
    have "rnd x = - rnd_abs (- x)" "rnd y = - rnd_abs (- y)" using 3 by (simp_all only: rnd_def if_True)
    moreover have "rnd_abs (- y) \<le> rnd_abs (- x)" using assms 3 by (intro rnd_abs_mono) linarith+
    ultimately show ?thesis by linarith
  qed
qed

lemma rnd_id: "is_f64 r \<Longrightarrow> rnd r = r"
  using rnd_abs_id [of r] rnd_abs_id [of "- r"] by (cases "r < 0") (simp_all add: rnd_def del: is_f64_uminus, simp_all)

lemma is_f64_bounds: "is_f64 r \<Longrightarrow> - (2 ^ 1024) < r \<and> r < 2 ^ 1024"
proof -
  assume "is_f64 r"
  then have "\<bar>r\<bar> < 2 ^ 1024" by (simp only: is_f64_def)
  then show ?thesis by (intro conjI) linarith+
qed

lemma fl_id: "is_f64 r \<Longrightarrow> fl r = Fin r"
  using is_f64_bounds [of r] unfolding fl_def Let_def rnd_id by (simp only: not_le [symmetric] if_False)

lemma f_le_NaN [simp]: "\<not> f_le x NaN" "\<not> f_le NaN x"
  by (cases x; simp)+

lemma f_le_refl: "x \<noteq> NaN \<Longrightarrow> f_le x x"
  by (cases x) auto

lemma f_le_trans: "f_le x y \<Longrightarrow> f_le y z \<Longrightarrow> f_le x z"
  by (cases x; cases y; cases z) auto

lemma f_le_total: "x \<noteq> NaN \<Longrightarrow> y \<noteq> NaN \<Longrightarrow> f_le x y \<or> f_le y x"
  by (cases x; cases y) auto

lemma f_lt_not_le: "x \<noteq> NaN \<Longrightarrow> y \<noteq> NaN \<Longrightarrow> f_lt x y \<longleftrightarrow> \<not> f_le y x"
  using f_le_total unfolding f_lt_def by blast

lemma fl_not_NaN [simp]: "fl x \<noteq> NaN"
  by (simp add: fl_def Let_def)

lemma f_le_PInf: "x \<noteq> NaN \<Longrightarrow> f_le x PInf" and NInf_f_le: "x \<noteq> NaN \<Longrightarrow> f_le NInf x"
  by (cases x; simp)+

lemma fl_cases:
  assumes "- (2 ^ 1024) < x" "x < 2 ^ 1024"
  obtains "fl x = PInf" "2 ^ 1024 \<le> rnd x" | "fl x = NInf" "rnd x \<le> - (2 ^ 1024)" | "fl x = Fin (rnd x)"
    "- (2 ^ 1024) < rnd x" "rnd x < 2 ^ 1024"
  using assms unfolding fl_def Let_def by (metis not_le)

lemma fl_mono: "x \<le> y \<Longrightarrow> f_le (fl x) (fl y)"
proof -
  assume le: "x \<le> y"
  consider "2 ^ 1024 \<le> y" | "x \<le> - (2 ^ 1024)" "y < 2 ^ 1024" | "- (2 ^ 1024) < x" "y < 2 ^ 1024" by linarith
  then show ?thesis
  proof cases
    case 1
    then have "fl y = PInf" by (simp only: fl_def if_True)
    then show ?thesis by (metis f_le_PInf fl_not_NaN)
  next
    case 2
    have "\<not> 2 ^ 1024 \<le> x" using 2(1) zero_less_power [of "2::real" 1024] by linarith
    then have "fl x = NInf" using 2(1) by (simp only: fl_def if_True if_False)
    then show ?thesis by (metis NInf_f_le fl_not_NaN)
  next
    case 3
    have x: "x < 2 ^ 1024" and y: "- (2 ^ 1024) < y" using 3 le by linarith+
    have r: "rnd x \<le> rnd y" by (rule rnd_mono [OF le 3])
    have z: "(0::real) < 2 ^ 1024" by (rule zero_less_power) simp
    show ?thesis
    proof (cases rule: fl_cases [OF 3(1) x])
      case fx: 1
      then have "2 ^ 1024 \<le> rnd y" using r by linarith
      then have "fl y = PInf" by (cases rule: fl_cases [OF y 3(2)]) (assumption | use z in linarith)+
      then show ?thesis by (metis f_le_PInf fl_not_NaN)
    next
      case fx: 2
      then show ?thesis by (metis NInf_f_le fl_not_NaN)
    next
      case fx: 3
      show ?thesis
      proof (cases rule: fl_cases [OF y 3(2)])
        case 1
        then show ?thesis by (metis f_le_PInf fl_not_NaN)
      next
        case 2
        then show ?thesis using fx r by linarith
      next
        case fy: 3
        show ?thesis unfolding fx(1) fy(1) by (simp only: f_le.simps r)
      qed
    qed
  qed
qed

lemma fl_Fin: "fl x = Fin r \<Longrightarrow> is_f64 r"
proof -
  assume f: "fl x = Fin r"
  then have x: "- (2 ^ 1024) < x" "x < 2 ^ 1024" unfolding fl_def Let_def by (metis f64.distinct(1,3) not_le)+
  have r: "r = rnd x" "- (2 ^ 1024) < rnd x" "rnd x < 2 ^ 1024"
    using fl_cases [OF x] f by (metis f64.distinct(1,3) f64.inject)+
  show ?thesis
  proof (cases "x < 0")
    case True
    then have e: "rnd x = - rnd_abs (- x)" by (simp only: rnd_def if_True)
    have "is_f64 (rnd_abs (- x))" by (rule rnd_abs_f64) (use True x r e in linarith)+
    then show ?thesis unfolding r(1) e by simp
  next
    case False
    then have e: "rnd x = rnd_abs x" by (simp only: rnd_def if_False)
    have "is_f64 (rnd_abs x)" by (rule rnd_abs_f64) (use False x r e in linarith)+
    then show ?thesis unfolding r(1) e .
  qed
qed

lemma fl_ge: "is_f64 a \<Longrightarrow> a \<le> x \<Longrightarrow> f_le (Fin a) (fl x)"
  using fl_mono [of a x] by (simp add: fl_id)

lemma fl_le: "is_f64 b \<Longrightarrow> x \<le> b \<Longrightarrow> f_le (fl x) (Fin b)"
  using fl_mono [of x b] by (simp add: fl_id)

lemma f_between: "f_le (Fin a) x \<Longrightarrow> f_le x (Fin b) \<Longrightarrow> \<exists>r. x = Fin r \<and> a \<le> r \<and> r \<le> b"
  by (cases x) auto

lemma is_f64_powi: "- 1074 \<le> e \<Longrightarrow> e < 1024 \<Longrightarrow> is_f64 (2 powi e)"
proof -
  assume e: "- 1074 \<le> e" "e < 1024"
  have "(2::real) powi e < 2 powi 1024" by (simp only: powi_less_iff e)
  moreover have "(2::real) powi 1024 = 2 ^ 1024" by (metis of_nat_numeral power_int_of_nat)
  moreover have "\<bar>(2::real) powi e\<bar> = 2 powi e" by simp
  ultimately have "\<bar>(2::real) powi e\<bar> < 2 ^ 1024" by metis
  moreover have "\<bar>(2::real) powi e\<bar> = of_int 1 * 2 powi e" "(0::int) \<le> 1" "(1::int) < 2 ^ 53" by simp_all
  ultimately show ?thesis unfolding is_f64_def using e(1) by blast
qed

text \<open>A bracket around a rounded value.\<close>

lemma fl_bracket: "is_f64 a \<Longrightarrow> is_f64 b \<Longrightarrow> a \<le> x \<Longrightarrow> x \<le> b \<Longrightarrow> \<exists>c. fl x = Fin c \<and> is_f64 c \<and> a \<le> c \<and> c \<le> b"
  using f_between [of a "fl x" b] fl_ge [of a x] fl_le [of b x] fl_Fin by blast

lemma fl_unit: "0 \<le> x \<Longrightarrow> x \<le> 1 \<Longrightarrow> \<exists>c. fl x = Fin c \<and> is_f64 c \<and> 0 \<le> c \<and> c \<le> 1"
  by (rule fl_bracket [OF is_f64_0 is_f64_1])

lemma round_even_near:
  assumes "\<bar>x - of_int m\<bar> < 1 / 2" shows "round_even x = m"
proof (cases "of_int m \<le> x")
  case True
  then have "\<lfloor>x\<rfloor> = m" using assms by (simp add: floor_eq_iff)
  then show ?thesis using True assms by (simp add: round_even_def)
next
  case False
  then have "\<lfloor>x\<rfloor> = m - 1" using assms by (simp add: floor_eq_iff)
  then show ?thesis using False assms by (simp add: round_even_def Let_def)
qed

lemma fl_value:
  assumes "2 powi (e + 52) \<le> x" "x < 2 powi (e + 53)" "- 1074 \<le> e" "e + 53 \<le> 1023" "\<bar>x / 2 powi e - of_int m\<bar> < 1 / 2"
  shows "fl x = Fin (of_int m * 2 powi e)"
proof -
  have x0: "0 < x" using assms(1) powi_pos [of "e + 52"] by linarith
  have top: "(2::real) powi (e + 53) \<le> 2 powi 1023" using assms(4) by (rule powi_mono)
  have "(2::real) powi 1023 = 2 ^ 1023" by (metis of_nat_numeral power_int_of_nat)
  moreover have "(2::real) ^ 1023 < 2 ^ 1024" by (rule power_strict_increasing) simp_all
  ultimately have big: "x < 2 ^ 1024" "(2::real) powi (e + 53) < 2 ^ 1024" using assms(2) top by linarith+
  have "last_place x \<le> e" using x0 by (intro last_place_le [OF _ big(1) assms(2,3)]) simp
  moreover have "\<not> last_place x < e"
  proof
    assume "last_place x < e"
    then have "(2::real) powi (last_place x + 53) \<le> 2 powi (e + 52)" by (intro powi_mono) simp
    then show False using last_place_bounds(1) [OF less_imp_le [OF x0] big(1)] assms(1) by linarith
  qed
  ultimately have lp: "last_place x = e" by simp
  have r: "rnd x = of_int m * 2 powi e"
    using x0 by (simp add: rnd_def rnd_abs_def lp round_even_near [OF assms(5)])
  have b2: "rnd x \<le> 2 powi (e + 53)"
  proof -
    have "x \<le> of_int (2 ^ 53) * 2 powi last_place x" using assms(2) lp by (simp add: powi_add)
    from rnd_abs_le [OF this] show ?thesis using x0 lp by (simp add: rnd_def powi_add)
  qed
  have "0 \<le> rnd x" using rnd_abs_nonneg [of x] x0 by (simp add: rnd_def)
  moreover have "(0::real) < 2 ^ 1024" by (rule zero_less_power) simp
  ultimately have "\<not> 2 ^ 1024 \<le> x" "\<not> x \<le> - (2 ^ 1024)" "\<not> 2 ^ 1024 \<le> rnd x" "\<not> rnd x \<le> - (2 ^ 1024)"
    using big b2 x0 by linarith+
  then have "fl x = Fin (rnd x)" unfolding fl_def Let_def by (simp only: if_False)
  then show ?thesis by (simp only: r)
qed

lemma fl_consts:
  "fl (95 / 100) = Fin (8556839292003942 / 2 ^ 53)" "fl (70 / 100) = Fin (6305039478318694 / 2 ^ 53)"
  "fl (1 / 10) = Fin (7205759403792794 / 2 ^ 56)" "fl (4 / 10) = Fin (7205759403792794 / 2 ^ 54)"
  using fl_value [of "- 53" "95 / 100" 8556839292003942] fl_value [of "- 53" "70 / 100" 6305039478318694]
    fl_value [of "- 56" "1 / 10" 7205759403792794] fl_value [of "- 54" "4 / 10" 7205759403792794]
  by (simp_all add: power_int_minus)

end
