(* ===== verification/Window.thy ===== *)
theory Window
  imports Prelude
begin

text \<open>
  Three bounded histories: the ring of statistics windows of the decision engine (\<^verbatim>\<open>mbr/matrix.go\<close>), the ring of system
  snapshots of the monitor (\<^verbatim>\<open>monitor/monitor.go\<close>) and the event buffer of the analytics collector
  (\<^verbatim>\<open>infra/analytics.go\<close>).  All promise the same: they keep the newest elements up to a capacity, in order of arrival.
  That contract is the locale \<open>recent_window\<close>; each of them is an interpretation of it.
\<close>

section \<open>The contract\<close>

definition newest :: "nat \<Rightarrow> 'a list \<Rightarrow> 'a list" where
  "newest n xs = drop (length xs - n) xs"

lemma newest_short [simp]: "length xs \<le> n \<Longrightarrow> newest n xs = xs"
  by (simp add: newest_def)

lemma length_newest [simp]: "length (newest n xs) = min n (length xs)"
  by (simp add: newest_def)

lemma newest_snoc: "newest n (newest n xs @ [x]) = newest n (xs @ [x])"
  by (cases "n \<le> length xs") (auto simp: newest_def Suc_diff_le)

lemma newest_newest: "newest n (newest m xs) = newest (min n m) xs"
  by (simp add: newest_def) (rule arg_cong [where f = "\<lambda>k. drop k xs"], linarith)

lemma last_newest: "0 < n \<Longrightarrow> xs \<noteq> [] \<Longrightarrow> last (newest n xs) = last xs"
  by (cases xs) (auto simp: newest_def last_drop)

lemma newest_Nil [simp]: "0 < n \<Longrightarrow> newest n xs = [] \<longleftrightarrow> xs = []"
  by (cases xs) (auto simp: newest_def)

lemma newest_full: "length xs = n \<Longrightarrow> 0 < n \<Longrightarrow> newest n (xs @ [x]) = tl xs @ [x]"
  by (cases xs) (auto simp: newest_def)

locale recent_window =
  fixes push :: "'a \<Rightarrow> 'w \<Rightarrow> 'w"
    and contents :: "'w \<Rightarrow> 'a list"
    and limit :: "'w \<Rightarrow> nat"
    and invar :: "'w \<Rightarrow> bool"
  assumes invar_push: "invar w \<Longrightarrow> invar (push x w)"
    and limit_push: "invar w \<Longrightarrow> limit (push x w) = limit w"
    and contents_push: "invar w \<Longrightarrow> contents (push x w) = newest (limit w) (contents w @ [x])"
begin

lemma push_all:
  assumes "invar w" "length (contents w) \<le> limit w"
  shows "invar (fold push xs w) \<and> limit (fold push xs w) = limit w
    \<and> contents (fold push xs w) = newest (limit w) (contents w @ xs)"
  using assms
proof (induction xs rule: rev_induct)
  case (snoc x xs)
  then show ?case by (simp add: invar_push limit_push contents_push newest_snoc)
qed simp

end

section \<open>Statistics windows\<close>

record 'a matrix =
  fm_buf :: "'a list"
  fm_head :: nat
  fm_size :: nat
  fm_capacity :: nat

definition NewFeatureMatrix :: "int \<Rightarrow> 'a matrix" where
  "NewFeatureMatrix capacity =
     \<lparr>fm_buf = [], fm_head = 0, fm_size = 0, fm_capacity = nat (if capacity < 1 then 60 else capacity)\<rparr>"

definition fm_Push :: "'a \<Rightarrow> 'a matrix \<Rightarrow> 'a matrix" where
  "fm_Push stats m =
     (if fm_size m < fm_capacity m then m\<lparr>fm_buf := fm_buf m @ [stats], fm_size := fm_size m + 1\<rparr>
      else m\<lparr>fm_buf := (fm_buf m)[fm_head m := stats], fm_head := (fm_head m + 1) mod fm_capacity m\<rparr>)"

text \<open>A negative count is a panic of \<^verbatim>\<open>make\<close>.\<close>

definition GetRecent :: "'a matrix \<Rightarrow> int \<Rightarrow> 'a list option go" where
  "GetRecent m n =
     (if fm_size m = 0 then Ret None
      else
        let n = (if n > int (fm_size m) then int (fm_size m) else n) in
        if n < 0 then Panic
        else if fm_size m < fm_capacity m then Ret (Some (drop (fm_size m - nat n) (fm_buf m)))
        else
          let start = (fm_head m + fm_capacity m - nat n) mod fm_capacity m
          in Ret (Some (map (\<lambda>i. fm_buf m ! ((start + i) mod fm_capacity m)) [0..<nat n])))"

definition fm_Last :: "'a matrix \<Rightarrow> 'a option" where
  "fm_Last m =
     (if fm_size m = 0 then None
      else if fm_size m < fm_capacity m then Some (fm_buf m ! (fm_size m - 1))
      else Some (fm_buf m ! ((fm_head m + fm_capacity m - 1) mod fm_capacity m)))"

definition fm_inv :: "'a matrix \<Rightarrow> bool" where
  "fm_inv m \<longleftrightarrow> length (fm_buf m) = fm_size m \<and> fm_size m \<le> fm_capacity m \<and> fm_head m < fm_capacity m
     \<and> (fm_size m < fm_capacity m \<longrightarrow> fm_head m = 0)"

text \<open>The windows in order of arrival: the ring read from its oldest entry.\<close>

definition fm_list :: "'a matrix \<Rightarrow> 'a list" where
  "fm_list m = rotate (fm_head m) (fm_buf m)"

lemma rotate_update:
  assumes "i < length xs"
  shows "rotate (Suc i mod length xs) (xs[i := x]) = tl (rotate i xs) @ [x]"
proof -
  have "rotate i (xs[i := x]) = x # drop (Suc i) xs @ take i xs" using assms by (simp add: rotate_drop_take Cons_nth_drop_Suc [symmetric] drop_update_swap)
  moreover have "rotate i xs = xs ! i # drop (Suc i) xs @ take i xs" using assms by (simp add: rotate_drop_take Cons_nth_drop_Suc)
  moreover have "rotate (Suc i mod length xs) (xs[i := x]) = rotate1 (rotate i (xs[i := x]))"
    by (metis length_list_update rotate_Suc rotate_conv_mod)
  ultimately show ?thesis by simp
qed

interpretation fm: recent_window fm_Push fm_list fm_capacity fm_inv
proof
  fix m :: "'a matrix" and x
  assume inv: "fm_inv m"
  show "fm_inv (fm_Push x m)" using inv by (auto simp: fm_inv_def fm_Push_def Let_def)
  show "fm_capacity (fm_Push x m) = fm_capacity m" by (simp add: fm_Push_def)
  show "fm_list (fm_Push x m) = newest (fm_capacity m) (fm_list m @ [x])"
  proof (cases "fm_size m < fm_capacity m")
    case True
    then show ?thesis using inv by (simp add: fm_list_def fm_Push_def fm_inv_def)
  next
    case False
    then have "length (fm_buf m) = fm_capacity m" "fm_head m < length (fm_buf m)" using inv by (auto simp: fm_inv_def)
    then show ?thesis using False rotate_update [of "fm_head m" "fm_buf m" x] newest_full [of "rotate (fm_head m) (fm_buf m)"]
      by (simp add: fm_list_def fm_Push_def)
  qed
qed

lemma fm_new: "fm_inv (NewFeatureMatrix n)" "fm_list (NewFeatureMatrix n) = []" "0 < fm_capacity (NewFeatureMatrix n)"
  by (auto simp: fm_inv_def fm_list_def NewFeatureMatrix_def)

lemma rotate_window:
  assumes "h < length xs" "n \<le> length xs"
  shows "map (\<lambda>i. xs ! (((h + length xs - n) mod length xs + i) mod length xs)) [0..<n] = newest n (rotate h xs)"
proof (rule nth_equalityI)
  fix i assume "i < length (map (\<lambda>i. xs ! (((h + length xs - n) mod length xs + i) mod length xs)) [0..<n])"
  then have i: "i < n" by simp
  have "newest n (rotate h xs) ! i = rotate h xs ! (length xs - n + i)" using assms i by (simp add: newest_def)
  also have "\<dots> = xs ! ((h + (length xs - n + i)) mod length xs)" using assms i by (intro nth_rotate) simp
  also have "(h + (length xs - n + i)) mod length xs = ((h + length xs - n) mod length xs + i) mod length xs"
  proof -
    have "h + (length xs - n + i) = (h + length xs - n) + i" using assms(2) by simp
    then show ?thesis by (simp only: mod_add_left_eq)
  qed
  finally show "map (\<lambda>i. xs ! (((h + length xs - n) mod length xs + i) mod length xs)) [0..<n] ! i = newest n (rotate h xs) ! i"
    using i by simp
qed (use assms in simp)

lemma GetRecent_list:
  assumes "fm_inv m" "fm_size m \<noteq> 0" "0 \<le> n"
  shows "GetRecent m n = Ret (Some (newest (nat n) (fm_list m)))"
proof (cases "fm_size m < fm_capacity m")
  case True
  then show ?thesis using assms by (auto simp: GetRecent_def fm_inv_def fm_list_def newest_def Let_def)
next
  case False
  let ?n = "nat (if n > int (fm_size m) then int (fm_size m) else n)"
  have len: "length (fm_buf m) = fm_capacity m" "fm_size m = fm_capacity m" "fm_head m < length (fm_buf m)"
    using assms False by (auto simp: fm_inv_def)
  have "newest ?n (rotate (fm_head m) (fm_buf m)) = newest (nat n) (rotate (fm_head m) (fm_buf m))"
    using assms len by (auto simp: newest_def)
  moreover have "?n \<le> length (fm_buf m)" using len by auto
  ultimately show ?thesis
    using False assms(2,3) len rotate_window [of "fm_head m" "fm_buf m" ?n]
    by (simp add: GetRecent_def Let_def fm_list_def split: if_splits)
qed

lemma fm_Last_list:
  assumes "fm_inv m"
  shows "fm_Last m = (if fm_list m = [] then None else Some (last (fm_list m)))"
proof (cases "fm_buf m = []")
  case True
  then show ?thesis using assms by (simp add: fm_Last_def fm_list_def fm_inv_def)
next
  case False
  let ?n = "length (fm_buf m)"
  have "last (fm_list m) = fm_buf m ! ((fm_head m + (?n - 1)) mod ?n)"
    using False by (simp add: fm_list_def last_conv_nth nth_rotate)
  moreover have "fm_head m + (?n - 1) = fm_head m + ?n - 1" using False by (cases "fm_buf m") auto
  moreover have "0 < fm_size m" using assms False by (metis fm_inv_def length_greater_0_conv)
  ultimately show ?thesis
    using assms False by (auto simp: fm_Last_def fm_list_def fm_inv_def)
qed

lemma pushed_windows:
  assumes "xs \<noteq> []"
  shows "fm_inv (fold fm_Push xs (NewFeatureMatrix c))"
    "fm_list (fold fm_Push xs (NewFeatureMatrix c)) = newest (nat (if c < 1 then 60 else c)) xs"
    "0 \<le> n \<Longrightarrow> GetRecent (fold fm_Push xs (NewFeatureMatrix c)) n = Ret (Some (newest (min (nat n) (nat (if c < 1 then 60 else c))) xs))"
proof -
  let ?m = "fold fm_Push xs (NewFeatureMatrix c)" and ?k = "nat (if c < 1 then 60 else c)"
  show m: "fm_inv ?m" "fm_list ?m = newest ?k xs"
    using fm.push_all [OF fm_new(1), of c xs] by (simp_all add: fm_new(2)) (simp add: NewFeatureMatrix_def)
  have "newest ?k xs \<noteq> []" using assms by simp
  then have "fm_buf ?m \<noteq> []" using m(2) by (metis fm_list_def rotate_is_Nil_conv)
  then have "fm_size ?m \<noteq> 0" using m(1) by (metis fm_inv_def length_0_conv)
  then show "0 \<le> n \<Longrightarrow> GetRecent ?m n = Ret (Some (newest (min (nat n) ?k) xs))"
    using GetRecent_list [OF m(1)] m(2) by (simp add: newest_newest)
qed

text \<open>(C18) The ring of statistics windows is the list of the newest windows.  Whatever was pushed into a new matrix,
  \<^verbatim>\<open>GetRecent(n)\<close> returns the last n pushes, at most as many as the capacity, oldest first, and \<^verbatim>\<open>Last\<close> returns the last push.\<close>

theorem matrix_keeps_newest:
  assumes "0 \<le> n" "xs \<noteq> []"
  shows "let m = fold fm_Push xs (NewFeatureMatrix c); k = nat (if c < 1 then 60 else c) in
    GetRecent m n = Ret (Some (newest (min (nat n) k) xs)) \<and> fm_Last m = Some (last xs)"
proof -
  let ?k = "nat (if c < 1 then 60 else c)"
  note m = pushed_windows [OF assms(2), where c = c]
  have "0 < ?k" by simp
  then show ?thesis
    using m(3) [OF assms(1)] fm_Last_list [OF m(1)] m(2) assms(2) last_newest [OF \<open>0 < ?k\<close> assms(2)] by (simp add: Let_def)
qed

theorem matrix_keeps_newest_witness:
  "let m = fold fm_Push [1, 2, 3, 4, 5 :: nat] (NewFeatureMatrix 3) in GetRecent m 2 = Ret (Some [4, 5]) \<and> fm_Last m = Some 5"
  using matrix_keeps_newest [of 2 "[1, 2, 3, 4, 5 :: nat]" 3] by (simp add: newest_def)

section \<open>System snapshots\<close>

text \<open>A metric is whatever its collector reports; a collector reports a partial snapshot or fails.\<close>

record ('c, 'm, 'd, 'n) snapshot =
  sn_CPU :: "'c option"
  sn_Memory :: "'m option"
  sn_IO :: "'d list"
  sn_Network :: "'n list"

record 's monitor =
  mo_ring :: "'s list"
  mo_pos :: nat
  mo_count :: nat
  mo_full :: bool
  mo_capacity :: nat

definition mon_WithCapacity :: "int \<Rightarrow> nat" where
  "mon_WithCapacity n = nat (if n < 1 then 1 else n)"

definition mon_New :: "nat \<Rightarrow> 's monitor" where
  "mon_New capacity = \<lparr>mo_ring = [], mo_pos = 0, mo_count = 0, mo_full = False, mo_capacity = capacity\<rparr>"

definition merge_partial :: "('c, 'm, 'd, 'n) snapshot option \<Rightarrow> ('c, 'm, 'd, 'n) snapshot \<Rightarrow> ('c, 'm, 'd, 'n) snapshot" where
  "merge_partial p snap =
     (case p of
        None \<Rightarrow> snap
      | Some partial \<Rightarrow>
          \<lparr>sn_CPU = (if sn_CPU partial \<noteq> None then sn_CPU partial else sn_CPU snap),
           sn_Memory = (if sn_Memory partial \<noteq> None then sn_Memory partial else sn_Memory snap),
           sn_IO = sn_IO snap @ sn_IO partial, sn_Network = sn_Network snap @ sn_Network partial\<rparr>)"

definition mon_store :: "'s \<Rightarrow> 's monitor \<Rightarrow> 's monitor" where
  "mon_store snap m =
     (let m = (if length (mo_ring m) < mo_capacity m
               then let m = m\<lparr>mo_ring := mo_ring m @ [snap]\<rparr>
                    in if length (mo_ring m) = mo_capacity m then m\<lparr>mo_full := True\<rparr> else m
               else m\<lparr>mo_ring := (mo_ring m)[mo_pos m := snap], mo_pos := (mo_pos m + 1) mod mo_capacity m\<rparr>)
      in m\<lparr>mo_count := mo_count m + 1\<rparr>)"

definition mon_collect ::
  "('c, 'm, 'd, 'n) snapshot option list \<Rightarrow> ('c, 'm, 'd, 'n) snapshot monitor \<Rightarrow> ('c, 'm, 'd, 'n) snapshot monitor" where
  "mon_collect reports m =
     (if reports = [] then m
      else mon_store (fold merge_partial reports \<lparr>sn_CPU = None, sn_Memory = None, sn_IO = [], sn_Network = []\<rparr>) m)"

definition mon_Latest :: "'s monitor \<Rightarrow> 's option" where
  "mon_Latest m =
     (if mo_ring m = [] then None
      else if \<not> mo_full m then Some (mo_ring m ! (length (mo_ring m) - 1))
      else Some (mo_ring m ! ((mo_pos m + mo_capacity m - 1) mod mo_capacity m)))"

definition mon_History :: "'s monitor \<Rightarrow> 's list" where
  "mon_History m =
     (if mo_ring m = [] then []
      else if \<not> mo_full m then mo_ring m
      else map (\<lambda>i. mo_ring m ! ((mo_pos m + i) mod mo_capacity m)) [0..<length (mo_ring m)])"

definition mon_inv :: "'s monitor \<Rightarrow> bool" where
  "mon_inv m \<longleftrightarrow> length (mo_ring m) \<le> mo_capacity m \<and> mo_pos m < mo_capacity m
     \<and> mo_full m = (length (mo_ring m) = mo_capacity m) \<and> (\<not> mo_full m \<longrightarrow> mo_pos m = 0)"

lemma History_rotate: "mon_inv m \<Longrightarrow> mon_History m = rotate (mo_pos m) (mo_ring m)"
  by (auto simp: mon_History_def mon_inv_def nth_rotate intro!: nth_equalityI)

interpretation mon: recent_window mon_store mon_History mo_capacity mon_inv
proof
  fix m :: "'s monitor" and x
  assume inv: "mon_inv m"
  show store: "mon_inv (mon_store x m)" using inv by (auto simp: mon_inv_def mon_store_def Let_def)
  show "mo_capacity (mon_store x m) = mo_capacity m" by (simp add: mon_store_def Let_def)
  show "mon_History (mon_store x m) = newest (mo_capacity m) (mon_History m @ [x])"
  proof (cases "length (mo_ring m) < mo_capacity m")
    case True
    then show ?thesis using inv unfolding History_rotate [OF store] History_rotate [OF inv]
      by (simp add: mon_store_def mon_inv_def Let_def)
  next
    case False
    then have "length (mo_ring m) = mo_capacity m" "mo_pos m < length (mo_ring m)" using inv by (auto simp: mon_inv_def)
    then show ?thesis
      using False rotate_update [of "mo_pos m" "mo_ring m" x] newest_full [of "rotate (mo_pos m) (mo_ring m)"]
      unfolding History_rotate [OF store] History_rotate [OF inv] by (simp add: mon_store_def Let_def)
  qed
qed

lemma Latest_History:
  assumes "mon_inv m"
  shows "mon_Latest m = (if mon_History m = [] then None else Some (last (mon_History m)))"
proof (cases "mo_ring m = []")
  case True
  then show ?thesis by (simp add: mon_Latest_def mon_History_def)
next
  case False
  let ?n = "length (mo_ring m)"
  have "last (mon_History m) = mo_ring m ! ((mo_pos m + (?n - 1)) mod ?n)"
    using False by (simp add: History_rotate [OF assms] last_conv_nth nth_rotate)
  moreover have "mo_pos m + (?n - 1) = mo_pos m + ?n - 1" using False by (cases "mo_ring m") auto
  ultimately show ?thesis
    using assms False by (auto simp: mon_Latest_def History_rotate [OF assms] mon_inv_def)
qed

text \<open>The monitor shows the newest snapshots: after any collections, \<^verbatim>\<open>History\<close> is the list of the last snapshots up to the capacity,
  oldest first, and \<^verbatim>\<open>Latest\<close> is its last element.\<close>

theorem monitor_keeps_newest:
  "let m = fold mon_store snaps (mon_New (mon_WithCapacity c)) in
    mon_History m = newest (mon_WithCapacity c) snaps \<and> mon_Latest m = (if snaps = [] then None else Some (last snaps))"
proof -
  let ?m = "fold mon_store snaps (mon_New (mon_WithCapacity c))"
  have new: "mon_inv (mon_New (mon_WithCapacity c))" "mon_History (mon_New (mon_WithCapacity c)) = []" "0 < mon_WithCapacity c"
    by (auto simp: mon_inv_def mon_New_def mon_WithCapacity_def mon_History_def)
  have m: "mon_inv ?m" "mon_History ?m = newest (mon_WithCapacity c) snaps"
    using mon.push_all [OF new(1), of snaps] by (simp_all add: new(2)) (simp add: mon_New_def)
  then show ?thesis
    using Latest_History [OF m(1)] last_newest [OF new(3)] new(3) by (auto simp: Let_def)
qed

section \<open>Event buffer\<close>

record 'e collector =
  bc_buf :: "'e list"
  bc_cap :: nat

definition NewBatchCollector :: "int \<Rightarrow> 'e collector" where
  "NewBatchCollector capacity = \<lparr>bc_buf = [], bc_cap = nat (if capacity < 1 then 1000 else capacity)\<rparr>"

definition bc_Collect :: "'e \<Rightarrow> 'e collector \<Rightarrow> 'e collector" where
  "bc_Collect e bc =
     (let bc = (if length (bc_buf bc) \<ge> bc_cap bc then bc\<lparr>bc_buf := drop 1 (bc_buf bc)\<rparr> else bc)
      in bc\<lparr>bc_buf := bc_buf bc @ [e]\<rparr>)"

text \<open>The batch for the flush function, if there is one to send.\<close>

definition bc_Flush :: "'e collector \<Rightarrow> 'e collector \<times> 'e list option" where
  "bc_Flush bc = (if bc_buf bc = [] then (bc, None) else (bc\<lparr>bc_buf := []\<rparr>, Some (bc_buf bc)))"

interpretation bc: recent_window bc_Collect bc_buf bc_cap "\<lambda>bc. 0 < bc_cap bc \<and> length (bc_buf bc) \<le> bc_cap bc"
  by unfold_locales (auto simp: bc_Collect_def Let_def newest_full drop_Suc)

lemma flush_sends_newest:
  assumes "es \<noteq> []"
  shows "let bc = fold bc_Collect es (NewBatchCollector c); k = nat (if c < 1 then 1000 else c) in
    bc_Flush bc = (bc\<lparr>bc_buf := []\<rparr>, Some (newest k es))"
proof -
  have "bc_buf (fold bc_Collect es (NewBatchCollector c)) = newest (bc_cap (NewBatchCollector c)) es"
    using bc.push_all [of "NewBatchCollector c" es] by (simp add: NewBatchCollector_def)
  then show ?thesis using assms by (auto simp: Let_def bc_Flush_def NewBatchCollector_def)
qed

end
