(* ===== verification/Scorecard.thy ===== *)
theory Scorecard
  imports Float64 Window
begin

text \<open>
  The decision engine of \<^verbatim>\<open>mbr/types.go\<close>, \<^verbatim>\<open>mbr/scorecard.go\<close>, \<^verbatim>\<open>mbr/pid.go\<close> and the loop of \<^verbatim>\<open>mbr/loop.go\<close> that asks it: the score of a
  window of statistics, the decision with its confirmation over earlier windows, and the controller.  Constants of the source are
  rounded as the compiler rounds them, every operation is rounded on its own.
\<close>

section \<open>Windows and weights\<close>

datatype decision = DecisionEvict | DecisionMigrate

datatype eviction_policy = PolicyUnknown | PolicyNoop | PolicyLRU | PolicyLFU

record window_stats =
  ws_MemUsageRatio :: f64
  ws_MemGrowthRate :: f64
  ws_KeysGrowthRate :: f64
  ws_HitRate :: f64
  ws_EvictionsPerSec :: f64
  ws_AvgEvictedIdle :: f64
  ws_NewKeysRate :: f64
  ws_ReadWriteRatio :: f64
  ws_CPUUtil :: f64
  ws_DiskIOPressure :: f64
  ws_NetUtil :: f64
  ws_RehashActive :: bool
  ws_RehashTempMem :: f64
  ws_MigrationActive :: bool
  ws_ClientOutputBufferUsage :: f64
  ws_ReplBacklogUsage :: f64
  ws_AofRewriteBufferSize :: f64
  ws_LargeInputBufClients :: int
  ws_CurrentEvictionPolicy :: eviction_policy
  ws_PIDSetpointDeviation :: f64

record score_weights =
  wt_MemGrowth :: f64
  wt_HitRate :: f64
  wt_NewKeys :: f64
  wt_EvictionPressure :: f64
  wt_BufferPenalty :: f64

definition DefaultWeights :: score_weights where
  "DefaultWeights = \<lparr>wt_MemGrowth = fl (35 / 100), wt_HitRate = fl (25 / 100), wt_NewKeys = fl (20 / 100),
     wt_EvictionPressure = fl (15 / 100), wt_BufferPenalty = fl (5 / 100)\<rparr>"

definition migrateThreshold :: real where "migrateThreshold = 55 / 100"

definition consecutiveWindows :: nat where "consecutiveWindows = 2"

definition falsePressureFactor :: real where "falsePressureFactor = 60 / 100"

definition migrationSuppressionFactor :: real where "migrationSuppressionFactor = 30 / 100"

section \<open>Scores\<close>

definition memGrowthScore :: "f64 \<Rightarrow> f64" where
  "memGrowthScore rate =
     (if f_le rate (Fin 0) then Fin 0 else if f_le (fl (5 / 100)) rate then Fin 1 else f_div rate (fl (5 / 100)))"

definition hitRateScore :: "f64 \<Rightarrow> f64" where
  "hitRateScore rate =
     (if f_le (fl (95 / 100)) rate then Fin 0 else if f_le rate (fl (70 / 100)) then Fin 1
      else f_div (f_sub (fl (95 / 100)) rate) (fl (25 / 100)))"

definition newKeysScore :: "f64 \<Rightarrow> f64" where
  "newKeysScore rate =
     (if f_le (fl (5 / 10)) rate then Fin 1 else if f_le rate (fl (1 / 10)) then Fin 0
      else f_div (f_sub rate (fl (1 / 10))) (fl (4 / 10)))"

definition evictionPressureScore :: "f64 \<Rightarrow> f64" where
  "evictionPressureScore eps =
     (if f_le (Fin 100) eps then Fin 1 else if f_le eps (Fin 10) then Fin 0 else f_div (f_sub eps (Fin 10)) (Fin 90))"

definition keysGrowthScore :: "f64 \<Rightarrow> f64" where
  "keysGrowthScore rate =
     (if f_le rate (Fin 0) then Fin 0 else if f_le (Fin 500) rate then Fin 1 else f_div rate (Fin 500))"

definition over_usage :: "f64 \<Rightarrow> f64 \<Rightarrow> f64" where
  "over_usage u score =
     (if f_lt (fl (8 / 10)) u then f_sub score (f_div (f_sub u (fl (8 / 10))) (fl (2 / 10))) else score)"

definition over_rewrite :: "f64 \<Rightarrow> f64 \<Rightarrow> f64" where
  "over_rewrite size_bytes score =
     (let aofMB = f_div size_bytes (Fin (1024 * 1024)) in
      if f_lt (Fin 512) aofMB
      then let over = f_div (f_sub aofMB (Fin 512)) (Fin 512) in f_sub score (if f_lt (Fin 1) over then Fin 1 else over)
      else score)"

definition over_clients :: "int \<Rightarrow> f64 \<Rightarrow> f64" where
  "over_clients n score =
     (if n > 0 then let c = fl (of_int n) in f_sub score (f_div (if f_lt (Fin 10) c then Fin 10 else c) (Fin 10)) else score)"

definition bufferPenalty :: "window_stats \<Rightarrow> f64" where
  "bufferPenalty stats =
     (let score = over_usage (ws_ClientOutputBufferUsage stats) (Fin 0);
          score = over_usage (ws_ReplBacklogUsage stats) score;
          score = over_rewrite (ws_AofRewriteBufferSize stats) score;
          score = over_clients (ws_LargeInputBufClients stats) score
      in if f_lt score (Fin (- 1)) then Fin (- 1) else score)"

definition isFalsePressure :: "window_stats \<Rightarrow> bool" where
  "isFalsePressure stats \<longleftrightarrow>
     f_lt (fl (80 / 100)) (ws_ClientOutputBufferUsage stats) \<or>
     f_lt (Fin (512 * 1024 * 1024)) (ws_AofRewriteBufferSize stats) \<or> ws_LargeInputBufClients stats > 0"

definition clamp01 :: "f64 \<Rightarrow> f64" where
  "clamp01 v = (if f_lt v (Fin 0) then Fin 0 else if f_lt (Fin 1) v then Fin 1 else v)"

definition weighted :: "f64 \<Rightarrow> window_stats \<Rightarrow> score_weights \<Rightarrow> f64" where
  "weighted bufPen stats weights =
     (let growthScore = f_max (memGrowthScore (ws_MemGrowthRate stats)) (f_mul (keysGrowthScore (ws_KeysGrowthRate stats)) (fl (8 / 10)))
      in f_add (f_add (f_add (f_add
           (f_mul (wt_MemGrowth weights) growthScore)
           (f_mul (wt_HitRate weights) (hitRateScore (ws_HitRate stats))))
           (f_mul (wt_NewKeys weights) (newKeysScore (ws_NewKeysRate stats))))
           (f_mul (wt_EvictionPressure weights) (evictionPressureScore (ws_EvictionsPerSec stats))))
           (f_mul (wt_BufferPenalty weights) bufPen))"

definition damped :: "window_stats \<Rightarrow> f64 \<Rightarrow> f64" where
  "damped stats raw =
     (let raw = clamp01 raw; raw = (if isFalsePressure stats then f_mul raw (fl falsePressureFactor) else raw)
      in if ws_RehashActive stats \<or> ws_MigrationActive stats then f_mul raw (fl migrationSuppressionFactor) else raw)"

definition recomputeScore :: "window_stats \<Rightarrow> score_weights \<Rightarrow> f64" where
  "recomputeScore stats weights =
     (let bufPen = bufferPenalty stats; bufPen = (if isFalsePressure stats then Fin (- 1) else bufPen)
      in damped stats (weighted bufPen stats weights))"

definition Decide_score :: "window_stats \<Rightarrow> score_weights \<Rightarrow> f64" where
  "Decide_score stats weights = damped stats (weighted (bufferPenalty stats) stats weights)"

definition Decide :: "window_stats \<Rightarrow> window_stats matrix \<Rightarrow> score_weights \<Rightarrow> (decision \<times> f64) go" where
  "Decide stats matrix weights =
     (let final = Decide_score stats weights in
      if f_lt (fl migrateThreshold) final
      then go_bind (GetRecent matrix (int consecutiveWindows + 1)) (\<lambda>r.
        let recent = the_default [] r in
        if length recent \<ge> consecutiveWindows + 1
        then (if \<forall>i\<in>set [0..<consecutiveWindows]. \<not> f_le (recomputeScore (recent ! i) weights) (fl migrateThreshold)
              then Ret (DecisionMigrate, final) else Ret (DecisionEvict, final))
        else if length recent \<ge> 1 \<and> f_lt (fl (migrateThreshold + 10 / 100)) final then Ret (DecisionMigrate, final)
        else Ret (DecisionEvict, final))
      else Ret (DecisionEvict, final))"

section \<open>The controller\<close>

record pid =
  pid_Kp :: f64
  pid_Ki :: f64
  pid_Kd :: f64
  pid_setpoint :: f64
  pid_integral :: f64
  pid_prevError :: f64
  pid_outputMin :: f64
  pid_outputMax :: f64

definition NewPIDController :: "f64 \<Rightarrow> f64 \<Rightarrow> f64 \<Rightarrow> f64 \<Rightarrow> f64 \<Rightarrow> f64 \<Rightarrow> pid" where
  "NewPIDController kp ki kd setpoint lo hi =
     \<lparr>pid_Kp = kp, pid_Ki = ki, pid_Kd = kd, pid_setpoint = setpoint, pid_integral = Fin 0, pid_prevError = Fin 0,
      pid_outputMin = lo, pid_outputMax = hi\<rparr>"

definition pid_Compute :: "f64 \<Rightarrow> f64 \<Rightarrow> pid \<Rightarrow> pid \<times> f64" where
  "pid_Compute measured dt p =
     (if f_le dt (Fin 0) then (p, Fin 0)
      else
        let err = f_sub (pid_setpoint p) measured;
            proportional = f_mul (pid_Kp p) err;
            p = p\<lparr>pid_integral := f_add (pid_integral p) (f_mul err dt)\<rparr>;
            integral = f_mul (pid_Ki p) (pid_integral p);
            derivative = f_div (f_mul (pid_Kd p) (f_sub err (pid_prevError p))) dt;
            p = p\<lparr>pid_prevError := err\<rparr>;
            output = f_add (f_add proportional integral) derivative;
            back = (\<lambda>out. let i = f_div (f_sub (f_sub out proportional) derivative) (pid_Ki p) in if is_fin i then i else Fin 0)
        in if f_lt (pid_outputMax p) output then (p\<lparr>pid_integral := back (pid_outputMax p)\<rparr>, pid_outputMax p)
           else if f_lt output (pid_outputMin p) then (p\<lparr>pid_integral := back (pid_outputMin p)\<rparr>, pid_outputMin p)
           else (p, output))"

definition pid_Reset :: "pid \<Rightarrow> pid" where
  "pid_Reset p = p\<lparr>pid_integral := Fin 0, pid_prevError := Fin 0\<rparr>"

definition UpdateSetpoint :: "f64 \<Rightarrow> pid \<Rightarrow> pid" where
  "UpdateSetpoint sp p = p\<lparr>pid_setpoint := sp\<rparr>"

section \<open>The decision loop\<close>

record decision_event =
  ev_Decision :: decision
  ev_Score :: f64
  ev_WindowStats :: window_stats

record loop_state =
  lp_matrix :: "window_stats matrix"
  lp_prev :: "decision option"
  lp_emitted :: "decision_event list"

text \<open>One tick.  \<open>room\<close> says whether the channel takes an event without blocking.\<close>

definition decision_tick :: "score_weights \<Rightarrow> window_stats \<times> bool \<Rightarrow> loop_state \<Rightarrow> loop_state go" where
  "decision_tick weights = (\<lambda>(stats, room) lp.
     let lp = lp\<lparr>lp_matrix := fm_Push stats (lp_matrix lp)\<rparr> in
     go_bind (Decide stats (lp_matrix lp) weights) (\<lambda>(decision, score).
       Ret (if Some decision \<noteq> lp_prev lp \<and> room
            then lp\<lparr>lp_prev := Some decision,
                   lp_emitted := lp_emitted lp @ [\<lparr>ev_Decision = decision, ev_Score = score, ev_WindowStats = stats\<rparr>]\<rparr>
            else lp)))"

fun RunDecisionLoop :: "score_weights \<Rightarrow> (window_stats \<times> bool) list \<Rightarrow> loop_state \<Rightarrow> loop_state go" where
  "RunDecisionLoop weights [] lp = Ret lp"
| "RunDecisionLoop weights (t # ts) lp = go_bind (decision_tick weights t lp) (RunDecisionLoop weights ts)"

section \<open>Scores stay in their range\<close>

definition in_unit :: "f64 \<Rightarrow> bool" where
  "in_unit x \<longleftrightarrow> f_le (Fin 0) x \<and> f_le x (Fin 1)"

lemma in_unit_iff: "in_unit x \<longleftrightarrow> (\<exists>r. x = Fin r \<and> 0 \<le> r \<and> r \<le> 1)"
  unfolding in_unit_def by (cases x) auto

lemma in_unit_fl: "0 \<le> x \<Longrightarrow> x \<le> 1 \<Longrightarrow> in_unit (fl x)"
  using fl_unit [of x] by (auto simp: in_unit_iff)

lemma clamp01_unit: "clamp01 v = NaN \<or> in_unit (clamp01 v)"
  by (cases v) (auto simp: clamp01_def in_unit_iff f_lt_def)

text \<open>Damping by a factor between 0 and 1.\<close>

lemma damp:
  assumes "x = NaN \<or> in_unit x" "fl q = Fin c" "0 \<le> q" "q \<le> 1"
  shows "f_mul x (fl q) = NaN \<or> in_unit (f_mul x (fl q)) \<and> f_le (f_mul x (fl q)) (fl q)"
proof -
  have c: "is_f64 c" "0 \<le> c" "c \<le> 1" using fl_unit [OF assms(3,4)] assms(2) by auto
  show ?thesis
  proof (cases "x = NaN")
    case False
    then obtain r where r: "x = Fin r" "0 \<le> r" "r \<le> 1" using assms(1) by (auto simp: in_unit_iff)
    have b: "0 \<le> r * c" "r * c \<le> c" "r * c \<le> 1" using r c by (auto intro: mult_le_one mult_left_le_one_le)
    then show ?thesis using assms(2) r(1) in_unit_fl [of "r * c"] fl_le [OF c(1) b(2)] by simp
  qed (simp add: assms(2))
qed

lemma factors: "\<exists>c. fl falsePressureFactor = Fin c" "\<exists>c. fl migrationSuppressionFactor = Fin c"
  using fl_unit [of falsePressureFactor] fl_unit [of migrationSuppressionFactor]
  by (auto simp: falsePressureFactor_def migrationSuppressionFactor_def)

lemma damped_range:
  "(damped stats raw = NaN \<or> in_unit (damped stats raw)) \<and>
   (ws_RehashActive stats \<or> ws_MigrationActive stats \<longrightarrow>
      damped stats raw = NaN \<or> f_le (damped stats raw) (fl migrationSuppressionFactor))"
proof -
  define raw1 where "raw1 = (if isFalsePressure stats then f_mul (clamp01 raw) (fl falsePressureFactor) else clamp01 raw)"
  obtain c1 c2 where c: "fl falsePressureFactor = Fin c1" "fl migrationSuppressionFactor = Fin c2" using factors by blast
  have u: "raw1 = NaN \<or> in_unit raw1"
    using damp [OF clamp01_unit c(1)] clamp01_unit by (auto simp: raw1_def falsePressureFactor_def)
  have "damped stats raw = (if ws_RehashActive stats \<or> ws_MigrationActive stats then f_mul raw1 (fl migrationSuppressionFactor) else raw1)"
    by (simp add: damped_def Let_def raw1_def)
  then show ?thesis using u damp [OF u c(2)] by (auto simp: migrationSuppressionFactor_def)
qed

lemma powi_neg_2: "(2::real) powi - 2 = 1 / 4" "(2::real) powi - 5 = 1 / 32"
  by (simp_all add: power_int_minus)

lemma memGrowthScore_range: "memGrowthScore x = NaN \<and> x = NaN \<or> in_unit (memGrowthScore x)"
proof -
  have "is_f64 (1 / 32)" using is_f64_powi [of "- 5"] unfolding powi_neg_2 by simp
  then obtain c where c: "fl (5 / 100) = Fin c" "1 / 32 \<le> c" using fl_bracket [of "1 / 32" 1 "5 / 100"] is_f64_1 by auto
  have "in_unit (fl (r / c))" if "0 < r" "r < c" for r using that by (intro in_unit_fl) auto
  then show ?thesis using c by (cases x) (auto simp: memGrowthScore_def in_unit_iff)
qed

lemma keysGrowthScore_range: "keysGrowthScore x = NaN \<and> x = NaN \<or> in_unit (keysGrowthScore x)"
proof -
  have "in_unit (fl (r / 500))" if "0 < r" "r < 500" for r using that by (intro in_unit_fl) auto
  then show ?thesis by (cases x) (auto simp: keysGrowthScore_def in_unit_iff)
qed

lemma scaled_unit:
  assumes "0 \<le> d" "d \<le> w" "0 < w" "is_f64 w" shows "in_unit (f_div (fl d) (Fin w))"
proof -
  obtain r where r: "fl d = Fin r" "0 \<le> r" "r \<le> w" using fl_bracket [OF is_f64_0 assms(4,1,2)] by auto
  then have "in_unit (fl (r / w))" using assms(3) by (intro in_unit_fl) auto
  then show ?thesis using r(1) assms(3) by simp
qed

lemma hit_span: "8556839292003942 / 2 ^ 53 - 6305039478318694 / 2 ^ 53 \<le> (1 / 4 :: real)"
  and new_span: "1 / 2 - 7205759403792794 / 2 ^ 56 \<le> (7205759403792794 / 2 ^ 54 :: real)" "0 < (7205759403792794 / 2 ^ 54 :: real)"
  by simp_all

lemma hitRateScore_range: "hitRateScore x = NaN \<and> x = NaN \<or> in_unit (hitRateScore x)"
proof -
  have q: "is_f64 (1 / 4)" using is_f64_powi [of "- 2"] unfolding powi_neg_2 by simp
  have q': "fl (25 / 100) = Fin (1 / 4)" using fl_id [OF q] by simp
  obtain a b where k: "fl (95 / 100) = Fin a" "fl (70 / 100) = Fin b" "a - b \<le> 1 / 4"
    using fl_consts(1,2) hit_span by metis
  have "in_unit (f_div (fl (a - r)) (Fin (1 / 4)))" if "b < r" "r < a" for r
    using that k(3) by (intro scaled_unit [OF _ _ _ q]) simp_all
  moreover have "hitRateScore x = (if f_le (Fin a) x then Fin 0 else if f_le x (Fin b) then Fin 1 else f_div (f_sub (Fin a) x) (Fin (1 / 4)))"
    unfolding hitRateScore_def k q' ..
  ultimately show ?thesis by (cases x) (auto simp: f_sub_def in_unit_iff)
qed

lemma newKeysScore_range: "newKeysScore x = NaN \<and> x = NaN \<or> in_unit (newKeysScore x)"
proof -
  obtain h where h: "fl (5 / 10) = Fin h" "h \<le> 1 / 2"
    using fl_bracket [OF is_f64_0, of "1 / 2" "5 / 10"] is_f64_powi [of "- 1"] by (auto simp: power_int_minus)
  obtain a w where k: "fl (1 / 10) = Fin a" "fl (4 / 10) = Fin w" "1 / 2 - a \<le> w" "0 < w"
    using fl_consts(3,4) new_span by metis
  have "in_unit (f_div (fl (r - a)) (Fin w))" if "a < r" "r < h" for r
    using that h(2) k(3,4) by (intro scaled_unit [OF _ _ _ fl_Fin [OF k(2)]]) simp_all
  moreover have "newKeysScore x = (if f_le (Fin h) x then Fin 1 else if f_le x (Fin a) then Fin 0 else f_div (f_sub x (Fin a)) (Fin w))"
    unfolding newKeysScore_def h k ..
  ultimately show ?thesis by (cases x) (auto simp: f_sub_def in_unit_iff)
qed

lemma evictionPressureScore_range: "evictionPressureScore x = NaN \<and> x = NaN \<or> in_unit (evictionPressureScore x)"
proof -
  have f: "is_f64 90" using is_f64_int [of 90] by simp
  have "in_unit (f_div (fl (r - 10)) (Fin 90))" if "10 < r" "r < 100" for r
    using that by (intro scaled_unit [OF _ _ _ f]) simp_all
  then show ?thesis by (cases x) (auto simp: evictionPressureScore_def f_sub_def in_unit_iff)
qed

text \<open>The penalty only adds up negative amounts, none of them a NaN.\<close>

lemma sub_nonpos: "f_le x (Fin 0) \<Longrightarrow> f_le (Fin 0) y \<Longrightarrow> f_le (f_sub x y) (Fin 0)"
proof -
  have "f_le (fl (a - b)) (Fin 0)" if "a \<le> 0" "0 \<le> b" for a b :: real using that by (intro fl_le [OF is_f64_0]) simp
  then show "f_le x (Fin 0) \<Longrightarrow> f_le (Fin 0) y \<Longrightarrow> f_le (f_sub x y) (Fin 0)"
    by (cases x; cases y) (auto simp: f_sub_def)
qed

lemma excess_nonneg: "f_lt (Fin c) x \<Longrightarrow> f_le (Fin 0) (f_sub x (Fin c))"
proof -
  have "f_le (Fin 0) (fl (a - c))" if "c < a" for a using that by (intro fl_ge [OF is_f64_0]) simp
  then show "f_lt (Fin c) x \<Longrightarrow> f_le (Fin 0) (f_sub x (Fin c))" by (cases x) (auto simp: f_sub_def f_lt_def)
qed

lemma div_nonneg: "f_le (Fin 0) x \<Longrightarrow> 0 < d \<Longrightarrow> f_le (Fin 0) (f_div x (Fin d))"
proof -
  have "f_le (Fin 0) (fl (a / d))" if "0 \<le> a" "0 < d" for a using that by (intro fl_ge [OF is_f64_0]) simp
  then show "f_le (Fin 0) x \<Longrightarrow> 0 < d \<Longrightarrow> f_le (Fin 0) (f_div x (Fin d))" by (cases x) auto
qed

lemma over_usage_nonpos: "f_le sc (Fin 0) \<Longrightarrow> f_le (over_usage u sc) (Fin 0)"
proof -
  obtain c8 c2 where c: "fl (8 / 10) = Fin c8" "fl (2 / 10) = Fin c2" "1 / 32 \<le> c2"
    using fl_unit [of "8 / 10"] fl_bracket [OF is_f64_powi [of "- 5"] is_f64_1, of "2 / 10"] unfolding powi_neg_2 by auto
  have "over_usage u sc = (if f_lt (Fin c8) u then f_sub sc (f_div (f_sub u (Fin c8)) (Fin c2)) else sc)"
    unfolding over_usage_def c(1,2) ..
  then show "f_le sc (Fin 0) \<Longrightarrow> f_le (over_usage u sc) (Fin 0)"
    using c(3) excess_nonneg [of c8 u] div_nonneg [of "f_sub u (Fin c8)" c2] sub_nonpos by simp
qed

lemma over_rewrite_nonpos: "f_le sc (Fin 0) \<Longrightarrow> f_le (over_rewrite b sc) (Fin 0)"
  using excess_nonneg [of 512 "f_div b (Fin (1024 * 1024))"] div_nonneg [of "f_sub (f_div b (Fin (1024 * 1024))) (Fin 512)" 512]
  by (auto simp: over_rewrite_def Let_def intro: sub_nonpos simp del: f_div.simps)

lemma over_clients_nonpos: "f_le sc (Fin 0) \<Longrightarrow> f_le (over_clients n sc) (Fin 0)"
  using fl_ge [OF is_f64_0, of "of_int n"] div_nonneg [of "fl (of_int n)" 10] div_nonneg [of "Fin 10" 10]
  by (auto simp: over_clients_def Let_def simp del: f_div.simps intro!: sub_nonpos)

lemma bufferPenalty_range: "f_le (Fin (- 1)) (bufferPenalty stats) \<and> f_le (bufferPenalty stats) (Fin 0)"
proof -
  define sc where "sc = over_clients (ws_LargeInputBufClients stats) (over_rewrite (ws_AofRewriteBufferSize stats)
    (over_usage (ws_ReplBacklogUsage stats) (over_usage (ws_ClientOutputBufferUsage stats) (Fin 0))))"
  have "f_le sc (Fin 0)" unfolding sc_def by (intro over_clients_nonpos over_rewrite_nonpos over_usage_nonpos) simp
  moreover have "bufferPenalty stats = (if f_lt sc (Fin (- 1)) then Fin (- 1) else sc)" by (simp add: bufferPenalty_def Let_def sc_def)
  ultimately show ?thesis by (cases sc) (auto simp: f_lt_def)
qed


section \<open>Decisions\<close>

lemma GetRecent_returns: "0 \<le> n \<Longrightarrow> \<exists>r. GetRecent m n = Ret r"
  by (auto simp: GetRecent_def Let_def)

lemma Decide_returns: "\<exists>d sc. Decide stats m weights = Ret (d, sc)"
proof -
  obtain r where "GetRecent m (int consecutiveWindows + 1) = Ret r" using GetRecent_returns [of "int consecutiveWindows + 1" m] by auto
  then have "Decide stats m weights \<noteq> Panic" by (simp add: Decide_def Let_def)
  then show ?thesis by (cases "Decide stats m weights") auto
qed

lemma suppressed_low:
  assumes "ws_RehashActive stats \<or> ws_MigrationActive stats"
  shows "\<not> f_lt (fl migrateThreshold) (Decide_score stats weights)"
proof -
  have "f_le (fl migrationSuppressionFactor) (fl migrateThreshold)"
    by (rule fl_mono) (simp add: migrationSuppressionFactor_def migrateThreshold_def)
  then have "Decide_score stats weights = NaN \<or> f_le (Decide_score stats weights) (fl migrateThreshold)"
    using damped_range assms f_le_trans unfolding Decide_score_def by blast
  then show ?thesis unfolding f_lt_def by auto
qed

lemma Decide_migrate:
  assumes "Decide stats m weights = Ret (DecisionMigrate, sc)"
  shows "f_lt (fl migrateThreshold) sc \<and> sc = Decide_score stats weights \<and>
    (\<forall>recent. GetRecent m 3 = Ret (Some recent) \<longrightarrow> 3 \<le> length recent \<longrightarrow>
       \<not> f_le (recomputeScore (recent ! 0) weights) (fl migrateThreshold) \<and>
       \<not> f_le (recomputeScore (recent ! 1) weights) (fl migrateThreshold))"
  using assms by (auto simp: Decide_def Let_def consecutiveWindows_def numeral_2_eq_2 numeral_3_eq_3 split: if_splits)

definition demo_stats :: window_stats where
  "demo_stats = \<lparr>ws_MemUsageRatio = Fin 0, ws_MemGrowthRate = Fin 1, ws_KeysGrowthRate = Fin 0, ws_HitRate = Fin 1,
     ws_EvictionsPerSec = Fin 0, ws_AvgEvictedIdle = Fin 0, ws_NewKeysRate = Fin 0, ws_ReadWriteRatio = Fin 0, ws_CPUUtil = Fin 0,
     ws_DiskIOPressure = Fin 0, ws_NetUtil = Fin 0, ws_RehashActive = False, ws_RehashTempMem = Fin 0, ws_MigrationActive = False,
     ws_ClientOutputBufferUsage = Fin 0, ws_ReplBacklogUsage = Fin 0, ws_AofRewriteBufferSize = Fin 0, ws_LargeInputBufClients = 0,
     ws_CurrentEvictionPolicy = PolicyLRU, ws_PIDSetpointDeviation = Fin 0\<rparr>"

definition growth_only :: "real \<Rightarrow> score_weights" where
  "growth_only w = \<lparr>wt_MemGrowth = Fin w, wt_HitRate = Fin 0, wt_NewKeys = Fin 0, wt_EvictionPressure = Fin 0, wt_BufferPenalty = Fin 0\<rparr>"

lemma fl_ints: "fl 0 = Fin 0" "fl 1 = Fin 1"
  using fl_id is_f64_0 is_f64_1 by auto

lemma not_over_8: "\<not> f_lt (fl (8 / 10)) (Fin 0)" "\<not> f_lt (fl (80 / 100)) (Fin 0)"
  using fl_ge [OF is_f64_0, of "8 / 10"] fl_ge [OF is_f64_0, of "80 / 100"] unfolding f_lt_def by simp_all

lemma nothing_over: "over_usage (Fin 0) sc = sc" "over_rewrite (Fin 0) sc = sc" "over_clients 0 sc = sc"
  using not_over_8 by (simp_all add: over_usage_def over_rewrite_def over_clients_def fl_ints) (simp add: f_lt_def)

lemma demo_calm: "bufferPenalty demo_stats = Fin 0" "\<not> isFalsePressure demo_stats"
proof -
  show "bufferPenalty demo_stats = Fin 0" by (simp add: bufferPenalty_def demo_stats_def nothing_over Let_def) (simp add: f_lt_def)
  show "\<not> isFalsePressure demo_stats"
    unfolding isFalsePressure_def demo_stats_def using not_over_8(2) by (simp add: f_lt_def)
qed

lemma demo_score:
  assumes "0 \<le> w" "w \<le> 1" "is_f64 w"
  shows "Decide_score demo_stats (growth_only w) = Fin w" "recomputeScore demo_stats (growth_only w) = Fin w"
proof -
  have "memGrowthScore (Fin 1) = Fin 1" "hitRateScore (Fin 1) = Fin 0"
    using fl_le [OF is_f64_1, of "5 / 100"] fl_le [OF is_f64_1, of "95 / 100"] unfolding memGrowthScore_def hitRateScore_def by simp_all
  moreover obtain c1 c5 where c: "fl (1 / 10) = Fin c1" "0 \<le> c1" "fl (5 / 10) = Fin c5" "1 / 4 \<le> c5"
    using fl_unit [of "1 / 10"] fl_bracket [OF is_f64_powi [of "- 2"] is_f64_1, of "5 / 10"] unfolding powi_neg_2 by auto
  moreover have "newKeysScore (Fin 0) = Fin 0" unfolding newKeysScore_def c(1,3) using c(2,4) by simp
  moreover have "evictionPressureScore (Fin 0) = Fin 0" "keysGrowthScore (Fin 0) = Fin 0"
    by (simp_all add: evictionPressureScore_def keysGrowthScore_def)
  moreover obtain c8 where c8: "fl (8 / 10) = Fin c8" using fl_unit [of "8 / 10"] by auto
  ultimately have "weighted (Fin 0) demo_stats (growth_only w) = Fin w"
    unfolding weighted_def Let_def c8
    by (simp add: demo_stats_def growth_only_def fl_ints fl_id [OF assms(3)] f_max_def f_lt_def)
  then have "damped demo_stats (weighted (Fin 0) demo_stats (growth_only w)) = Fin w"
    using assms demo_calm(2) by (simp add: damped_def clamp01_def f_lt_def) (simp add: demo_stats_def)
  then show "Decide_score demo_stats (growth_only w) = Fin w" "recomputeScore demo_stats (growth_only w) = Fin w"
    by (simp_all add: Decide_score_def recomputeScore_def demo_calm)
qed

lemma threshold_below: "f_lt (fl migrateThreshold) (Fin 1)" "\<not> f_lt (fl migrateThreshold) (Fin 0)"
proof -
  obtain c where c: "fl migrateThreshold = Fin c" "0 \<le> c" using fl_unit [of migrateThreshold] by (auto simp: migrateThreshold_def)
  have "fl (70 / 100) = Fin (6305039478318694 / 2 ^ 53)" by (rule fl_consts)
  moreover have "f_le (fl migrateThreshold) (fl (70 / 100))" by (rule fl_mono) (simp add: migrateThreshold_def)
  ultimately have "c \<le> 6305039478318694 / 2 ^ 53" unfolding c(1) by (metis f_le.simps(1))
  then have "c < 1" by (rule le_less_trans) simp
  then show "f_lt (fl migrateThreshold) (Fin 1)" "\<not> f_lt (fl migrateThreshold) (Fin 0)" using c by (auto simp: f_lt_def)
qed



text \<open>The decisions of a run of ticks.\<close>

fun decisions :: "score_weights \<Rightarrow> (window_stats \<times> bool) list \<Rightarrow> window_stats matrix \<Rightarrow> decision list" where
  "decisions weights [] m = []"
| "decisions weights ((stats, room) # ts) m =
     (case Decide stats (fm_Push stats m) weights of
        Ret (d, _) \<Rightarrow> d # decisions weights ts (fm_Push stats m)
      | Panic \<Rightarrow> [])"

lemma remdups_adj_snoc: "remdups_adj (xs @ [x]) = (if xs \<noteq> [] \<and> last xs = x then remdups_adj xs else remdups_adj xs @ [x])"
  by (induction xs rule: remdups_adj.induct) auto

lemma run_decisions:
  assumes "\<forall>t\<in>set ticks. snd t" "map ev_Decision (lp_emitted lp) = remdups_adj ds" "lp_prev lp = (if ds = [] then None else Some (last ds))"
  shows "\<exists>lp'. RunDecisionLoop weights ticks lp = Ret lp' \<and>
    map ev_Decision (lp_emitted lp') = remdups_adj (ds @ decisions weights ticks (lp_matrix lp))"
  using assms
proof (induction ticks arbitrary: lp ds)
  case (Cons t ticks)
  obtain stats where t: "t = (stats, True)" using Cons.prems(1) by (cases t) auto
  obtain d sc where d: "Decide stats (fm_Push stats (lp_matrix lp)) weights = Ret (d, sc)" using Decide_returns by blast
  define lp1 where "lp1 = (if Some d \<noteq> lp_prev lp
    then lp\<lparr>lp_matrix := fm_Push stats (lp_matrix lp), lp_prev := Some d,
            lp_emitted := lp_emitted lp @ [\<lparr>ev_Decision = d, ev_Score = sc, ev_WindowStats = stats\<rparr>]\<rparr>
    else lp\<lparr>lp_matrix := fm_Push stats (lp_matrix lp)\<rparr>)"
  have step: "decision_tick weights t lp = Ret lp1" using t d by (simp add: decision_tick_def Let_def lp1_def)
  have "map ev_Decision (lp_emitted lp1) = remdups_adj (ds @ [d])" "lp_prev lp1 = Some (last (ds @ [d]))"
    "lp_matrix lp1 = fm_Push stats (lp_matrix lp)"
    using Cons.prems(2,3) by (auto simp: lp1_def remdups_adj_snoc split: if_splits)
  then show ?case using Cons.IH [of lp1 "ds @ [d]"] Cons.prems(1) step t d by simp
qed simp

text \<open>The loop reports changes of the decision, and only those: as long as the channel has room the decisions it emits are the
  decisions of all ticks without immediate repetitions, and the loop never fails.\<close>

theorem decision_loop_reports_changes:
  assumes "\<forall>t\<in>set ticks. snd t"
  shows "\<exists>lp. RunDecisionLoop weights ticks \<lparr>lp_matrix = m, lp_prev = None, lp_emitted = []\<rparr> = Ret lp \<and>
    map ev_Decision (lp_emitted lp) = remdups_adj (decisions weights ticks m)"
  using run_decisions [OF assms, of "\<lparr>lp_matrix = m, lp_prev = None, lp_emitted = []\<rparr>" "[]"] by auto

theorem decision_loop_reports_changes_witness:
  "\<exists>lp. RunDecisionLoop (growth_only 0) [(demo_stats, True), (demo_stats, True)]
      \<lparr>lp_matrix = NewFeatureMatrix 60, lp_prev = None, lp_emitted = []\<rparr> = Ret lp \<and> map ev_Decision (lp_emitted lp) = [DecisionEvict]"
proof -
  have "Decide demo_stats m (growth_only 0) = Ret (DecisionEvict, Fin 0)" for m
    using demo_score(1) [of 0, OF _ _ is_f64_0] threshold_below(2) by (simp add: Decide_def)
  then have "decisions (growth_only 0) [(demo_stats, True), (demo_stats, True)] (NewFeatureMatrix 60) = [DecisionEvict, DecisionEvict]" by simp
  with decision_loop_reports_changes [of "[(demo_stats, True), (demo_stats, True)]" "growth_only 0" "NewFeatureMatrix 60"]
  show ?thesis by simp
qed

text \<open>The output of the controller is clamped: for a positive time step it is between the configured bounds, or not a number.\<close>

theorem pid_clamped:
  assumes "f_lt (Fin 0) dt" "f_le (pid_outputMin p) (pid_outputMax p)"
  shows "let out = snd (pid_Compute measured dt p) in out = NaN \<or> f_le (pid_outputMin p) out \<and> f_le out (pid_outputMax p)"
proof -
  have dt: "\<not> f_le dt (Fin 0)" using assms(1) by (simp add: f_lt_def)
  have n: "pid_outputMin p \<noteq> NaN" "pid_outputMax p \<noteq> NaN" using assms(2) by auto
  have clamp: "f_le (pid_outputMin p) x \<and> f_le x (pid_outputMax p)"
    if "x \<noteq> NaN" "\<not> f_lt (pid_outputMax p) x" "\<not> f_lt x (pid_outputMin p)" for x
    using that n by (simp add: f_lt_not_le)
  show ?thesis using dt clamp assms(2) n by (auto simp: pid_Compute_def Let_def f_le_refl)
qed

theorem pid_clamped_witness:
  "let out = snd (pid_Compute (Fin 7) (Fin 1) (NewPIDController (Fin 1) (Fin 0) (Fin 0) (Fin 0) (Fin (- 1)) (Fin 1)))
   in out = NaN \<or> f_le (Fin (- 1)) out \<and> f_le out (Fin 1)"
  using pid_clamped [of "Fin 1" "NewPIDController (Fin 1) (Fin 0) (Fin 0) (Fin 0) (Fin (- 1)) (Fin 1)" "Fin 7"]
  by (simp add: NewPIDController_def f_lt_def)

end
