(* ===== verification/Migrator.thy ===== *)
theory Migrator
  imports Scorecard Cache_Run
begin

text \<open>
  \<^verbatim>\<open>mbr/migrator.go\<close>, \<^verbatim>\<open>mbr/collector.go\<close> and the executor loop of \<^verbatim>\<open>mbr/loop.go\<close>: the number of shards to migrate to, the migration
  itself on the cache of \<^verbatim>\<open>cache.go\<close>, and the statistics the decisions are made from.  A conversion of a float that does not
  fit an \<^verbatim>\<open>int\<close> gives the smallest integer, as on amd64.
\<close>

section \<open>Configuration and the monitor\<close>

record migrator_config =
  mg_MaxMigrationTime :: int
  mg_PauseOnCPUThreshold :: f64
  mg_PauseOnMemThreshold :: f64
  mg_TargetLoadPerShard :: int
  mg_MinShards :: int
  mg_MaxShards :: int

definition DefaultMigratorConfig :: migrator_config where
  "DefaultMigratorConfig = \<lparr>mg_MaxMigrationTime = 300000000000, mg_PauseOnCPUThreshold = fl (80 / 100),
     mg_PauseOnMemThreshold = fl (85 / 100), mg_TargetLoadPerShard = 512, mg_MinShards = 4, mg_MaxShards = 1024\<rparr>"

text \<open>Of a snapshot the engine reads the percentages of processor and memory and the rates of disks and networks.\<close>

type_synonym sysmon = "(f64, f64, f64 \<times> f64, f64 \<times> f64) snapshot monitor"

definition shouldPause :: "migrator_config \<Rightarrow> sysmon option \<Rightarrow> bool" where
  "shouldPause cfg mon =
     (case mon of
        None \<Rightarrow> False
      | Some m \<Rightarrow>
          (case mon_Latest m of
             None \<Rightarrow> False
           | Some snap \<Rightarrow>
               (case sn_CPU snap of Some cpu \<Rightarrow> f_lt (f_mul (mg_PauseOnCPUThreshold cfg) (Fin 100)) cpu | None \<Rightarrow> False) \<or>
               (case sn_Memory snap of Some mem \<Rightarrow> f_lt (f_mul (mg_PauseOnMemThreshold cfg) (Fin 100)) mem | None \<Rightarrow> False)))"

section \<open>The number of shards\<close>

fun bits_Len :: "nat \<Rightarrow> nat" where
  "bits_Len n = (if n = 0 then 0 else Suc (bits_Len (n div 2)))"

declare bits_Len.simps [simp del]

definition nextPowerOfTwo :: "int \<Rightarrow> int" where
  "nextPowerOfTwo n = (if n \<le> 1 then 1 else i64 (2 ^ bits_Len (nat (n - 1))))"

fun f_to_int :: "f64 \<Rightarrow> int" where
  "f_to_int (Fin r) = (let t = (if r < 0 then \<lceil>r\<rceil> else \<lfloor>r\<rfloor>) in if in_i64 t then t else - (2 ^ 63))"
| "f_to_int _ = - (2 ^ 63)"

definition effective_load :: "migrator_config \<Rightarrow> sysmon option \<Rightarrow> int" where
  "effective_load cfg mon =
     (let load = mg_TargetLoadPerShard cfg in
      case mon of
        None \<Rightarrow> load
      | Some m \<Rightarrow>
          (case mon_Latest m of
             None \<Rightarrow> load
           | Some snap \<Rightarrow>
               (case sn_Memory snap of
                  None \<Rightarrow> load
                | Some used \<Rightarrow>
                    let memRatio = f_div used (Fin 100) in
                    if f_lt (fl (60 / 100)) memRatio
                    then let pressure = f_div (f_sub memRatio (fl (60 / 100))) (fl (40 / 100));
                             adjusted = f_to_int (f_mul (fl (of_int load)) (f_sub (Fin 1) (f_mul pressure (fl (75 / 100)))))
                         in if adjusted < 64 then 64 else adjusted
                    else load)))"

definition calculateTargetShards :: "migrator_config \<Rightarrow> sysmon option \<Rightarrow> int \<Rightarrow> int go" where
  "calculateTargetShards cfg mon currentKeys =
     (let load = effective_load cfg mon in
      if load = 0 then Panic
      else
        let target = go_div currentKeys load;
            target = (if target < mg_MinShards cfg then mg_MinShards cfg else target);
            target = (if target > mg_MaxShards cfg then mg_MaxShards cfg else target)
        in Ret (nextPowerOfTwo target))"

section \<open>A migration\<close>

datatype migration_state = MigrationIdle | MigrationRunning | MigrationPaused | MigrationCompleted

record executor =
  ex_State :: migration_state
  ex_OldShards :: int
  ex_NewShards :: int
  ex_PauseReason :: gostring

definition NewMigrationExecutor :: executor where
  "NewMigrationExecutor = \<lparr>ex_State = MigrationIdle, ex_OldShards = 0, ex_NewShards = 0, ex_PauseReason = ''''\<rparr>"

definition IsActive :: "executor \<Rightarrow> bool" where
  "IsActive ex \<longleftrightarrow> ex_State ex = MigrationRunning \<or> ex_State ex = MigrationPaused"

definition updateProgress :: "migration_state \<Rightarrow> gostring \<Rightarrow> executor \<Rightarrow> executor" where
  "updateProgress st reason ex = ex\<lparr>ex_State := st, ex_PauseReason := reason\<rparr>"

definition force_key :: gostring where
  "force_key = ''__mbr_force_complete__''"

text \<open>\<open>envs\<close> is what the calls of \<^verbatim>\<open>Get\<close> find: the clock and the iteration orders.  Not returning is \<open>None\<close>.\<close>

definition get_next :: "env \<Rightarrow> cache \<Rightarrow> cache go" where
  "get_next e c = go_bind (Cache_Get e c force_key) (\<lambda>(c, _). Ret c)"

fun go_value :: "cache go \<Rightarrow> cache option" where
  "go_value (Ret c) = Some c"
| "go_value Panic = None"

partial_function (option) forceComplete :: "(nat \<Rightarrow> env) \<Rightarrow> nat \<Rightarrow> cache \<Rightarrow> cache go option" where
  "forceComplete envs i c =
     (if \<not> Cache_IsRehashing c then Some (Ret c)
      else case go_value (get_next (envs i) c) of
             None \<Rightarrow> Some Panic
           | Some c \<Rightarrow> forceComplete envs (Suc i) c)"

datatype started = NothingToDo | StartFailed gerror | Started int int

definition Execute_start ::
  "env \<Rightarrow> migrator_config \<Rightarrow> sysmon option \<Rightarrow> cache \<times> executor \<times> bool \<Rightarrow> ((cache \<times> executor \<times> bool) \<times> started) go" where
  "Execute_start e cfg mon = (\<lambda>(c, ex, migrationActive).
     if Cache_IsRehashing c then Ret ((c, ex, migrationActive), NothingToDo)
     else go_bind (Cache_Len e c) (\<lambda>currentKeys.
          go_bind (calculateTargetShards cfg mon currentKeys) (\<lambda>targetShards.
            if targetShards \<le> ShardCount c then Ret ((c, ex, migrationActive), NothingToDo)
            else Ret (case Resize e c targetShards of
                        (c', Inl err) \<Rightarrow> ((c', ex, migrationActive), StartFailed err)
                      | (c', Inr _) \<Rightarrow> ((c', updateProgress MigrationRunning '''' ex, True), Started (ShardCount c) targetShards)))))"

datatype exec_status = Waiting | Finished | Cancelled

text \<open>A tick of the progress loop and the check that follows it.  \<open>resumed\<close> says how a pause ended: the pressure went, or the
  context was cancelled.\<close>

definition Execute_tick ::
  "migrator_config \<Rightarrow> sysmon option \<Rightarrow> bool \<Rightarrow> int \<Rightarrow> (nat \<Rightarrow> env) \<Rightarrow> int \<Rightarrow> int \<Rightarrow> cache \<times> executor \<times> bool \<Rightarrow>
    ((cache \<times> executor \<times> bool) \<times> exec_status) go option" where
  "Execute_tick cfg mon resumed elapsed envs currentShards targetShards = (\<lambda>(c, ex, migrationActive).
     let paused = shouldPause cfg mon in
     if paused \<and> \<not> resumed
     then Some (Ret ((c, updateProgress MigrationPaused ''system_overload'' ex, False), Cancelled))
     else
       let ex = (if paused then updateProgress MigrationRunning '''' (updateProgress MigrationPaused ''system_overload'' ex) else ex);
           r = (if elapsed > mg_MaxMigrationTime cfg then forceComplete envs 0 c else Some (Ret c))
       in map_option (\<lambda>r. go_bind r (\<lambda>c.
            Ret (if Cache_IsRehashing c then ((c, ex, migrationActive), Waiting)
                 else ((c, ex\<lparr>ex_State := MigrationCompleted, ex_OldShards := currentShards, ex_NewShards := targetShards,
                             ex_PauseReason := ''''\<rparr>, False), Finished)))) r)"

text \<open>The context is cancelled between two ticks.\<close>

definition Execute_cancel :: "cache \<times> executor \<times> bool \<Rightarrow> (cache \<times> executor \<times> bool) \<times> exec_status" where
  "Execute_cancel = (\<lambda>(c, ex, migrationActive). ((c, ex, False), Cancelled))"

text \<open>What the executor loop does with an event before it runs a migration.\<close>

definition accepts_event :: "decision_event \<Rightarrow> cache \<Rightarrow> executor \<Rightarrow> bool" where
  "accepts_event ev c ex \<longleftrightarrow> ev_Decision ev = DecisionMigrate \<and> \<not> Cache_IsRehashing c \<and> \<not> IsActive ex"

section \<open>Statistics\<close>

record provider =
  pv_hits :: int
  pv_misses :: int
  pv_sets :: nat
  pv_evictions :: int
  pv_evictIdle :: int
  pv_evictCnt :: nat
  pv_migrationActive :: bool
  pv_prevKeys :: int
  pv_prevHit :: int
  pv_prevMiss :: int
  pv_prevEvict :: int
  pv_prevSets :: nat
  pv_smoothedMemGrowth :: f64
  pv_lastMemRatio :: f64
  pv_lastMemUpdateTime :: int
  pv_memRatioInitialized :: bool
  pv_lastCollect :: int
  pv_pid :: "pid option"

definition NewDefaultStatsProvider :: "int \<Rightarrow> pid option \<Rightarrow> provider" where
  "NewDefaultStatsProvider now p =
     \<lparr>pv_hits = 0, pv_misses = 0, pv_sets = 0, pv_evictions = 0, pv_evictIdle = 0, pv_evictCnt = 0, pv_migrationActive = False,
      pv_prevKeys = 0, pv_prevHit = 0, pv_prevMiss = 0, pv_prevEvict = 0, pv_prevSets = 0, pv_smoothedMemGrowth = Fin 0,
      pv_lastMemRatio = Fin 0, pv_lastMemUpdateTime = 0, pv_memRatioInitialized = False, pv_lastCollect = now, pv_pid = p\<rparr>"

text \<open>The observer that feeds the counters.\<close>

fun provider_observe :: "cache_event \<Rightarrow> provider \<Rightarrow> provider" where
  "provider_observe (OnHit k) p = p\<lparr>pv_hits := i64 (pv_hits p + 1)\<rparr>"
| "provider_observe (OnMiss k) p = p\<lparr>pv_misses := i64 (pv_misses p + 1)\<rparr>"
| "provider_observe (OnSet k) p = p\<lparr>pv_sets := (pv_sets p + 1) mod 2 ^ 64\<rparr>"
| "provider_observe (OnDel k) p = p"
| "provider_observe (OnEvict k) p = p\<lparr>pv_evictions := i64 (pv_evictions p + 1), pv_evictCnt := (pv_evictCnt p + 1) mod 2 ^ 64\<rparr>"
| "provider_observe (OnRehashStart a b) p = p"
| "provider_observe OnRehashDone p = p"

text \<open>\<^verbatim>\<open>time.Duration.Seconds\<close>.\<close>

definition seconds :: "int \<Rightarrow> f64" where
  "seconds d = f_add (fl (of_int (go_div d 1000000000))) (f_div (fl (of_int (d - go_div d 1000000000 * 1000000000))) (Fin 1000000000))"

definition int_f64 :: "int \<Rightarrow> f64" where
  "int_f64 n = fl (of_int n)"

definition cache_stats :: "f64 \<Rightarrow> int \<Rightarrow> provider \<Rightarrow> window_stats \<Rightarrow> provider \<times> window_stats" where
  "cache_stats dt currentKeys p stats =
     (let keyDelta = i64 (currentKeys - pv_prevKeys p);
          keyDelta = (if keyDelta < 0 then 0 else keyDelta);
          stats = stats\<lparr>ws_KeysGrowthRate := f_div (int_f64 keyDelta) dt\<rparr>;
          h = pv_hits p; m = pv_misses p; totalAccess = i64 (h + m);
          totalDelta = i64 (i64 (h - pv_prevHit p) + i64 (m - pv_prevMiss p));
          stats = (if totalAccess > 0 then stats\<lparr>ws_HitRate := f_div (int_f64 h) (int_f64 totalAccess)\<rparr> else stats);
          eCurr = pv_evictions p;
          stats = (if f_lt (Fin 0) dt then stats\<lparr>ws_EvictionsPerSec := f_div (int_f64 (i64 (eCurr - pv_prevEvict p))) dt\<rparr> else stats);
          stats = (if pv_evictCnt p > 0
                   then stats\<lparr>ws_AvgEvictedIdle := f_div (f_div (int_f64 (pv_evictIdle p)) (int_f64 (int (pv_evictCnt p)))) (Fin 1000000000)\<rparr>
                   else stats);
          s = pv_sets p; sDelta = (int s - int (pv_prevSets p)) mod 2 ^ 64;
          stats = (if totalDelta > 0 then stats\<lparr>ws_NewKeysRate := f_div (int_f64 sDelta) (int_f64 totalDelta)\<rparr>
                   else if sDelta > 0 then stats\<lparr>ws_NewKeysRate := Fin 1\<rparr> else stats);
          reads = i64 (totalDelta - i64 sDelta);
          stats = (if s > 0 \<and> reads > 0 then stats\<lparr>ws_ReadWriteRatio := f_div (int_f64 reads) (int_f64 sDelta)\<rparr> else stats)
      in (p\<lparr>pv_prevKeys := currentKeys, pv_prevHit := h, pv_prevMiss := m, pv_prevEvict := eCurr, pv_prevSets := s\<rparr>, stats))"

definition memory_stats :: "int \<Rightarrow> f64 \<Rightarrow> provider \<Rightarrow> window_stats \<Rightarrow> provider \<times> window_stats" where
  "memory_stats now used p stats =
     (let newRatio = f_div used (Fin 100);
          stats = stats\<lparr>ws_MemUsageRatio := newRatio\<rparr>;
          elapsed = seconds (now - pv_lastMemUpdateTime p);
          p = (if pv_memRatioInitialized p
               then (if \<not> (f_le newRatio (pv_lastMemRatio p) \<and> f_le (pv_lastMemRatio p) newRatio) \<and> f_lt (Fin 0) elapsed
                     then p\<lparr>pv_smoothedMemGrowth := f_div (f_sub newRatio (pv_lastMemRatio p)) elapsed,
                            pv_lastMemRatio := newRatio, pv_lastMemUpdateTime := now\<rparr>
                     else p)
               else p\<lparr>pv_lastMemRatio := newRatio, pv_lastMemUpdateTime := now, pv_memRatioInitialized := True\<rparr>)
      in (p, stats\<lparr>ws_MemGrowthRate := pv_smoothedMemGrowth p\<rparr>))"

definition sum_rates :: "(f64 \<times> f64) list \<Rightarrow> f64" where
  "sum_rates rs = f_add (fold (\<lambda>r t. f_add t (fst r)) rs (Fin 0)) (fold (\<lambda>r t. f_add t (snd r)) rs (Fin 0))"

definition resource_stats :: "int \<Rightarrow> sysmon \<Rightarrow> provider \<Rightarrow> window_stats \<Rightarrow> provider \<times> window_stats" where
  "resource_stats now mon p stats =
     (case mon_Latest mon of
        None \<Rightarrow> (p, stats)
      | Some snap \<Rightarrow>
          let stats = (case sn_CPU snap of Some cpu \<Rightarrow> stats\<lparr>ws_CPUUtil := f_div cpu (Fin 100)\<rparr> | None \<Rightarrow> stats);
              (p, stats) = (case sn_Memory snap of Some used \<Rightarrow> memory_stats now used p stats | None \<Rightarrow> (p, stats));
              stats = stats\<lparr>ws_DiskIOPressure := clamp01 (f_div (sum_rates (sn_IO snap)) (Fin (100 * 1024 * 1024)))\<rparr>
          in (p, stats\<lparr>ws_NetUtil := clamp01 (f_div (sum_rates (sn_Network snap)) (Fin (125 * 1024 * 1024)))\<rparr>))"

definition zero_stats :: window_stats where
  "zero_stats = \<lparr>ws_MemUsageRatio = Fin 0, ws_MemGrowthRate = Fin 0, ws_KeysGrowthRate = Fin 0, ws_HitRate = Fin 0,
     ws_EvictionsPerSec = Fin 0, ws_AvgEvictedIdle = Fin 0, ws_NewKeysRate = Fin 0, ws_ReadWriteRatio = Fin 0, ws_CPUUtil = Fin 0,
     ws_DiskIOPressure = Fin 0, ws_NetUtil = Fin 0, ws_RehashActive = False, ws_RehashTempMem = Fin 0, ws_MigrationActive = False,
     ws_ClientOutputBufferUsage = Fin 0, ws_ReplBacklogUsage = Fin 0, ws_AofRewriteBufferSize = Fin 0, ws_LargeInputBufClients = 0,
     ws_CurrentEvictionPolicy = PolicyUnknown, ws_PIDSetpointDeviation = Fin 0\<rparr>"

definition policy_stat :: "gostring \<Rightarrow> eviction_policy" where
  "policy_stat name = (if name = ''noop'' then PolicyNoop else if name = ''lru'' then PolicyLRU else if name = ''lfu'' then PolicyLFU
     else PolicyUnknown)"

definition GetLatestStats :: "env \<Rightarrow> cache \<Rightarrow> sysmon \<Rightarrow> provider \<Rightarrow> (provider \<times> window_stats) go" where
  "GetLatestStats e c mon p =
     go_bind (Cache_Len e c) (\<lambda>currentKeys.
       let now = e_now e;
           dt = seconds (now - pv_lastCollect p);
           dt = (if f_le dt (Fin 0) then Fin (1 / 2) else dt);
           (p, stats) = cache_stats dt currentKeys (p\<lparr>pv_lastCollect := now\<rparr>) zero_stats;
           (p, stats) = resource_stats now mon p stats;
           stats = stats\<lparr>ws_RehashActive := Cache_IsRehashing c, ws_MigrationActive := pv_migrationActive p,
             ws_CurrentEvictionPolicy := policy_stat (EvictionPolicy c)\<rparr>
       in Ret (case pv_pid p of
                 None \<Rightarrow> (p, stats)
               | Some pid \<Rightarrow>
                   (case pid_Compute (ws_MemUsageRatio stats) dt pid of (pid, dev) \<Rightarrow>
                      (p\<lparr>pv_pid := Some pid\<rparr>, stats\<lparr>ws_PIDSetpointDeviation := dev\<rparr>))))"

section \<open>The target is a valid number of shards\<close>

lemma bits_Len_bounds: "0 < n \<Longrightarrow> n < 2 ^ bits_Len n \<and> 2 ^ bits_Len n \<le> 2 * n"
proof (induction n rule: bits_Len.induct)
  case (1 n)
  show ?case
  proof (cases "n div 2 = 0")
    case True
    then have "n = 1" using 1(2) by simp
    then show ?thesis by (simp add: bits_Len.simps [of "Suc 0"] bits_Len.simps [of 0])
  next
    case False
    then have "n div 2 < 2 ^ bits_Len (n div 2) \<and> 2 ^ bits_Len (n div 2) \<le> 2 * (n div 2)" using 1 by simp
    moreover have "bits_Len n = Suc (bits_Len (n div 2))" using 1(2) by (subst bits_Len.simps) simp
    moreover have "n = 2 * (n div 2) + n mod 2" "n mod 2 < 2" by simp_all
    ultimately show ?thesis by (intro conjI) (simp only: power_Suc; linarith)+
  qed
qed

lemma nextPowerOfTwo_spec:
  assumes "1 \<le> n" "n \<le> 2 ^ 62"
  shows "\<exists>k. nextPowerOfTwo n = 2 ^ k \<and> n \<le> 2 ^ k \<and> 2 ^ k < 2 * n \<and> k \<le> 62"
proof (cases "n = 1")
  case True
  then show ?thesis by (intro exI [of _ 0]) (simp add: nextPowerOfTwo_def)
next
  case False
  let ?m = "nat (n - 1)"
  have "0 < ?m" using False assms(1) by simp
  then have b: "?m < 2 ^ bits_Len ?m" "2 ^ bits_Len ?m \<le> 2 * ?m" using bits_Len_bounds by blast+
  have i: "int (2 ^ bits_Len ?m) = 2 ^ bits_Len ?m" by simp
  have lo: "n \<le> 2 ^ bits_Len ?m" and hi: "2 ^ bits_Len ?m < 2 * n" using b assms(1) i by linarith+
  have "(2::int) ^ bits_Len ?m < 2 ^ 63" using hi assms(2) by (simp add: le_less_trans)
  then have "bits_Len ?m < 63" by (rule power_less_imp_less_exp [rotated]) simp
  moreover have "nextPowerOfTwo n = 2 ^ bits_Len ?m"
    using False assms(1) \<open>(2::int) ^ bits_Len ?m < 2 ^ 63\<close> by (simp add: nextPowerOfTwo_def in_i64_def order_trans [of _ 0])
  ultimately show ?thesis using lo hi by (intro exI [of _ "bits_Len ?m"]) simp
qed

lemma power_not_bad: "\<not> bad_shards (2 ^ k)"
proof -
  have "(2::int) ^ k AND (2 ^ k - 1) = take_bit k (2 ^ k)" by (simp add: take_bit_eq_mask mask_eq_exp_minus_1)
  also have "\<dots> = 0" by (simp add: take_bit_eq_mod)
  finally show ?thesis by (simp add: bad_shards_def)
qed

lemma effective_load_pos: "0 < mg_TargetLoadPerShard cfg \<Longrightarrow> 0 < effective_load cfg mon"
  by (auto simp: effective_load_def Let_def split: option.splits)

text \<open>(C17) The migrator always asks for a number of shards the cache accepts.  With a positive load per shard and ordered bounds, whatever
  the number of keys and whatever the monitor reports, the target is a power of two, at least the minimum and less than twice the
  maximum.\<close>

theorem target_is_valid:
  assumes "0 < mg_TargetLoadPerShard cfg" "1 \<le> mg_MinShards cfg" "mg_MinShards cfg \<le> mg_MaxShards cfg" "mg_MaxShards cfg \<le> 2 ^ 62"
  shows "\<exists>k. calculateTargetShards cfg mon keys = Ret (2 ^ k) \<and> \<not> bad_shards (2 ^ k) \<and> mg_MinShards cfg \<le> 2 ^ k \<and>
    2 ^ k < 2 * mg_MaxShards cfg"
proof -
  let ?t0 = "go_div keys (effective_load cfg mon)"
  define t where "t = (if (if ?t0 < mg_MinShards cfg then mg_MinShards cfg else ?t0) > mg_MaxShards cfg then mg_MaxShards cfg
    else (if ?t0 < mg_MinShards cfg then mg_MinShards cfg else ?t0))"
  have t: "mg_MinShards cfg \<le> t" "t \<le> mg_MaxShards cfg" using assms(3) by (auto simp: t_def)
  have r: "1 \<le> t" "t \<le> 2 ^ 62" using t assms(2,4) by linarith+
  obtain k where k: "nextPowerOfTwo t = 2 ^ k" "t \<le> 2 ^ k" "2 ^ k < 2 * t" using nextPowerOfTwo_spec [OF r] by blast
  have "calculateTargetShards cfg mon keys = Ret (2 ^ k)"
    using effective_load_pos [OF assms(1), of mon] k(1) by (simp add: calculateTargetShards_def Let_def t_def)
  then show ?thesis using k t power_not_bad by (intro exI [of _ k]) auto
qed

theorem target_is_valid_witness:
  "\<exists>k. calculateTargetShards DefaultMigratorConfig None 100000 = Ret (2 ^ k) \<and> \<not> bad_shards (2 ^ k) \<and> 4 \<le> (2::int) ^ k \<and>
    2 ^ k < (2048 :: int)"
  using target_is_valid [of DefaultMigratorConfig None 100000] by (simp add: DefaultMigratorConfig_def)

text \<open>Memory pressure is meant to lower the load per shard.  It is never lowered below 64, and a smaller configured load is raised.\<close>

lemma pressure_raises_small_load:
  assumes "mon_Latest m = Some snap" "sn_Memory snap = Some used" "f_lt (fl (60 / 100)) (f_div used (Fin 100))"
  shows "64 \<le> effective_load cfg (Some m)"
  using assms by (simp add: effective_load_def Let_def)

section \<open>A migration ends and keeps the data\<close>

lemma forceComplete_ends:
  assumes "cache_ok c" "\<And>j. env_ok (envs j) \<and> e_now (envs j) \<le> T"
  shows "\<exists>c'. forceComplete envs i c = Some (Ret c') \<and> \<not> Cache_IsRehashing c' \<and> cache_ok c' \<and> length (tbl c') = length (tbl c) \<and>
    fades T (maxSize (c_opts c) \<le> 0) (cache_view c) (cache_view c')"
  using assms(1)
proof (induction "rehasher_rank (c_rehasher c)" arbitrary: c i rule: less_induct)
  case less
  show ?case
  proof (cases "Cache_IsRehashing c")
    case False
    then show ?thesis using less.prems by (subst forceComplete.simps) simp
  next
    case True
    have wf: "cache_wf c" using less.prems by (simp add: cache_ok_def)
    have "force_key \<noteq> []" by (simp add: force_key_def)
    from Cache_Get_keeps [OF wf _ this, of "envs i"] assms(2) obtain c1 r where
      g: "Cache_Get (envs i) c force_key = Ret (c1, r)" and k: "op_keeps (e_now (envs i)) c (cache_view c) c1" by blast
    note ok = op_keeps_ok [OF less.prems k]
    have len: "length (tbl c1) = length (tbl c)"
      using k unfolding op_keeps_def same_shape_def frames_def by (metis length_map)
    have f: "fades T (maxSize (c_opts c) \<le> 0) (cache_view c) (cache_view c1)"
      using fades_later [OF ok(3)] assms(2) by blast
    have step: "forceComplete envs i c = forceComplete envs (Suc i) c1"
      using True g by (subst forceComplete.simps) (simp add: get_next_def)
    show ?thesis
    proof (cases "Cache_IsRehashing c1")
      case False
      then show ?thesis using ok(1) len f step by (subst step, subst forceComplete.simps) simp
    next
      case True
      then have "rehasher_rank (c_rehasher c1) < rehasher_rank (c_rehasher c)"
        using k by (simp add: op_keeps_def Cache_IsRehashing_def)
      from less.hyps [OF this ok(1), of "Suc i"] obtain c' where c': "forceComplete envs (Suc i) c1 = Some (Ret c')"
        "\<not> Cache_IsRehashing c'" "cache_ok c'" "length (tbl c') = length (tbl c1)"
        "fades T (maxSize (c_opts c1) \<le> 0) (cache_view c1) (cache_view c')" by blast
      have "fades T (maxSize (c_opts c) \<le> 0) (cache_view c) (cache_view c')" using fades_trans [OF f] c'(5) ok(2) by simp
      then show ?thesis using c' step len by auto
    qed
  qed
qed

lemma Execute_start_started:
  assumes "Execute_start e cfg mon (c, ex, act) = Ret ((c1, ex1, act1), Started old new)"
  shows "Resize e c new = (c1, Inr ())" "act1" "IsActive ex1" "old = ShardCount c" "old < new"
proof -
  obtain n where n: "Cache_Len e c = Ret n" "calculateTargetShards cfg mon n = Ret new" "\<not> Cache_IsRehashing c" "ShardCount c < new"
    and r: "(case Resize e c new of (c', Inl err) \<Rightarrow> ((c', ex, act), StartFailed err)
      | (c', Inr _) \<Rightarrow> ((c', updateProgress MigrationRunning [] ex, True), Started (ShardCount c) new)) = ((c1, ex1, act1), Started old new)"
    using assms by (auto simp: Execute_start_def split: if_splits prod.splits sum.splits)
  then show "Resize e c new = (c1, Inr ())" "act1" "IsActive ex1" "old = ShardCount c" "old < new"
    by (auto simp: IsActive_def updateProgress_def split: prod.splits sum.splits)
qed


definition demo_cfg :: migrator_config where
  "demo_cfg = \<lparr>mg_MaxMigrationTime = 10, mg_PauseOnCPUThreshold = Fin 1, mg_PauseOnMemThreshold = Fin 1, mg_TargetLoadPerShard = 64,
     mg_MinShards = 32, mg_MaxShards = 64\<rparr>"

lemma demo_start:
  "case Cache_New (env_at 0) NewOptions of
     Inl _ \<Rightarrow> False
   | Inr c \<Rightarrow> (case Execute_start (env_at 1) demo_cfg None (c, NewMigrationExecutor, False) of
                Panic \<Rightarrow> False | Ret ((c1, ex1, act1), r) \<Rightarrow> r = Started 16 32)"
  by code_simp


section \<open>Statistics that are not what they are called\<close>

text \<open>The mean idle time of evicted keys is 0, whatever is evicted: nothing ever adds to the counter it is computed from.\<close>

lemma observe_keeps_idle: "pv_evictIdle (fold provider_observe evs p) = pv_evictIdle p"
proof (induction evs arbitrary: p)
  case (Cons ev evs)
  have "pv_evictIdle (provider_observe ev p) = pv_evictIdle p" by (cases ev) simp_all
  then show ?case using Cons.IH by simp
qed simp

text \<open>Reads without a write in a window give an infinite read-write ratio once there has been any write.\<close>

lemma ratio_infinite:
  assumes "pv_prevSets p = pv_sets p" "0 < pv_sets p" "0 < i64 (i64 (pv_hits p - pv_prevHit p) + i64 (pv_misses p - pv_prevMiss p))"
  shows "ws_ReadWriteRatio (snd (cache_stats dt keys p stats)) = PInf"
proof -
  let ?d = "i64 (i64 (pv_hits p - pv_prevHit p) + i64 (pv_misses p - pv_prevMiss p))"
  have z: "(int (pv_sets p) - int (pv_prevSets p)) mod 2 ^ 64 = 0" "int_f64 0 = Fin 0" using assms(1) fl_ints by (simp_all add: int_f64_def)
  have "f_le (fl 1) (int_f64 ?d)" unfolding int_f64_def by (rule fl_mono) (use assms(3) in linarith)
  then have "f_div (int_f64 ?d) (Fin 0) = PInf" unfolding fl_ints by (cases "int_f64 ?d") (auto simp: f_inf_def)
  moreover have "i64 (?d - i64 0) = ?d" by (simp add: in_i64_def)
  ultimately show ?thesis using assms(2,3) z by (simp add: cache_stats_def Let_def)
qed

end
