(* ===== verification/Spec2Isabelle.thy ===== *)
theory Spec2Isabelle
  imports Cache_Limits Remote Raft_Logs Pipeline Failover Migrator
begin

text \<open>Verification of mcache.\<close>

end
